(* ===== verification/Prelude.thy ===== *)
theory Prelude
  imports Main "HOL-Library.Word"
begin

section \<open>Prelude\<close>

text \<open>
  Names and lemmas every theory of the development uses: the types that stand for thread
  and object identities, the collections of simplification rules that drive the component
  proofs, and generic facts on lists and on updates of one thread's entry in a function.
\<close>

type_synonym tid = nat          \<comment> \<open>a thread handle: \<open>thread::current()\<close>, compared by id\<close>
type_synonym instant = nat      \<comment> \<open>\<open>Instant\<close>: a reading of the monotone clock\<close>
type_synonym u8 = "8 word"
type_synonym u32 = "32 word"
type_synonym u64 = "64 word"

named_theorems resume_simps \<open>the next atomic access of a named program\<close>
named_theorems ends_intros \<open>complete runs of a named program without interference\<close>

subsection \<open>Facts about one thread's entry\<close>

lemma all_fun_upd: "(\<forall>t. P t ((f(i := x)) t)) \<longleftrightarrow> P i x \<and> (\<forall>t. t \<noteq> i \<longrightarrow> P t (f t))"
  by auto

lemma ex_fun_upd: "(\<exists>t. P t ((f(i := x)) t)) \<longleftrightarrow> P i x \<or> (\<exists>t. t \<noteq> i \<and> P t (f t))"
  by auto

text \<open>
  A flag that exactly one thread owns: \<open>b\<close> is set just when some thread is at a point
  where \<open>P\<close> holds, and never two of them. Every lock of the crate is such a flag.
\<close>

definition excl :: "bool \<Rightarrow> ('pc \<Rightarrow> bool) \<Rightarrow> (tid \<Rightarrow> 'pc) \<Rightarrow> bool" where
  "excl b P pcs \<longleftrightarrow> (b \<longleftrightarrow> (\<exists>t. P (pcs t))) \<and> (\<forall>t u. P (pcs t) \<and> P (pcs u) \<longrightarrow> t = u)"

text \<open>What one thread's step may do to such a flag.\<close>

definition flag_step :: "bool \<Rightarrow> bool \<Rightarrow> ('pc \<Rightarrow> bool) \<Rightarrow> 'pc \<Rightarrow> 'pc \<Rightarrow> bool" where
  "flag_step b b' P pc pc' \<longleftrightarrow>
     (P pc \<longrightarrow> b \<longrightarrow> b' = P pc') \<and> (\<not> P pc \<longrightarrow> b' = (b \<or> P pc')) \<and> (P pc' \<and> \<not> P pc \<longrightarrow> \<not> b)"

lemma excl_step:
  assumes "excl b P pcs" and "flag_step b b' P (pcs i) pc'"
  shows "excl b' P (pcs(i := pc'))"
  using assms unfolding excl_def flag_step_def by (auto; metis)

lemma exclD:
  assumes "excl b P pcs"
  shows "P (pcs t) \<Longrightarrow> b" and "P (pcs t) \<Longrightarrow> P (pcs u) \<Longrightarrow> t = u"
    and "b \<Longrightarrow> \<exists>t. P (pcs t)"
  using assms by (auto simp: excl_def)

lemma excl_none: "(\<And>t. \<not> P (pcs t)) \<Longrightarrow> excl False P pcs"
  by (simp add: excl_def)

subsection \<open>Lists: \<open>position\<close> and \<open>remove\<close>\<close>

text \<open>\<open>iter().position(p)\<close>: the index of the first element that satisfies \<open>p\<close>.\<close>

fun position :: "('a \<Rightarrow> bool) \<Rightarrow> 'a list \<Rightarrow> nat option" where
  "position p [] = None"
| "position p (x # xs) = (if p x then Some 0 else map_option Suc (position p xs))"

lemma position_None_iff: "position p xs = None \<longleftrightarrow> (\<forall>x\<in>set xs. \<not> p x)"
  by (induction xs) auto

lemma position_SomeD:
  "position p xs = Some i \<Longrightarrow> i < length xs \<and> p (xs ! i) \<and> (\<forall>j<i. \<not> p (xs ! j))"
proof (induction xs arbitrary: i)
  case (Cons x xs)
  then show ?case
    by (cases i) (auto split: if_splits simp: less_Suc_eq_0_disj)
qed simp

text \<open>\<open>Vec::remove(pos)\<close> for a position inside the vector.\<close>

definition remove_at :: "nat \<Rightarrow> 'a list \<Rightarrow> 'a list" where
  "remove_at i xs = take i xs @ drop (Suc i) xs"

lemma remove_at_simps [simp]:
  "remove_at 0 (x # xs) = xs"
  "remove_at (Suc i) (x # xs) = x # remove_at i xs"
  by (simp_all add: remove_at_def)

lemma length_remove_at: "i < length xs \<Longrightarrow> length (remove_at i xs) = length xs - 1"
  by (simp add: remove_at_def)

lemma set_remove_at_subset: "set (remove_at i xs) \<subseteq> set xs"
  by (auto simp: remove_at_def dest: in_set_takeD in_set_dropD)

subsection \<open>Logs of updates\<close>

text \<open>The updates that were made to shared data, oldest first; \<open>by_thread t\<close> is what thread \<open>t\<close>
  contributed.\<close>

type_synonym 'd log = "(tid \<times> ('d \<Rightarrow> 'd)) list"

definition apply_log :: "'d log \<Rightarrow> 'd \<Rightarrow> 'd" where
  "apply_log log v = fold snd log v"

definition by_thread :: "tid \<Rightarrow> 'd log \<Rightarrow> ('d \<Rightarrow> 'd) list" where
  "by_thread t log = map snd (filter (\<lambda>e. fst e = t) log)"

lemma apply_log_simps [simp]:
  "apply_log [] v = v"
  "apply_log (log @ [(t, f)]) v = f (apply_log log v)"
  by (simp_all add: apply_log_def)

lemma by_thread_simps [simp]:
  "by_thread t [] = []"
  "by_thread t (log @ [(u, f)]) = (if t = u then by_thread t log @ [f] else by_thread t log)"
  by (simp_all add: by_thread_def)

end
