(* ===== verification/Programs.thy ===== *)
theory Programs
  imports Prelude
begin

section \<open>Programs as trees of atomic accesses, and their interleaving\<close>

text \<open>
  The crate is lock-based code over atomics, so what a function does depends on what other
  threads do between its accesses to shared memory. A function of the crate is therefore
  modelled as a \<^emph>\<open>program\<close>: a possibly infinite tree whose \<open>Act\<close> nodes are the
  single accesses to the shared state (one atomic load, store, swap, compare-exchange, one
  access to data under a lock, one blocking call), in program order. A node that returns
  \<open>None\<close> in a state is blocked there. \<open>Return\<close> and \<open>Panic\<close> are the two ways a call
  ends. \<open>bind\<close> is sequencing, \<open>loop\<close> is \<open>loop { .. }\<close> with \<open>Some\<close> for
  \<open>break\<close> and \<open>None\<close> for \<open>continue\<close> (the jump back is a step of its own: it stands
  for \<open>spin_loop()\<close> or the branch), and \<open>on_unwind\<close> is the destructor run by a panic.

  Threads are interleaved by \<open>sys_step\<close>: any thread whose next access is enabled makes it,
  or the environment changes the state. Nothing is assumed about the scheduler.
  Atomics are sequentially consistent: the weak orderings the source names
  (\<open>Acquire\<close>, \<open>Release\<close>, \<open>Relaxed\<close>) are not distinguished.
\<close>

codatatype ('s, 'a) prog =
    Return 'a
  | Panic string
  | Act "'s \<Rightarrow> ('s \<times> ('s, 'a) prog) option"

definition resume :: "('s, 'a) prog \<Rightarrow> 's \<Rightarrow> ('s \<times> ('s, 'a) prog) option" where
  "resume p s = (case p of Act f \<Rightarrow> f s | _ \<Rightarrow> None)"

definition running :: "('s, 'a) prog \<Rightarrow> bool" where
  "running p = (case p of Act f \<Rightarrow> True | _ \<Rightarrow> False)"

lemma running_simps [simp]:
  "running (Act f)" "\<not> running (Return x)" "\<not> running (Panic m)"
  by (simp_all add: running_def)

lemma resume_basic [simp]:
  "resume (Act f) s = f s" "resume (Return x) s = None" "resume (Panic m) s = None"
  by (simp_all add: resume_def)

lemma running_cases:
  obtains (Running) "running p" | (Return) x where "p = Return x" | (Panic) m where "p = Panic m"
  by (cases p) auto

lemma resume_running: "resume p s = Some sp \<Longrightarrow> running p"
  by (cases p) auto

subsection \<open>Sequencing\<close>

primcorec bind :: "('s, 'a) prog \<Rightarrow> ('a \<Rightarrow> ('s, 'b) prog) \<Rightarrow> ('s, 'b) prog" where
  "bind p k = (case p of
      Return x \<Rightarrow> k x
    | Panic m \<Rightarrow> Panic m
    | Act f \<Rightarrow> Act (\<lambda>s. map_option (map_prod id (\<lambda>p. bind p k)) (f s)))"

abbreviation seq :: "('s, 'a) prog \<Rightarrow> ('s, 'b) prog \<Rightarrow> ('s, 'b) prog" where
  "seq p q \<equiv> bind p (\<lambda>_. q)"

lemma bind_simps [simp]:
  "bind (Return x) k = k x"
  "bind (Panic m) k = Panic m"
  by (subst bind.code; simp)+

lemma bind_Act: "bind (Act f) k = Act (\<lambda>s. map_option (map_prod id (\<lambda>p. bind p k)) (f s))"
  by (subst bind.code; simp)

lemma running_bind [simp]: "running p \<Longrightarrow> running (bind p k)"
  by (cases p) (simp_all add: bind_Act)

lemma resume_bind [simp]:
  "running p \<Longrightarrow> resume (bind p k) s = map_option (map_prod id (\<lambda>p. bind p k)) (resume p s)"
  by (cases p) (simp_all add: bind_Act)

lemma bind_Return_right [simp]: "bind p Return = p"
proof (coinduction arbitrary: p rule: prog.coinduct_strong)
  case (Eq_prog p)
  then show ?case
    by (cases p) (auto simp: bind_Act rel_fun_def option.rel_map rel_prod_sel
        intro!: option.rel_refl_strong)
qed

lemma bind_assoc: "bind (bind p k) l = bind p (\<lambda>x. bind (k x) l)"
proof (coinduction arbitrary: p rule: prog.coinduct_strong)
  case (Eq_prog p)
  then show ?case
    by (cases p) (auto simp: bind_Act rel_fun_def option.rel_map option.rel_refl_strong rel_prod_sel
        intro!: option.rel_refl_strong prog.rel_refl_strong split: prog.splits)
qed

subsection \<open>Loops\<close>

primcorec loop_from :: "('s, 'a option) prog \<Rightarrow> ('s, 'a option) prog \<Rightarrow> ('s, 'a) prog" where
  "loop_from body p = (case p of
      Return r \<Rightarrow> (case r of
          Some x \<Rightarrow> Return x
        | None \<Rightarrow> Act (\<lambda>s. Some (s, loop_from body body)))
    | Panic m \<Rightarrow> Panic m
    | Act f \<Rightarrow> Act (\<lambda>s. map_option (map_prod id (\<lambda>p. loop_from body p)) (f s)))"

definition loop :: "('s, 'a option) prog \<Rightarrow> ('s, 'a) prog" where
  "loop body = loop_from body body"

abbreviation continue :: "('s, 'a option) prog" where
  "continue \<equiv> Return None"

abbreviation break :: "'a \<Rightarrow> ('s, 'a option) prog" where
  "break x \<equiv> Return (Some x)"

lemma loop_from_fold [simp]: "loop_from b b = loop b"
  by (simp add: loop_def)

lemma loop_from_simps [simp]:
  "loop_from b (Return (Some x)) = Return x"
  "loop_from b (Panic m) = Panic m"
  "running (loop_from b (Return None))"
  "resume (loop_from b (Return None)) s = Some (s, loop b)"
  by (subst loop_from.code; simp)+

lemma loop_from_Act:
  "loop_from b (Act f) = Act (\<lambda>s. map_option (map_prod id (\<lambda>p. loop_from b p)) (f s))"
  by (subst loop_from.code; simp)

lemma running_loop_from [simp]: "running p \<Longrightarrow> running (loop_from b p)"
  by (cases p) (simp_all add: loop_from_Act)

lemma resume_loop_from [simp]:
  "running p \<Longrightarrow> resume (loop_from b p) s = map_option (map_prod id (loop_from b)) (resume p s)"
  by (cases p) (simp_all add: loop_from_Act)

lemma running_loop [simp]: "running b \<Longrightarrow> running (loop b)"
  unfolding loop_def by (rule running_loop_from)

lemma resume_loop [simp]:
  "running b \<Longrightarrow> resume (loop b) s = map_option (map_prod id (loop_from b)) (resume b s)"
  unfolding loop_def by (rule resume_loop_from)

subsection \<open>Destructors that run when a panic unwinds\<close>

text \<open>\<open>on_unwind p c\<close> runs \<open>p\<close>; if \<open>p\<close> panics it runs \<open>c\<close> and goes on panicking.\<close>

primcorec on_unwind :: "('s, 'a) prog \<Rightarrow> ('s, unit) prog \<Rightarrow> ('s, 'a) prog" where
  "on_unwind p c = (case p of
      Return x \<Rightarrow> Return x
    | Panic m \<Rightarrow> bind c (\<lambda>_. Panic m)
    | Act f \<Rightarrow> Act (\<lambda>s. map_option (map_prod id (\<lambda>p. on_unwind p c)) (f s)))"

lemma on_unwind_simps [simp]:
  "on_unwind (Return x) c = Return x"
  "on_unwind (Panic m) c = bind c (\<lambda>_. Panic m)"
  by (subst on_unwind.code; simp split: prog.split)+

lemma on_unwind_Act:
  "on_unwind (Act f) c = Act (\<lambda>s. map_option (map_prod id (\<lambda>p. on_unwind p c)) (f s))"
  by (subst on_unwind.code; simp)

lemma running_on_unwind [simp]: "running p \<Longrightarrow> running (on_unwind p c)"
  by (cases p) (simp_all add: on_unwind_Act)

lemma resume_on_unwind [simp]:
  "running p \<Longrightarrow>
    resume (on_unwind p c) s = map_option (map_prod id (\<lambda>p. on_unwind p c)) (resume p s)"
  by (cases p) (simp_all add: on_unwind_Act)

text \<open>\<open>catch_unwind p\<close> turns a panic of \<open>p\<close> into a value.\<close>

primcorec catch_unwind :: "('s, 'a) prog \<Rightarrow> ('s, string + 'a) prog" where
  "catch_unwind p = (case p of
      Return x \<Rightarrow> Return (Inr x)
    | Panic m \<Rightarrow> Return (Inl m)
    | Act f \<Rightarrow> Act (\<lambda>s. map_option (map_prod id catch_unwind) (f s)))"

lemma catch_unwind_simps [simp]:
  "catch_unwind (Return x) = Return (Inr x)"
  "catch_unwind (Panic m) = Return (Inl m)"
  by (subst catch_unwind.code; simp)+

lemma catch_unwind_Act:
  "catch_unwind (Act f) = Act (\<lambda>s. map_option (map_prod id catch_unwind) (f s))"
  by (subst catch_unwind.code; simp)

lemma running_catch_unwind [simp]: "running p \<Longrightarrow> running (catch_unwind p)"
  by (cases p) (simp_all add: catch_unwind_Act)

lemma resume_catch_unwind [simp]:
  "running p \<Longrightarrow> resume (catch_unwind p) s = map_option (map_prod id catch_unwind) (resume p s)"
  by (cases p) (simp_all add: catch_unwind_Act)

subsection \<open>Single accesses\<close>

definition atomic :: "('s \<Rightarrow> 's \<times> 'a) \<Rightarrow> ('s, 'a) prog" where
  "atomic f = Act (\<lambda>s. Some (fst (f s), Return (snd (f s))))"

definition await :: "('s \<Rightarrow> bool) \<Rightarrow> ('s \<Rightarrow> 's \<times> 'a) \<Rightarrow> ('s, 'a) prog" where
  "await c f = Act (\<lambda>s. if c s then Some (fst (f s), Return (snd (f s))) else None)"

definition skip :: "('s, unit) prog" where
  "skip = atomic (\<lambda>s. (s, ()))"

lemma atomic_simps [simp]:
  "running (atomic f)"
  "resume (atomic f) s = Some (fst (f s), Return (snd (f s)))"
  by (simp_all add: atomic_def)

lemma await_simps [simp]:
  "running (await c f)"
  "resume (await c f) s = (if c s then Some (fst (f s), Return (snd (f s))) else None)"
  by (simp_all add: await_def)

lemma skip_simps [simp]: "running skip" "resume skip s = Some (s, Return ())"
  by (simp_all add: skip_def)

text \<open>\<open>for x in xs { f(x) }\<close>\<close>

fun for_each :: "'x list \<Rightarrow> ('x \<Rightarrow> ('s, unit) prog) \<Rightarrow> ('s, unit) prog" where
  "for_each [] f = Return ()"
| "for_each (x # xs) f = seq (f x) (for_each xs f)"

subsection \<open>Places: a field of the state that holds an object\<close>

text \<open>
  \<open>&self\<close> of a spinlock that is a field of a larger object: how to read that field and how
  to update it.
\<close>

datatype ('s, 'v) place = Place (peek: "'s \<Rightarrow> 'v") (poke: "('v \<Rightarrow> 'v) \<Rightarrow> 's \<Rightarrow> 's")

subsection \<open>A call that runs alone\<close>

text \<open>
  \<open>ends p s q s'\<close>: with no other thread moving, \<open>p\<close> started in \<open>s\<close> stops as \<open>q\<close> in
  \<open>s'\<close>, where \<open>q\<close> is \<open>Return x\<close> or \<open>Panic m\<close>. This is total correctness: a call that
  blocks or loops for ever has no such \<open>q\<close>.
\<close>

inductive ends :: "('s, 'a) prog \<Rightarrow> 's \<Rightarrow> ('s, 'a) prog \<Rightarrow> 's \<Rightarrow> bool" where
  ends_here: "\<not> running p \<Longrightarrow> ends p s p s"
| ends_step: "resume p s = Some (s', p') \<Longrightarrow> ends p' s' q s'' \<Longrightarrow> ends p s q s''"

lemma ends_stopped: "ends p s q s' \<Longrightarrow> \<not> running q"
  by (induction rule: ends.induct) auto

lemma ends_Return [ends_intros]: "ends (Return x) s (Return x) s"
  and ends_Panic [ends_intros]: "ends (Panic m) s (Panic m) s"
  by (auto intro: ends_here)

lemma ends_unique: "ends p s q s' \<Longrightarrow> ends p s q2 s2 \<Longrightarrow> q2 = q \<and> s2 = s'"
proof (induction arbitrary: q2 s2 rule: ends.induct)
  case (ends_here p s)
  from ends_here(2) ends_here(1) show ?case
    by (cases rule: ends.cases) (auto dest: resume_running)
next
  case (ends_step p s s' p' q s'')
  from ends_step.prems have "ends p' s' q2 s2"
    using ends_step.hyps(1) by (cases rule: ends.cases) (auto dest: resume_running)
  then show ?case by (rule ends_step.IH)
qed

lemma ends_bind:
  assumes "ends p s (Return x) s1" and "ends (k x) s1 q s2"
  shows "ends (bind p k) s q s2"
proof -
  have "ends (bind p k) s q s2"
    if "ends p s r s1" and "r = Return x" for r
    using that assms(2)
  proof (induction rule: ends.induct)
    case (ends_step p s s' p' q0 s'')
    then have "resume (bind p k) s = Some (s', bind p' k)"
      by (simp add: resume_running)
    then show ?case using ends_step by (blast intro: ends.ends_step)
  qed simp
  with assms(1) show ?thesis by blast
qed

text \<open>The first half of a sequence that ends has ended.\<close>

lemma ends_bind_first:
  assumes "ends (bind p k) s q s2"
  shows "\<exists>r s1. ends p s r s1"
proof -
  have "\<exists>r s1. ends p s r s1" if "ends b s q s2" "b = bind p k" for b
    using that
  proof (induction arbitrary: p rule: ends.induct)
    case (ends_here b s)
    then have "\<not> running p" using running_bind by metis
    then show ?case by (blast intro: ends.ends_here)
  next
    case (ends_step b s s' b' q s'')
    show ?case
    proof (cases "resume p s")
      case None
      have "\<not> running p"
      proof
        assume "running p"
        with None ends_step.prems ends_step.hyps(1) show False by simp
      qed
      then show ?thesis by (blast intro: ends.ends_here)
    next
      case (Some sp)
      obtain p' where p': "resume p s = Some (s', p')" "b' = bind p' k"
        using Some ends_step.prems ends_step.hyps(1) resume_running [OF Some] by (cases sp) auto
      from ends_step.IH [OF p'(2)] obtain r s1 where "ends p' s' r s1" by blast
      with p'(1) show ?thesis by (blast intro: ends.ends_step)
    qed
  qed
  with assms show ?thesis by blast
qed

lemma ends_bind_Panic:
  assumes "ends p s (Panic m) s1"
  shows "ends (bind p k) s (Panic m) s1"
proof -
  have "ends (bind p k) s (Panic m) s1"
    if "ends p s r s1" and "r = Panic m" for r
    using that
  proof (induction rule: ends.induct)
    case (ends_step p s s' p' q0 s'')
    then have "resume (bind p k) s = Some (s', bind p' k)"
      by (simp add: resume_running)
    then show ?case using ends_step by (blast intro: ends.ends_step)
  qed (simp add: ends_Panic)
  with assms show ?thesis by blast
qed

lemma ends_on_unwind_Panic:
  assumes "ends p s (Panic m) s1" and "ends c s1 (Return ()) s2"
  shows "ends (on_unwind p c) s (Panic m) s2"
proof -
  have "ends (on_unwind p c) s (Panic m) s2"
    if "ends p s r s1" and "r = Panic m" for r
    using that assms(2)
  proof (induction rule: ends.induct)
    case (ends_here p s)
    then show ?case by (auto intro: ends_bind ends_Panic)
  next
    case (ends_step p s s' p' q0 s'')
    then have "resume (on_unwind p c) s = Some (s', on_unwind p' c)"
      by (simp add: resume_running)
    then show ?case using ends_step by (blast intro: ends.ends_step)
  qed
  with assms(1) show ?thesis by blast
qed

lemma ends_on_unwind_Return:
  assumes "ends p s (Return x) s1"
  shows "ends (on_unwind p c) s (Return x) s1"
proof -
  have "ends (on_unwind p c) s (Return x) s1"
    if "ends p s r s1" and "r = Return x" for r
    using that
  proof (induction rule: ends.induct)
    case (ends_step p s s' p' q0 s'')
    then have "resume (on_unwind p c) s = Some (s', on_unwind p' c)"
      by (simp add: resume_running)
    then show ?case using ends_step by (blast intro: ends.ends_step)
  qed (simp add: ends_Return)
  with assms show ?thesis by blast
qed

lemma ends_state: "ends p s q s1 \<Longrightarrow> s1 = s2 \<Longrightarrow> ends p s q s2"
  by simp

lemma ends_one: "resume p s = Some (s', Return x) \<Longrightarrow> ends p s (Return x) s'"
  by (blast intro: ends_step ends_Return)

lemma ends_catch_unwind:
  assumes "ends p s q s1"
  shows "ends (catch_unwind p) s (catch_unwind q) s1"
  using assms
proof (induction rule: ends.induct)
  case (ends_here p s)
  then show ?case by (cases p rule: running_cases) (auto intro: ends_Return)
next
  case (ends_step p s s' p' q s'')
  then have "resume (catch_unwind p) s = Some (s', catch_unwind p')"
    by (simp add: resume_running)
  then show ?case using ends_step.IH by (rule ends.ends_step)
qed

text \<open>What a thread owns is dropped at its end and also when it unwinds.\<close>

definition dropping :: "('s, 'a) prog \<Rightarrow> ('s, unit) prog \<Rightarrow> ('s, 'a) prog" where
  "dropping p c = bind (on_unwind p c) (\<lambda>r. seq c (Return r))"

lemma ends_dropping:
  assumes "ends p s q s1" and "ends c s1 (Return ()) s2"
  shows "ends (dropping p c) s q s2"
proof -
  have "\<not> running q" using assms(1) by (rule ends_stopped)
  then show ?thesis unfolding dropping_def
    by (cases q rule: running_cases)
      (use assms in \<open>auto intro: ends_bind ends_bind_Panic ends_on_unwind_Return ends_on_unwind_Panic ends_Return\<close>)
qed

text \<open>A loop ends when an iteration breaks, and goes on after one that continues.\<close>

lemma ends_loop_from_break:
  assumes "ends p s (Return (Some x)) s1"
  shows "ends (loop_from b p) s (Return x) s1"
proof -
  have "ends (loop_from b p) s (Return x) s1"
    if "ends p s r s1" and "r = Return (Some x)" for r
    using that
  proof (induction rule: ends.induct)
    case (ends_step p s s' p' q0 s'')
    then have "resume (loop_from b p) s = Some (s', loop_from b p')"
      by (simp add: resume_running)
    then show ?case using ends_step by (blast intro: ends.ends_step)
  qed (simp add: ends_Return)
  with assms show ?thesis by blast
qed

lemma ends_loop_break: "ends b s (Return (Some x)) s1 \<Longrightarrow> ends (loop b) s (Return x) s1"
  unfolding loop_def by (rule ends_loop_from_break)

lemma ends_loop_from_continue:
  assumes "ends p s (Return None) s1" and "ends (loop b) s1 q s2"
  shows "ends (loop_from b p) s q s2"
proof -
  have "ends (loop_from b p) s q s2"
    if "ends p s r s1" and "r = Return None" for r p
    using that assms(2)
  proof (induction rule: ends.induct)
    case (ends_here p s)
    then show ?case by (auto intro: ends_step)
  next
    case (ends_step p s s' p' q0 s'')
    then have "resume (loop_from b p) s = Some (s', loop_from b p')"
      by (simp add: resume_running)
    then show ?case using ends_step by (blast intro: ends.ends_step)
  qed
  with assms(1) show ?thesis by blast
qed

lemma ends_loop_continue:
  "ends b s (Return None) s1 \<Longrightarrow> ends (loop b) s1 q s2 \<Longrightarrow> ends (loop b) s q s2"
  unfolding loop_def by (rule ends_loop_from_continue) simp_all

lemma ends_loop_Panic:
  assumes "ends b s (Panic m) s1"
  shows "ends (loop b) s (Panic m) s1"
proof -
  have "ends (loop_from b p) s (Panic m) s1" if "ends p s r s1" and "r = Panic m" for r p
    using that
  proof (induction rule: ends.induct)
    case (ends_step p s s' p' q0 s'')
    then have "resume (loop_from b p) s = Some (s', loop_from b p')"
      by (simp add: resume_running)
    then show ?case using ends_step by (blast intro: ends.ends_step)
  qed (simp add: ends_Panic)
  with assms show ?thesis unfolding loop_def by blast
qed

lemma ends_for_each:
  assumes "\<And>x s. ends (f x) s (Return ()) (g x s)"
  shows "ends (for_each xs f) s (Return ()) (fold g xs s)"
  by (induction xs arbitrary: s) (auto intro: ends_Return ends_bind assms)

text \<open>A part of a run: \<open>p\<close> gets from \<open>s\<close> to the point \<open>q\<close> in \<open>s'\<close>, where it may block.\<close>

inductive runs :: "('s, 'a) prog \<Rightarrow> 's \<Rightarrow> ('s, 'a) prog \<Rightarrow> 's \<Rightarrow> bool" where
  runs_here: "runs p s p s"
| runs_step: "resume p s = Some (s', p') \<Longrightarrow> runs p' s' q s'' \<Longrightarrow> runs p s q s''"

lemma runs_trans: "runs p s q s' \<Longrightarrow> runs q s' r s'' \<Longrightarrow> runs p s r s''"
  by (induction rule: runs.induct) (auto intro: runs_step)

lemma ends_runs: "ends p s q s' \<Longrightarrow> runs p s q s'"
  by (induction rule: ends.induct) (auto intro: runs.intros)

lemma runs_bind: "runs p s q s' \<Longrightarrow> runs (bind p k) s (bind q k) s'"
  by (induction rule: runs.induct) (auto intro: runs_here runs_step simp: resume_running)

lemma runs_loop_from: "runs p s q s' \<Longrightarrow> runs (loop_from b p) s (loop_from b q) s'"
  by (induction rule: runs.induct) (auto intro: runs_here runs_step simp: resume_running)

lemma runs_loop: "runs b s q s' \<Longrightarrow> runs (loop b) s (loop_from b q) s'"
  using runs_loop_from [of b s q s' b] by simp

lemma runs_after:
  assumes "ends p s (Return x) s1" and "runs (k x) s1 q s2"
  shows "runs (bind p k) s q s2"
  using runs_bind [OF ends_runs [OF assms(1)], of k] assms(2) by (auto intro: runs_trans)

text \<open>The same run, with a step budget, as a function to evaluate.\<close>

fun run_alone :: "nat \<Rightarrow> ('s, 'a) prog \<Rightarrow> 's \<Rightarrow> 's \<times> ('s, 'a) prog" where
  "run_alone 0 p s = (s, p)"
| "run_alone (Suc n) p s = (case resume p s of None \<Rightarrow> (s, p) | Some (s', p') \<Rightarrow> run_alone n p' s')"

lemma run_alone_ends:
  "run_alone n p s = (s', q) \<Longrightarrow> \<not> running q \<Longrightarrow> ends p s q s'"
proof (induction n arbitrary: p s)
  case 0
  then show ?case by (auto intro: ends_here)
next
  case (Suc n)
  show ?case
  proof (cases "resume p s")
    case None
    with Suc.prems show ?thesis by (auto intro: ends_here)
  next
    case (Some sp)
    obtain s1 p1 where "sp = (s1, p1)" by (cases sp)
    with Some Suc show ?thesis by (auto intro: ends_step)
  qed
qed

subsection \<open>Threads interleaved\<close>

type_synonym ('s, 'a) config = "'s \<times> (tid \<Rightarrow> ('s, 'a) prog)"

inductive sys_step :: "('s \<Rightarrow> 's \<Rightarrow> bool) \<Rightarrow> ('s, 'a) config \<Rightarrow> ('s, 'a) config \<Rightarrow> bool"
  for env where
  thread_step: "resume (ps i) s = Some (s', p') \<Longrightarrow> sys_step env (s, ps) (s', ps(i := p'))"
| env_step: "env s s' \<Longrightarrow> sys_step env (s, ps) (s', ps)"

inductive sys_reach :: "('s \<Rightarrow> 's \<Rightarrow> bool) \<Rightarrow> ('s, 'a) config \<Rightarrow> ('s, 'a) config \<Rightarrow> bool"
  for env c0 where
  reach_start: "sys_reach env c0 c0"
| reach_next: "sys_reach env c0 c \<Longrightarrow> sys_step env c c' \<Longrightarrow> sys_reach env c0 c'"

inductive_cases sys_stepE: "sys_step env (s, ps) c"

text \<open>What one thread and the environment can do between them, and where that leads the system.\<close>

inductive solo :: "('s \<Rightarrow> 's \<Rightarrow> bool) \<Rightarrow> ('s, 'a) prog \<Rightarrow> 's \<Rightarrow> ('s, 'a) prog \<Rightarrow> 's \<Rightarrow> bool"
  for env where
  solo_here: "solo env p s p s"
| solo_step: "resume p s = Some (s', p') \<Longrightarrow> solo env p' s' q s'' \<Longrightarrow> solo env p s q s''"
| solo_env: "env s s' \<Longrightarrow> solo env p s' q s'' \<Longrightarrow> solo env p s q s''"

lemma solo_reach:
  "solo env p s q s' \<Longrightarrow> sys_reach env c0 (s, ps) \<Longrightarrow> p = ps i \<Longrightarrow> sys_reach env c0 (s', ps(i := q))"
proof (induction arbitrary: ps rule: solo.induct)
  case (solo_step p s s1 p1 q s2)
  from solo_step.prems solo_step.hyps(1) have "sys_reach env c0 (s1, ps(i := p1))"
    by (blast intro: reach_next thread_step)
  moreover have "p1 = (ps(i := p1)) i" by simp
  ultimately have "sys_reach env c0 (s2, (ps(i := p1))(i := q))" by (rule solo_step.IH)
  then show ?case by (simp only: fun_upd_upd)
next
  case (solo_env s s1 p q s2)
  from solo_env.prems solo_env.hyps(1) have "sys_reach env c0 (s1, ps)"
    by (blast intro: reach_next env_step)
  then show ?case using solo_env.prems(2) by (rule solo_env.IH)
qed simp

lemma solo_trans: "solo env p s q s' \<Longrightarrow> solo env q s' r s'' \<Longrightarrow> solo env p s r s''"
  by (induction rule: solo.induct) (auto intro: solo.intros)

lemma solo_inv:
  assumes "solo env p s q s'" and "I p s"
    and "\<And>p s s' p'. I p s \<Longrightarrow> resume p s = Some (s', p') \<Longrightarrow> I p' s'"
    and "\<And>p s s'. I p s \<Longrightarrow> env s s' \<Longrightarrow> I p s'"
  shows "I q s'"
  using assms(1,2) by (induction rule: solo.induct) (blast intro: assms(3,4))+

text \<open>No thread can make its next access: every thread has ended or is blocked.\<close>

definition stuck :: "('s, 'a) config \<Rightarrow> bool" where
  "stuck c \<longleftrightarrow> (\<forall>i. resume (snd c i) (fst c) = None)"

text \<open>A concrete schedule, to evaluate: each entry moves one thread (or does nothing if it
  cannot move).\<close>

fun run_schedule :: "tid list \<Rightarrow> ('s, 'a) config \<Rightarrow> ('s, 'a) config" where
  "run_schedule [] c = c"
| "run_schedule (i # is) (s, ps) =
     (case resume (ps i) s of
        None \<Rightarrow> run_schedule is (s, ps)
      | Some (s', p') \<Rightarrow> run_schedule is (s', ps(i := p')))"

lemma run_schedule_reach: "sys_reach env c0 c \<Longrightarrow> sys_reach env c0 (run_schedule is c)"
proof (induction "is" c rule: run_schedule.induct)
  case (2 i "is" s ps)
  show ?case
  proof (cases "resume (ps i) s")
    case None
    with 2 show ?thesis by simp
  next
    case (Some sp)
    obtain s' p' where sp: "sp = (s', p')" by (cases sp)
    with Some "2.prems" have "sys_reach env c0 (s', ps(i := p'))"
      by (blast intro: reach_next thread_step)
    with "2.IH"(2) [OF Some sp [symmetric]] show ?thesis using Some sp by simp
  qed
qed simp

lemmas run_schedule_start = run_schedule_reach [OF reach_start]

subsection \<open>Control points\<close>

text \<open>
  Proofs about interleavings name the points a thread can be at: a data type of control
  points, the rest of the program at each (\<open>code\<close>), and the access made from each
  (\<open>pstep\<close>). The interface \<open>pc_program\<close> says that the two agree; everything proved of the
  control-point machine then holds of the interleaved programs themselves.
\<close>

inductive pc_reach ::
  "('s \<Rightarrow> 's \<Rightarrow> bool) \<Rightarrow> (tid \<Rightarrow> 'pc \<Rightarrow> 's \<Rightarrow> ('s \<times> 'pc) option) \<Rightarrow>
   's \<times> (tid \<Rightarrow> 'pc) \<Rightarrow> 's \<times> (tid \<Rightarrow> 'pc) \<Rightarrow> bool"
  for env pstep c0 where
  pc_start: "pc_reach env pstep c0 c0"
| pc_move: "pc_reach env pstep c0 (s, pcs) \<Longrightarrow> pstep i (pcs i) s = Some (s', pc') \<Longrightarrow>
    pc_reach env pstep c0 (s', pcs(i := pc'))"
| pc_env: "pc_reach env pstep c0 (s, pcs) \<Longrightarrow> env s s' \<Longrightarrow> pc_reach env pstep c0 (s', pcs)"

locale pc_program =
  fixes code :: "tid \<Rightarrow> 'pc \<Rightarrow> ('s, 'a) prog"
    and pstep :: "tid \<Rightarrow> 'pc \<Rightarrow> 's \<Rightarrow> ('s \<times> 'pc) option"
  assumes code_step: "resume (code t pc) s = map_option (map_prod id (code t)) (pstep t pc s)"
begin

lemma code_stuck_iff: "resume (code t pc) s = None \<longleftrightarrow> pstep t pc s = None"
  by (simp add: code_step)

lemma reach_has_pcs:
  assumes "sys_reach env (s0, \<lambda>t. code t (pcs0 t)) c"
  shows "\<exists>s pcs. c = (s, \<lambda>t. code t (pcs t)) \<and> pc_reach env pstep (s0, pcs0) (s, pcs)"
  using assms
proof (induction rule: sys_reach.induct)
  case reach_start
  show ?case by (blast intro: pc_start)
next
  case (reach_next c c')
  then obtain s pcs where c: "c = (s, \<lambda>t. code t (pcs t))"
    and r: "pc_reach env pstep (s0, pcs0) (s, pcs)" by blast
  from reach_next.hyps(2) show ?case unfolding c
  proof (cases rule: sys_step.cases)
    case (thread_step i s' p')
    then obtain pc' where pc': "pstep i (pcs i) s = Some (s', pc')" and "p' = code i pc'"
      by (auto simp: code_step)
    then have "(\<lambda>t. code t (pcs t))(i := p') = (\<lambda>t. code t ((pcs(i := pc')) t))"
      by auto
    with thread_step(1) pc_move [OF r pc'] show ?thesis by metis
  next
    case (env_step s')
    with r show ?thesis by (blast intro: pc_env)
  qed
qed

lemma pcs_are_reached:
  assumes "pc_reach env pstep (s0, pcs0) (s, pcs)"
  shows "sys_reach env (s0, \<lambda>t. code t (pcs0 t)) (s, \<lambda>t. code t (pcs t))"
  using assms
proof (induction "(s, pcs)" arbitrary: s pcs rule: pc_reach.induct)
  case pc_start
  then show ?case by (simp add: reach_start)
next
  case (pc_move s pcs i s' pc')
  have "(\<lambda>t. code t ((pcs(i := pc')) t)) = (\<lambda>t. code t (pcs t))(i := code i pc')"
    by auto
  with pc_move show ?case
    by (auto intro!: reach_next [OF _ thread_step] simp: code_step)
next
  case (pc_env s pcs s')
  then show ?case by (blast intro: reach_next env_step)
qed

end

locale pc_invariant = pc_program +
  fixes env :: "'s \<Rightarrow> 's \<Rightarrow> bool"
    and inv :: "'s \<Rightarrow> (tid \<Rightarrow> 'pc) \<Rightarrow> bool"
  assumes inv_move: "inv s pcs \<Longrightarrow> pstep i (pcs i) s = Some (s', pc') \<Longrightarrow> inv s' (pcs(i := pc'))"
    and inv_env: "inv s pcs \<Longrightarrow> env s s' \<Longrightarrow> inv s' pcs"
begin

lemma pc_reach_inv: "pc_reach env pstep (s0, pcs0) (s, pcs) \<Longrightarrow> inv s0 pcs0 \<Longrightarrow> inv s pcs"
  by (induction "(s, pcs)" arbitrary: s pcs rule: pc_reach.induct)
    (blast intro: inv_move inv_env)+

lemma reach_inv:
  assumes "sys_reach env (s0, \<lambda>t. code t (pcs0 t)) (s, ps)" and "inv s0 pcs0"
  obtains pcs where "ps = (\<lambda>t. code t (pcs t))" and "inv s pcs"
  using reach_has_pcs [OF assms(1)] pc_reach_inv [OF _ assms(2)] by blast

end

end
