(* ===== verification/Spinlock.thy ===== *)
theory Spinlock
  imports Programs
begin

section \<open>\<open>Spinlock\<close> (\<open>src/spinlock.rs\<close>)\<close>

text \<open>
  The lock and its only operation \<open>with_mut\<close>, as a program over any state that has a spinlock
  at some place. The closure is a program too, so that it can access other atomics (the
  primitives call \<open>try_lock\<close> inside it) and can panic.
\<close>

record 'd spinlock =
  data :: 'd
  locked :: bool

definition spinlock_new :: "'d \<Rightarrow> 'd spinlock" where
  "spinlock_new v = \<lparr>data = v, locked = False\<rparr>"

text \<open>\<open>Spinlock::from\<close> and \<open>Spinlock::default\<close>.\<close>

definition spinlock_from :: "'d \<Rightarrow> 'd spinlock" where
  "spinlock_from value = spinlock_new value"

definition spinlock_default :: "'d \<Rightarrow> 'd spinlock" where
  "spinlock_default default_value = spinlock_new default_value"

definition set_locked :: "('s, 'd spinlock) place \<Rightarrow> bool \<Rightarrow> 's \<Rightarrow> 's" where
  "set_locked L b = poke L (locked_update (\<lambda>_. b))"

definition set_data :: "('s, 'd spinlock) place \<Rightarrow> 'd \<Rightarrow> 's \<Rightarrow> 's" where
  "set_data L d = poke L (data_update (\<lambda>_. d))"

text \<open>\<open>self.locked.swap(true)\<close>, the spin loop around it, and \<open>self.locked.store(false)\<close>.\<close>

definition swap_locked :: "('s, 'd spinlock) place \<Rightarrow> ('s, bool) prog" where
  "swap_locked L = atomic (\<lambda>s. (set_locked L True s, locked (peek L s)))"

definition spin_body :: "('s, 'd spinlock) place \<Rightarrow> ('s, unit option) prog" where
  "spin_body L = bind (swap_locked L) (\<lambda>old. if old then continue else break ())"

definition spin_acquire :: "('s, 'd spinlock) place \<Rightarrow> ('s, unit) prog" where
  "spin_acquire L = loop (spin_body L)"

definition store_unlocked :: "('s, 'd spinlock) place \<Rightarrow> ('s, unit) prog" where
  "store_unlocked L = atomic (\<lambda>s. (set_locked L False s, ()))"

definition with_mut :: "('s, 'd spinlock) place \<Rightarrow> ('s, 'r) prog \<Rightarrow> ('s, 'r) prog" where
  "with_mut L f =
     seq (spin_acquire L)
       (bind f (\<lambda>result. seq (store_unlocked L) (Return result)))"

text \<open>One access of the closure to the protected data.\<close>

definition access :: "('s, 'd spinlock) place \<Rightarrow> ('d \<Rightarrow> 'd \<times> 'r) \<Rightarrow> ('s, 'r) prog" where
  "access L g = atomic (\<lambda>s. (set_data L (fst (g (data (peek L s)))) s, snd (g (data (peek L s)))))"

text \<open>\<open>Display\<close> formats the data under the lock.\<close>

definition spinlock_fmt :: "('s, 'd spinlock) place \<Rightarrow> ('d \<Rightarrow> string) \<Rightarrow> ('s, string) prog" where
  "spinlock_fmt L shown = with_mut L (access L (\<lambda>d. (d, shown d)))"

text \<open>The closures the primitives pass: \<open>push\<close>, \<open>pop\<close> and \<open>std::mem::take\<close> on a vector.\<close>

definition push :: "('s, 'x list spinlock) place \<Rightarrow> 'x \<Rightarrow> ('s, unit) prog" where
  "push L x = access L (\<lambda>xs. (xs @ [x], ()))"

definition pop :: "('s, 'x list spinlock) place \<Rightarrow> ('s, 'x option) prog" where
  "pop L = access L (\<lambda>xs. if xs = [] then ([], None) else (butlast xs, Some (last xs)))"

definition mem_take :: "('s, 'x list spinlock) place \<Rightarrow> ('s, 'x list) prog" where
  "mem_take L = access L (\<lambda>xs. ([], xs))"

subsection \<open>Steps\<close>

lemma spinlock_running [simp]:
  "running (swap_locked L)" "running (spin_body L)" "running (spin_acquire L)"
  "running (store_unlocked L)" "running (with_mut L f)" "running (access L g)"
  "running (push P x)" "running (pop P)" "running (mem_take P)"
  by (simp_all add: swap_locked_def spin_body_def spin_acquire_def store_unlocked_def
      with_mut_def access_def push_def pop_def mem_take_def)

lemma loop_spin_body [simp]: "loop (spin_body L) = spin_acquire L"
  by (simp add: spin_acquire_def)

lemma spin_acquire_step [simp]:
  "resume (spin_acquire L) s =
     Some (set_locked L True s,
       if locked (peek L s) then loop_from (spin_body L) continue else Return ())"
  unfolding spin_acquire_def
  by (simp add: spin_body_def swap_locked_def)

text \<open>Inside \<open>with_mut\<close>, after the lock was taken: the closure, then the release.\<close>

definition section_of :: "('s, 'd spinlock) place \<Rightarrow> ('s, 'r) prog \<Rightarrow> ('s, 'r) prog" where
  "section_of L f = bind f (\<lambda>result. seq (store_unlocked L) (Return result))"

definition spin_hint :: "('s, 'd spinlock) place \<Rightarrow> ('s, 'r) prog \<Rightarrow> ('s, 'r) prog" where
  "spin_hint L f = seq (loop_from (spin_body L) continue) (section_of L f)"

definition unlocking :: "('s, 'd spinlock) place \<Rightarrow> 'r \<Rightarrow> ('s, 'r) prog" where
  "unlocking L r = seq (store_unlocked L) (Return r)"

lemma section_simps [simp]:
  "running (spin_hint L f)"
  "running f \<Longrightarrow> running (section_of L f)"
  "running (unlocking L r)"
  "resume (with_mut L f) s =
     Some (set_locked L True s, if locked (peek L s) then spin_hint L f else section_of L f)"
  "resume (spin_hint L f) s = Some (s, with_mut L f)"
  "running f \<Longrightarrow> resume (section_of L f) s = map_option (map_prod id (section_of L)) (resume f s)"
  "section_of L (Return r) = unlocking L r"
  "section_of L (Panic m) = Panic m"
  "resume (unlocking L r) s = Some (set_locked L False s, Return r)"
  by (simp_all add: with_mut_def section_of_def [abs_def] spin_hint_def unlocking_def store_unlocked_def)

lemma access_step [simp]:
  "resume (access L g) s =
     Some (set_data L (fst (g (data (peek L s)))) s, Return (snd (g (data (peek L s)))))"
  by (simp add: access_def)

lemma vec_steps [simp]:
  "resume (push P x) s = Some (set_data P (data (peek P s) @ [x]) s, Return ())"
  "resume (mem_take P) s = Some (set_data P [] s, Return (data (peek P s)))"
  by (simp_all add: push_def mem_take_def)

lemma pop_step [simp]:
  "resume (pop P) s =
     Some (set_data P (butlast (data (peek P s))) s,
       Return (if data (peek P s) = [] then None else Some (last (data (peek P s)))))"
  by (simp add: pop_def)

lemma spinlock_reset [simp]:
  "l\<lparr>data := d, locked := False\<rparr> = spinlock_new d"
  "l\<lparr>locked := True, data := d, locked := False\<rparr> = spinlock_new d"
  "data (spinlock_new d) = d" "locked (spinlock_new d) = False"
  by (simp_all add: spinlock_new_def)

lemma spinlock_relock: "\<not> locked l \<Longrightarrow> l\<lparr>locked := False\<rparr> = l"
  by (cases l) simp

text \<open>A call of \<open>with_mut\<close> that runs alone and finds the lock free.\<close>

lemma ends_section_of:
  assumes "ends f s (Return r) s1"
  shows "ends (section_of L f) s (Return r) (set_locked L False s1)"
  unfolding section_of_def using assms
  by (rule ends_bind) (rule ends_one, simp add: store_unlocked_def)

lemma ends_with_mut:
  assumes "\<not> locked (peek L s)" and "ends f (set_locked L True s) (Return r) s1"
  shows "ends (with_mut L f) s (Return r) (set_locked L False s1)"
  by (rule ends_step) (use assms ends_section_of in auto)

lemma ends_with_mut_Panic:
  assumes "\<not> locked (peek L s)" and "ends f (set_locked L True s) (Panic m) s1"
  shows "ends (with_mut L f) s (Panic m) s1"
proof (rule ends_step)
  show "ends (section_of L f) (set_locked L True s) (Panic m) s1"
    unfolding section_of_def using assms(2) by (rule ends_bind_Panic)
qed (simp add: assms(1))

text \<open>A call on a lock that nobody is going to free spins for ever.\<close>

lemma with_mut_never_ends:
  assumes "locked (peek L s)" and "set_locked L True s = s"
  shows "\<not> ends (with_mut L f) s q s2"
proof -
  have "p \<noteq> with_mut L f \<and> p \<noteq> spin_hint L f" if "ends p s1 q s2" "s1 = s" for p s1
    using that by (induction rule: ends.induct) (use assms in auto)
  then show ?thesis by blast
qed

subsection \<open>A spinlock in a field\<close>

text \<open>What a place promises: an update is seen by the next read and two updates compose. For a
  lock in such a place a closure of one access, called alone, replaces the data and leaves the
  lock free.\<close>

locale spin_place =
  fixes L :: "('s, 'd spinlock) place"
  assumes peek_poke: "peek L (poke L f s) = f (peek L s)"
    and poke_poke: "poke L f (poke L g s) = poke L (\<lambda>v. f (g v)) s"
begin

lemma ends_access:
  assumes "\<not> locked (peek L s)"
  shows "ends (with_mut L (access L g)) s (Return (snd (g (data (peek L s)))))
    (poke L (\<lambda>_. spinlock_new (fst (g (data (peek L s))))) s)"
proof -
  have "set_locked L False (set_data L d (set_locked L True s)) = poke L (\<lambda>_. spinlock_new d) s" for d
    by (simp add: set_locked_def set_data_def poke_poke)
  moreover have "data (peek L (set_locked L True s)) = data (peek L s)"
    by (simp add: set_locked_def peek_poke)
  ultimately show ?thesis
    using ends_with_mut [OF assms ends_one, of "access L g"] by simp
qed

end

text \<open>The vector operations are such closures.\<close>

lemmas vec_access = push_def pop_def mem_take_def

end
