(* ===== verification/Spinlock_Machine.thy ===== *)
theory Spinlock_Machine
  imports Spinlock
begin

section \<open>Threads that share one spinlock\<close>

text \<open>
  The system the documentation of \<open>Spinlock\<close> describes: any number of threads, each calling
  \<open>with_mut\<close> any number of times with a closure that reads and then writes the data. Shown:
  the closures run one at a time and in the order each thread calls them (so no update is
  lost), and what happens to the lock when a closure panics.
\<close>

definition self :: "('d spinlock, 'd spinlock) place" where
  "self = Place (\<lambda>s. s) (\<lambda>f s. f s)"

lemma self_simps [simp]:
  "peek self s = s"
  "set_locked self b s = s\<lparr>locked := b\<rparr>"
  "set_data self d s = s\<lparr>data := d\<rparr>"
  by (simp_all add: self_def set_locked_def set_data_def)

text \<open>A closure such as \<open>|n| *n += 1\<close>: one read of the data and one write.\<close>

definition read_write :: "('s, 'd spinlock) place \<Rightarrow> ('d \<Rightarrow> 'd) \<Rightarrow> ('s, unit) prog" where
  "read_write L f = bind (access L (\<lambda>d. (d, d))) (\<lambda>v. access L (\<lambda>_. (f v, ())))"

fun spin_client :: "('d \<Rightarrow> 'd) list \<Rightarrow> ('d spinlock, unit) prog" where
  "spin_client [] = Return ()"
| "spin_client (f # fs) = seq (with_mut self (read_write self f)) (spin_client fs)"

lemma read_write_simps [simp]:
  "running (read_write L f)"
  "resume (read_write self f) s =
     Some (s, access self (\<lambda>_. (f (data s), ())))"
  by (simp_all add: read_write_def)

subsection \<open>Control points\<close>

text \<open>The list holds the closures still to run, the current one first.\<close>

datatype 'd spc =
    SpSwap "('d \<Rightarrow> 'd) list"
  | SpHint "('d \<Rightarrow> 'd)" "('d \<Rightarrow> 'd) list"
  | SpRead "('d \<Rightarrow> 'd)" "('d \<Rightarrow> 'd) list"
  | SpWrite 'd "('d \<Rightarrow> 'd)" "('d \<Rightarrow> 'd) list"
  | SpStore "('d \<Rightarrow> 'd) list"

fun spin_code :: "'d spc \<Rightarrow> ('d spinlock, unit) prog" where
  "spin_code (SpSwap fs) = spin_client fs"
| "spin_code (SpHint f fs) = seq (spin_hint self (read_write self f)) (spin_client fs)"
| "spin_code (SpRead f fs) = seq (section_of self (read_write self f)) (spin_client fs)"
| "spin_code (SpWrite v f fs) = seq (section_of self (access self (\<lambda>_. (f v, ())))) (spin_client fs)"
| "spin_code (SpStore fs) = seq (unlocking self ()) (spin_client fs)"

fun spin_pstep :: "'d spc \<Rightarrow> 'd spinlock \<Rightarrow> ('d spinlock \<times> 'd spc) option" where
  "spin_pstep (SpSwap []) s = None"
| "spin_pstep (SpSwap (f # fs)) s =
     Some (s\<lparr>locked := True\<rparr>, if locked s then SpHint f fs else SpRead f fs)"
| "spin_pstep (SpHint f fs) s = Some (s, SpSwap (f # fs))"
| "spin_pstep (SpRead f fs) s = Some (s, SpWrite (data s) f fs)"
| "spin_pstep (SpWrite v f fs) s = Some (s\<lparr>data := f v\<rparr>, SpStore fs)"
| "spin_pstep (SpStore fs) s = Some (s\<lparr>locked := False\<rparr>, SpSwap fs)"

lemma spin_code_step: "resume (spin_code pc) s = map_option (map_prod id spin_code) (spin_pstep pc s)"
  by (induction pc s rule: spin_pstep.induct) simp_all

fun in_section :: "'d spc \<Rightarrow> bool" where
  "in_section (SpRead f fs) = True"
| "in_section (SpWrite v f fs) = True"
| "in_section (SpStore fs) = True"
| "in_section _ = False"

fun spin_todo :: "'d spc \<Rightarrow> ('d \<Rightarrow> 'd) list" where
  "spin_todo (SpSwap fs) = fs"
| "spin_todo (SpHint f fs) = f # fs"
| "spin_todo (SpRead f fs) = f # fs"
| "spin_todo (SpWrite v f fs) = f # fs"
| "spin_todo (SpStore fs) = fs"

definition spin_inv :: "'d \<Rightarrow> (tid \<Rightarrow> ('d \<Rightarrow> 'd) list) \<Rightarrow> 'd spinlock \<Rightarrow> (tid \<Rightarrow> 'd spc) \<Rightarrow> bool" where
  "spin_inv v ops s pcs \<longleftrightarrow>
     excl (locked s) in_section pcs \<and>
     (\<forall>t w f fs. pcs t = SpWrite w f fs \<longrightarrow> w = data s) \<and>
     (\<exists>log. data s = apply_log log v \<and> (\<forall>t. by_thread t log @ spin_todo (pcs t) = ops t))"

lemma spin_excl:
  assumes "excl (locked s) in_section pcs" and "spin_pstep (pcs i) s = Some (s', pc')"
  shows "excl (locked s') in_section (pcs(i := pc'))"
proof (rule excl_step [OF assms(1)])
  show "flag_step (locked s) (locked s') in_section (pcs i) pc'"
    using assms(2)
    by (cases "(pcs i, s)" rule: spin_pstep.cases) (auto simp: flag_step_def split: if_splits)
qed

lemma spin_read_stable:
  assumes ex: "excl (locked s) in_section pcs"
    and rd: "\<forall>t w f fs. pcs t = SpWrite w f fs \<longrightarrow> w = data s"
    and st: "spin_pstep (pcs i) s = Some (s', pc')"
  shows "\<forall>t w f fs. (pcs(i := pc')) t = SpWrite w f fs \<longrightarrow> w = data s'"
proof (intro allI impI)
  fix t w f fs assume t: "(pcs(i := pc')) t = SpWrite w f fs"
  show "w = data s'"
  proof (cases "t = i")
    case True
    with t st show ?thesis by (cases "(pcs i, s)" rule: spin_pstep.cases) (auto split: if_splits)
  next
    case False
    with t have w: "pcs t = SpWrite w f fs" by simp
    then have "\<not> in_section (pcs i)" using exclD(2) [OF ex, of t i] False by auto
    then have "data s' = data s"
      using st by (cases "(pcs i, s)" rule: spin_pstep.cases) (auto split: if_splits)
    with rd w show ?thesis by auto
  qed
qed

lemma spin_log_step:
  assumes rd: "\<forall>t w f fs. pcs t = SpWrite w f fs \<longrightarrow> w = data s"
    and log: "data s = apply_log log v" "\<forall>t. by_thread t log @ spin_todo (pcs t) = ops t"
    and st: "spin_pstep (pcs i) s = Some (s', pc')"
  shows "\<exists>log. data s' = apply_log log v \<and>
    (\<forall>t. by_thread t log @ spin_todo ((pcs(i := pc')) t) = ops t)"
proof (cases "\<exists>w f fs. pcs i = SpWrite w f fs")
  case True
  then obtain w f fs where pc: "pcs i = SpWrite w f fs" by blast
  from rd pc have "w = data s" by blast
  with pc st have s': "data s' = f (data s)" "pc' = SpStore fs" by auto
  from log(2) pc have "by_thread i log @ f # fs = ops i" by (metis spin_todo.simps(4))
  with log s' show ?thesis
    by (intro exI [of _ "log @ [(i, f)]"]) auto
next
  case False
  with st have "data s' = data s \<and> spin_todo pc' = spin_todo (pcs i)"
    by (cases "(pcs i, s)" rule: spin_pstep.cases) (auto split: if_splits)
  with log show ?thesis by (intro exI [of _ log]) auto
qed

interpretation spin: pc_invariant "\<lambda>_. spin_code" "\<lambda>_. spin_pstep" "\<lambda>_ _. False" "spin_inv v ops" for v ops
proof unfold_locales
  show "resume (spin_code pc) s = map_option (map_prod id spin_code) (spin_pstep pc s)"
    for pc and s :: "'a spinlock"
    by (rule spin_code_step)
next
  show "spin_inv v ops s' (pcs(i := pc'))"
    if "spin_inv v ops s pcs" "spin_pstep (pcs i) s = Some (s', pc')" for s pcs i s' pc'
    using that spin_excl spin_read_stable spin_log_step unfolding spin_inv_def by metis
qed simp

lemma spin_inv_start: "spin_inv v ops (spinlock_new v) (\<lambda>t. SpSwap (ops t))"
  by (auto simp: spin_inv_def spinlock_new_def intro!: exI [of _ "[]"] excl_none)

lemma spin_client_done: "spin_code pc = Return () \<Longrightarrow> spin_todo pc = []"
  by (induction pc rule: spin_todo.induct)
    (metis running_bind running_simps(2) section_simps spin_code.simps spinlock_running read_write_simps(1)
      spin_todo.simps list.exhaust spin_client.simps(2))+

subsection \<open>Properties\<close>

definition spin_system :: "'d \<Rightarrow> (tid \<Rightarrow> ('d \<Rightarrow> 'd) list) \<Rightarrow> ('d spinlock, unit) config" where
  "spin_system v ops = (spinlock_new v, \<lambda>t. spin_client (ops t))"

abbreviation no_env :: "'s \<Rightarrow> 's \<Rightarrow> bool" where
  "no_env s s' \<equiv> False"

lemma spin_reach_inv:
  assumes "sys_reach no_env (spin_system v ops) (s, ps)"
  obtains pcs where "ps = (\<lambda>t. spin_code (pcs t))" and "spin_inv v ops s pcs"
proof -
  from assms have "sys_reach no_env (spinlock_new v, \<lambda>t. spin_code (SpSwap (ops t))) (s, ps)"
    by (simp add: spin_system_def)
  from this spin_inv_start that show ?thesis by (rule spin.reach_inv)
qed

lemma spin_code_blocked: "resume (spin_code pc) s = None \<Longrightarrow> pc = SpSwap []"
  by (cases "(pc, s)" rule: spin_pstep.cases) (auto simp: spin_code_step)


text \<open>C13: a closure that panics leaves the spinlock locked: \<open>with_mut\<close> has no drop guard, so the
  panic skips the release, and every later call of \<open>with_mut\<close> on that lock spins for ever.\<close>

theorem spinlock_not_released_on_panic:
  assumes "\<not> locked s" and "ends f (s\<lparr>locked := True\<rparr>) (Panic m) s1" and "locked s1"
  shows "ends (with_mut self f) s (Panic m) s1 \<and> \<not> ends (with_mut self g) s1 q s2"
proof
  show "ends (with_mut self f) s (Panic m) s1"
    by (rule ends_with_mut_Panic) (use assms in simp_all)
  have same: "s1\<lparr>locked := True\<rparr> = s1" using assms(3) by (cases s1) simp
  show "\<not> ends (with_mut self g) s1 q s2"
    by (rule with_mut_never_ends) (use assms(3) same in simp_all)
qed


lemma spinlock_not_released_on_panic_witness:
  "\<nexists>s2. ends (with_mut self (Return ())) \<lparr>data = (5::nat), locked = True\<rparr> (Return ()) s2"
proof -
  have "ends (Panic ''boom'' :: (nat spinlock, unit) prog) (\<lparr>data = 5, locked = False\<rparr>\<lparr>locked := True\<rparr>)
      (Panic ''boom'') \<lparr>data = 5, locked = True\<rparr>"
    by (simp add: ends_Panic)
  from spinlock_not_released_on_panic [OF _ this, of "Return () :: (nat spinlock, unit) prog" "Return ()"]
  show ?thesis by simp
qed

end
