(* ===== verification/Runtime.thy ===== *)
theory Runtime
  imports Programs
begin

section \<open>What the primitives use of the platform\<close>

text \<open>
  Park tokens and the clock are the standard library's (\<open>std::thread\<close>, \<open>std::time\<close>); the
  one-shot signals are the \<open>continue\<close> crate's, which is not part of the repository and is a
  parameter here. \<open>platform\<close> stands for the compile-time target and, on wasm32, the answer
  of \<open>atomics_wait_supported()\<close>.
\<close>

datatype platform = Native | Wasm32 bool

fun can_block :: "platform \<Rightarrow> bool" where
  "can_block Native = True"
| "can_block (Wasm32 atomics_wait) = atomics_wait"

text \<open>The \<open>_sync\<close> calls choose by target: block where the platform can, spin where it cannot.\<close>

definition by_platform :: "platform \<Rightarrow> 'p \<Rightarrow> 'p \<Rightarrow> 'p" where
  "by_platform P block spin = (case P of
       Native \<Rightarrow> block
     | Wasm32 atomics_wait_supported \<Rightarrow> if atomics_wait_supported then block else spin)"

lemma by_platform_if [simp]: "by_platform P block spin = (if can_block P then block else spin)"
  by (cases P) (simp_all add: by_platform_def)

text \<open>
  The part of the state every primitive shares: a park token for each thread, the clock, the
  state of the continuation objects, and the timer threads that were spawned and have not yet
  sent (the deadline each sleeps until and the continuation it then completes).
\<close>

type_synonym cid = nat          \<comment> \<open>names one continuation: a sender and its receiver\<close>

record 'k runtime =
  token :: "tid \<Rightarrow> bool"
  clock :: instant
  conts :: 'k
  timers :: "(instant \<times> cid) list"

text \<open>\<open>NotAvailable\<close> (\<open>src/mutex/not_available.rs\<close>): the error of a failed \<open>try_lock\<close>.\<close>

datatype not_available = NotAvailable

subsection \<open>Parking\<close>

text \<open>
  \<open>park\<close> blocks until the caller's token is there and takes it; where the platform cannot
  block it takes a token that is already there and panics otherwise (\<open>wasm/thread_api.rs\<close>,
  \<open>park\<close>: the JavaScript side tries the token first and only then \<open>Atomics.wait\<close>).
  Spurious returns, which \<open>std\<close> allows, are environment steps that set a token.
\<close>

definition park_blocked_msg :: string where
  "park_blocked_msg = ''Atomics.wait is not available in this context (likely main thread)''"

definition take_token :: "tid \<Rightarrow> ('k, 'z) runtime_scheme \<Rightarrow> ('k, 'z) runtime_scheme" where
  "take_token t s = s\<lparr>token := (token s)(t := False)\<rparr>"

definition set_token :: "tid \<Rightarrow> ('k, 'z) runtime_scheme \<Rightarrow> ('k, 'z) runtime_scheme" where
  "set_token t s = s\<lparr>token := (token s)(t := True)\<rparr>"

definition park :: "platform \<Rightarrow> tid \<Rightarrow> (('k, 'z) runtime_scheme, unit) prog" where
  "park P t = Act (\<lambda>s.
     if token s t then Some (take_token t s, Return ())
     else if can_block P then None
     else Some (s, Panic park_blocked_msg))"

definition now :: "(('k, 'z) runtime_scheme, instant) prog" where
  "now = atomic (\<lambda>s. (s, clock s))"

text \<open>\<open>park_timeout(dur)\<close>: reads the clock on entry, then waits for the token or the end.\<close>

definition park_until :: "platform \<Rightarrow> tid \<Rightarrow> instant \<Rightarrow> (('k, 'z) runtime_scheme, unit) prog" where
  "park_until P t w = Act (\<lambda>s.
     if token s t then Some (take_token t s, Return ())
     else if \<not> can_block P then Some (s, Panic park_blocked_msg)
     else if w \<le> clock s then Some (s, Return ())
     else None)"

definition park_timeout :: "platform \<Rightarrow> tid \<Rightarrow> nat \<Rightarrow> (('k, 'z) runtime_scheme, unit) prog" where
  "park_timeout P t dur = bind now (\<lambda>n. park_until P t (n + dur))"

definition unpark :: "tid \<Rightarrow> (('k, 'z) runtime_scheme, unit) prog" where
  "unpark t = atomic (\<lambda>s. (set_token t s, ()))"

lemma park_simps [simp]:
  "running (park P t)"
  "resume (park P t) s =
     (if token s t then Some (take_token t s, Return ())
      else if can_block P then None else Some (s, Panic park_blocked_msg))"
  by (simp_all add: park_def)

lemma now_simps [simp]: "running now" "resume now s = Some (s, Return (clock s))"
  by (simp_all add: now_def)

lemma park_until_simps [simp]:
  "running (park_until P t w)"
  "resume (park_until P t w) s =
     (if token s t then Some (take_token t s, Return ())
      else if \<not> can_block P then Some (s, Panic park_blocked_msg)
      else if w \<le> clock s then Some (s, Return ()) else None)"
  by (simp_all add: park_until_def)

lemma park_timeout_simps [simp]:
  "running (park_timeout P t dur)"
  "resume (park_timeout P t dur) s = Some (s, park_until P t (clock s + dur))"
  by (simp_all add: park_timeout_def)

lemma unpark_simps [simp]: "running (unpark t)" "resume (unpark t) s = Some (set_token t s, Return ())"
  by (simp_all add: unpark_def)

subsection \<open>Continuations of the \<open>continue\<close> crate\<close>

text \<open>
  \<open>continuation()\<close> makes a sender and a receiver, \<open>send(())\<close> completes it, and awaiting the
  receiver waits until it is complete. The three functions are parameters over a store of
  continuations.
\<close>

record 'k cont_ops =
  k_new :: "'k \<Rightarrow> cid \<times> 'k"
  k_send :: "cid \<Rightarrow> 'k \<Rightarrow> 'k"
  k_ready :: "cid \<Rightarrow> 'k \<Rightarrow> bool"

text \<open>The documented behaviour the primitives rely on: a sent continuation is ready, and
  stays so whatever else is created or sent.\<close>

definition cont_laws :: "'k cont_ops \<Rightarrow> bool" where
  "cont_laws K \<longleftrightarrow>
     (\<forall>c k. k_ready K c (k_send K c k)) \<and>
     (\<forall>c c' k. k_ready K c k \<longrightarrow> k_ready K c (k_send K c' k)) \<and>
     (\<forall>c k. k_ready K c k \<longrightarrow> k_ready K c (snd (k_new K k)))"

lemma cont_lawsD:
  assumes "cont_laws K"
  shows "k_ready K c (k_send K c k)"
    and "k_ready K c k \<Longrightarrow> k_ready K c (k_send K c' k)"
    and "k_ready K c k \<Longrightarrow> k_ready K c (snd (k_new K k))"
  using assms by (auto simp: cont_laws_def)

definition continuation :: "'k cont_ops \<Rightarrow> (('k, 'z) runtime_scheme, cid) prog" where
  "continuation K = atomic (\<lambda>s. (s\<lparr>conts := snd (k_new K (conts s))\<rparr>, fst (k_new K (conts s))))"

definition send_cont :: "'k cont_ops \<Rightarrow> cid \<Rightarrow> (('k, 'z) runtime_scheme, unit) prog" where
  "send_cont K c = atomic (\<lambda>s. (s\<lparr>conts := k_send K c (conts s)\<rparr>, ()))"

definition await_cont :: "'k cont_ops \<Rightarrow> cid \<Rightarrow> (('k, 'z) runtime_scheme, unit) prog" where
  "await_cont K c = await (\<lambda>s. k_ready K c (conts s)) (\<lambda>s. (s, ()))"

lemma cont_simps [simp]:
  "running (continuation K)" "running (send_cont K c)" "running (await_cont K c)"
  "resume (continuation K) s =
     Some (s\<lparr>conts := snd (k_new K (conts s))\<rparr>, Return (fst (k_new K (conts s))))"
  "resume (send_cont K c) s = Some (s\<lparr>conts := k_send K c (conts s)\<rparr>, Return ())"
  "resume (await_cont K c) s = (if k_ready K c (conts s) then Some (s, Return ()) else None)"
  by (simp_all add: continuation_def send_cont_def await_cont_def)

text \<open>Waking or completing everyone on a list, when nothing interferes.\<close>

lemma fold_set_token: "fold set_token ts s = s\<lparr>token := (\<lambda>t. token s t \<or> t \<in> set ts)\<rparr>"
  by (induction ts arbitrary: s) (auto simp: set_token_def intro!: arg_cong [of _ _ "\<lambda>f. s\<lparr>token := f\<rparr>" for s])

lemma ends_unpark_all:
  "ends (for_each ts unpark) s (Return ()) (s\<lparr>token := (\<lambda>t. token s t \<or> t \<in> set ts)\<rparr>)"
  using ends_for_each [of unpark set_token ts s] by (simp add: ends_one fold_set_token)

lemma fold_conts:
  "fold (\<lambda>c s. s\<lparr>conts := k_send K c (conts s)\<rparr>) cs s = s\<lparr>conts := fold (k_send K) cs (conts s)\<rparr>"
  by (induction cs arbitrary: s) auto

lemma ends_send_all:
  "ends (for_each cs (send_cont K)) s (Return ()) (s\<lparr>conts := fold (k_send K) cs (conts s)\<rparr>)"
  using ends_for_each [of "send_cont K" "\<lambda>c s. s\<lparr>conts := k_send K c (conts s)\<rparr>" cs s]
  by (simp add: ends_one fold_conts)

text \<open>What other threads of the process may do to the runtime at any time: let time pass, hand a
  thread a token (a spurious wakeup, or an \<open>unpark\<close> by code that holds the thread's handle),
  and, for a timer thread whose deadline has passed, send its signal.\<close>

inductive runtime_env ::
  "'k cont_ops \<Rightarrow> ('k, 'z) runtime_scheme \<Rightarrow> ('k, 'z) runtime_scheme \<Rightarrow> bool" for K where
  tick: "clock s \<le> n \<Longrightarrow> runtime_env K s (s\<lparr>clock := n\<rparr>)"
| stray_token: "runtime_env K s (set_token i s)"
| timer_fires: "(d, c) \<in> set (timers s) \<Longrightarrow> d \<le> clock s \<Longrightarrow>
    runtime_env K s (s\<lparr>timers := remove1 (d, c) (timers s), conts := k_send K c (conts s)\<rparr>)"

text \<open>
  The timer of the asynchronous timeouts: \<open>spawn(move || { sleep until deadline;
  timeout_sender.send(()) })\<close> adds a timer thread, and \<open>Race\<close> polls the notification first
  and then the timeout; its result says whether the timeout came first.
\<close>

definition spawn_timer :: "instant \<Rightarrow> cid \<Rightarrow> (('k, 'z) runtime_scheme, unit) prog" where
  "spawn_timer d c = atomic (\<lambda>s. (s\<lparr>timers := (d, c) # timers s\<rparr>, ()))"

definition race :: "'k cont_ops \<Rightarrow> cid \<Rightarrow> cid \<Rightarrow> (('k, 'z) runtime_scheme, bool) prog" where
  "race K notify timeout = Act (\<lambda>s.
     if k_ready K notify (conts s) then Some (s, Return False)
     else if k_ready K timeout (conts s) then Some (s, Return True)
     else None)"

lemma race_simps [simp]:
  "running (spawn_timer d c)" "running (race K c c')"
  "resume (spawn_timer d c) s = Some (s\<lparr>timers := (d, c) # timers s\<rparr>, Return ())"
  "resume (race K c c') s =
     (if k_ready K c (conts s) then Some (s, Return False)
      else if k_ready K c' (conts s) then Some (s, Return True) else None)"
  by (simp_all add: spawn_timer_def race_def)

text \<open>A store that satisfies the laws: a counter and the set of completed continuations.\<close>

definition set_conts :: "(nat \<times> nat set) cont_ops" where
  "set_conts = \<lparr>k_new = (\<lambda>(n, done). (n, (Suc n, done))),
                k_send = (\<lambda>c (n, done). (n, insert c done)),
                k_ready = (\<lambda>c (n, done). c \<in> done)\<rparr>"

lemma set_conts_laws: "cont_laws set_conts"
  by (auto simp: cont_laws_def set_conts_def split: prod.splits)

lemma set_conts_simps [simp]:
  "k_new set_conts (n, d) = (n, (Suc n, d))"
  "k_send set_conts c (n, d) = (n, insert c d)"
  "k_ready set_conts c (n, d) \<longleftrightarrow> c \<in> d"
  by (simp_all add: set_conts_def)

text \<open>A runtime at the start of a program, over that store.\<close>

definition fresh_runtime :: "(nat \<times> nat set) runtime" where
  "fresh_runtime = \<lparr>token = (\<lambda>_. False), clock = 0, conts = (0, {}), timers = []\<rparr>"

lemma fresh_runtime_simps [simp]:
  "token fresh_runtime = (\<lambda>_. False)" "clock fresh_runtime = 0"
  "conts fresh_runtime = (0, {})" "timers fresh_runtime = []"
  by (simp_all add: fresh_runtime_def)

end
