(* ===== verification/RwLock.thy ===== *)
theory RwLock
  imports Spinlock Runtime
begin

unbundle bit_operations_syntax

section \<open>\<open>RwLock\<close> (\<open>src/rwlock.rs\<close>, \<open>src/rwlock/*.rs\<close>, its guards in \<open>src/guard.rs\<close>)\<close>

text \<open>
  The lock word is one byte: \<open>UNLOCKED\<close>, \<open>LOCKED_WRITE\<close> (the top bit), or the number of readers.
  There are four waiting lists, one for each of reading and writing, blocking and asynchronous.
  The reading and the writing calls of the source have the same shape, so the loops are written
  once over the waiting list and the attempt (\<open>rw_spin\<close>, \<open>rw_block\<close>, \<open>rw_async\<close>), and each call
  of the source is their instance.
\<close>

record ('d, 'k) rwlock = "'k runtime" +
  rw_inner :: 'd
  rw_data_lock :: u8
  waiting_sync_read_threads :: "tid list spinlock"
  waiting_sync_write_threads :: "tid list spinlock"
  waiting_async_read_threads :: "cid list spinlock"
  waiting_async_write_threads :: "cid list spinlock"

definition UNLOCKED :: u8 where "UNLOCKED = 0"
definition LOCKED_WRITE :: u8 where "LOCKED_WRITE = 0b10000000"

definition rwlock_new :: "'k runtime \<Rightarrow> 'd \<Rightarrow> ('d, 'k) rwlock" where
  "rwlock_new r v = \<lparr>token = token r, clock = clock r, conts = conts r, timers = timers r,
     rw_inner = v, rw_data_lock = UNLOCKED,
     waiting_sync_read_threads = spinlock_new [], waiting_sync_write_threads = spinlock_new [],
     waiting_async_read_threads = spinlock_new [], waiting_async_write_threads = spinlock_new []\<rparr>"

definition rwlock_from :: "'k runtime \<Rightarrow> 'd \<Rightarrow> ('d, 'k) rwlock" where
  "rwlock_from r value = rwlock_new r value"

datatype mode = Reading | Writing

fun sync_list_of :: "mode \<Rightarrow> (('d, 'k, 'z) rwlock_scheme, tid list spinlock) place" where
  "sync_list_of Reading = Place waiting_sync_read_threads waiting_sync_read_threads_update"
| "sync_list_of Writing = Place waiting_sync_write_threads waiting_sync_write_threads_update"

fun async_list_of :: "mode \<Rightarrow> (('d, 'k, 'z) rwlock_scheme, cid list spinlock) place" where
  "async_list_of Reading = Place waiting_async_read_threads waiting_async_read_threads_update"
| "async_list_of Writing = Place waiting_async_write_threads waiting_async_write_threads_update"

declare sync_list_of.simps [simp del] async_list_of.simps [simp del]

datatype rw_guard = ReadGuard | WriteGuard

type_synonym ('d, 'k, 'z) rw_try = "(('d, 'k, 'z) rwlock_scheme, not_available + rw_guard) prog"

subsection \<open>Acquiring\<close>

text \<open>
  \<open>try_lock_read\<close>: \<open>fetch_update\<close> with a closure that fails on a writer, panics on the 128th
  reader, and otherwise counts one reader more. \<open>try_lock_write\<close>: a compare-exchange.
\<close>

definition too_many_readers_msg :: string where
  "too_many_readers_msg = ''Too many readers''"

definition try_lock_read :: "('d, 'k, 'z) rw_try" where
  "try_lock_read = Act (\<lambda>s.
     let f = rw_data_lock s in
     if f AND LOCKED_WRITE \<noteq> 0 then Some (s, Return (Inl NotAvailable))
     else if f = LOCKED_WRITE - 1 then Some (s, Panic too_many_readers_msg)
     else Some (s\<lparr>rw_data_lock := f + 1\<rparr>, Return (Inr ReadGuard)))"

definition try_lock_write :: "('d, 'k, 'z) rw_try" where
  "try_lock_write = atomic (\<lambda>s.
     if rw_data_lock s = UNLOCKED then (s\<lparr>rw_data_lock := LOCKED_WRITE\<rparr>, Inr WriteGuard)
     else (s, Inl NotAvailable))"

definition rw_spin_body ::
  "('d, 'k, 'z) rw_try \<Rightarrow> (('d, 'k, 'z) rwlock_scheme, rw_guard option) prog" where
  "rw_spin_body try_lock =
     bind try_lock (\<lambda>r. case r of Inr g \<Rightarrow> break g | Inl _ \<Rightarrow> continue)"

definition lock_spin_read :: "(('d, 'k, 'z) rwlock_scheme, rw_guard) prog" where
  "lock_spin_read = loop (rw_spin_body try_lock_read)"

definition lock_spin_write :: "(('d, 'k, 'z) rwlock_scheme, rw_guard) prog" where
  "lock_spin_write = loop (rw_spin_body try_lock_write)"

text \<open>Blocking: under the spinlock of the list, try and, on failure, join the list; then park.\<close>

definition rw_attempt_result ::
  "tid \<Rightarrow> (('d, 'k, 'z) rwlock_scheme, tid list spinlock) place \<Rightarrow> not_available + rw_guard \<Rightarrow>
   ('d, 'k, 'z) rw_try" where
  "rw_attempt_result t L r = (case r of
       Inr g \<Rightarrow> Return (Inr g)
     | Inl _ \<Rightarrow> seq (push L t) (Return (Inl NotAvailable)))"

definition rw_block_after ::
  "platform \<Rightarrow> tid \<Rightarrow> not_available + rw_guard \<Rightarrow> (('d, 'k, 'z) rwlock_scheme, rw_guard option) prog"
  where
  "rw_block_after P t r = (case r of Inr g \<Rightarrow> break g | Inl _ \<Rightarrow> seq (park P t) continue)"

definition rw_block_body ::
  "platform \<Rightarrow> tid \<Rightarrow> (('d, 'k, 'z) rwlock_scheme, tid list spinlock) place \<Rightarrow>
   ('d, 'k, 'z) rw_try \<Rightarrow> (('d, 'k, 'z) rwlock_scheme, rw_guard option) prog" where
  "rw_block_body P t L try_lock =
     bind (with_mut L (bind try_lock (rw_attempt_result t L))) (rw_block_after P t)"

definition lock_block_read :: "platform \<Rightarrow> tid \<Rightarrow> (('d, 'k, 'z) rwlock_scheme, rw_guard) prog" where
  "lock_block_read P t = loop (rw_block_body P t (sync_list_of Reading) try_lock_read)"

definition lock_block_write :: "platform \<Rightarrow> tid \<Rightarrow> (('d, 'k, 'z) rwlock_scheme, rw_guard) prog" where
  "lock_block_write P t = loop (rw_block_body P t (sync_list_of Writing) try_lock_write)"

text \<open>Asynchronous: the same with a new continuation.\<close>

definition rw_async_result ::
  "'k cont_ops \<Rightarrow> (('d, 'k, 'z) rwlock_scheme, cid list spinlock) place \<Rightarrow> not_available + rw_guard \<Rightarrow>
   (('d, 'k, 'z) rwlock_scheme, cid + rw_guard) prog" where
  "rw_async_result K L r = (case r of
       Inr g \<Rightarrow> Return (Inr g)
     | Inl _ \<Rightarrow> bind (continuation K) (\<lambda>c. seq (push L c) (Return (Inl c))))"

definition rw_async_after ::
  "'k cont_ops \<Rightarrow> cid + rw_guard \<Rightarrow> (('d, 'k, 'z) rwlock_scheme, rw_guard option) prog" where
  "rw_async_after K a = (case a of Inr g \<Rightarrow> break g | Inl c \<Rightarrow> seq (await_cont K c) continue)"

definition rw_async_body ::
  "'k cont_ops \<Rightarrow> (('d, 'k, 'z) rwlock_scheme, cid list spinlock) place \<Rightarrow>
   ('d, 'k, 'z) rw_try \<Rightarrow> (('d, 'k, 'z) rwlock_scheme, rw_guard option) prog" where
  "rw_async_body K L try_lock =
     bind (with_mut L (bind try_lock (rw_async_result K L))) (rw_async_after K)"

definition lock_async_read :: "'k cont_ops \<Rightarrow> (('d, 'k, 'z) rwlock_scheme, rw_guard) prog" where
  "lock_async_read K = loop (rw_async_body K (async_list_of Reading) try_lock_read)"

definition lock_async_write :: "'k cont_ops \<Rightarrow> (('d, 'k, 'z) rwlock_scheme, rw_guard) prog" where
  "lock_async_write K = loop (rw_async_body K (async_list_of Writing) try_lock_write)"

text \<open>\<open>lock_sync_*\<close>: block where the platform can, spin where it cannot.\<close>

definition lock_sync_read :: "platform \<Rightarrow> tid \<Rightarrow> (('d, 'k, 'z) rwlock_scheme, rw_guard) prog" where
  "lock_sync_read P t = by_platform P (lock_block_read P t) lock_spin_read"

definition lock_sync_write :: "platform \<Rightarrow> tid \<Rightarrow> (('d, 'k, 'z) rwlock_scheme, rw_guard) prog" where
  "lock_sync_write P t = by_platform P (lock_block_write P t) lock_spin_write"

subsection \<open>Releasing\<close>

text \<open>
  \<open>did_unlock_write\<close> empties and wakes the reading lists and then the writing lists;
  \<open>did_unlock_read\<close> only the writing lists.
\<close>

definition did_unlock_read :: "'k cont_ops \<Rightarrow> (('d, 'k, 'z) rwlock_scheme, unit) prog" where
  "did_unlock_read K =
     bind (with_mut (sync_list_of Writing) (mem_take (sync_list_of Writing))) (\<lambda>threads.
       seq (for_each threads unpark)
         (bind (with_mut (async_list_of Writing) (mem_take (async_list_of Writing))) (\<lambda>senders.
            for_each senders (send_cont K))))"

definition did_unlock_write :: "'k cont_ops \<Rightarrow> (('d, 'k, 'z) rwlock_scheme, unit) prog" where
  "did_unlock_write K =
     bind (with_mut (sync_list_of Reading) (mem_take (sync_list_of Reading))) (\<lambda>threads.
       seq (for_each threads unpark)
         (bind (with_mut (async_list_of Reading) (mem_take (async_list_of Reading))) (\<lambda>senders.
            seq (for_each senders (send_cont K))
              (bind (with_mut (sync_list_of Writing) (mem_take (sync_list_of Writing))) (\<lambda>threads.
                 seq (for_each threads unpark)
                   (bind (with_mut (async_list_of Writing) (mem_take (async_list_of Writing)))
                     (\<lambda>senders. for_each senders (send_cont K))))))))"

definition assert_prog :: "bool \<Rightarrow> string \<Rightarrow> ('s, unit) prog" where
  "assert_prog b m = (if b then Return () else Panic m)"

definition read_drop_msg :: string where "read_drop_msg = ''assertion failed: r > 0''"
definition write_drop_msg :: string where "write_drop_msg = ''assertion failed: old == LOCKED_WRITE''"

definition fetch_sub_one :: "(('d, 'k, 'z) rwlock_scheme, u8) prog" where
  "fetch_sub_one = atomic (\<lambda>s. (s\<lparr>rw_data_lock := rw_data_lock s - 1\<rparr>, rw_data_lock s))"

definition swap_unlocked :: "(('d, 'k, 'z) rwlock_scheme, u8) prog" where
  "swap_unlocked = atomic (\<lambda>s. (s\<lparr>rw_data_lock := UNLOCKED\<rparr>, rw_data_lock s))"

definition read_guard_drop :: "'k cont_ops \<Rightarrow> (('d, 'k, 'z) rwlock_scheme, unit) prog" where
  "read_guard_drop K =
     bind fetch_sub_one (\<lambda>r. seq (assert_prog (r > 0) read_drop_msg) (did_unlock_read K))"

definition write_guard_drop :: "'k cont_ops \<Rightarrow> (('d, 'k, 'z) rwlock_scheme, unit) prog" where
  "write_guard_drop K =
     bind swap_unlocked (\<lambda>old.
       seq (assert_prog (old = LOCKED_WRITE) write_drop_msg) (did_unlock_write K))"

subsection \<open>Using the data\<close>

definition read_guard_deref :: "(('d, 'k, 'z) rwlock_scheme, 'd) prog" where
  "read_guard_deref = atomic (\<lambda>s. (s, rw_inner s))"

definition write_guard_deref :: "(('d, 'k, 'z) rwlock_scheme, 'd) prog" where
  "write_guard_deref = atomic (\<lambda>s. (s, rw_inner s))"

definition write_guard_deref_mut :: "'d \<Rightarrow> (('d, 'k, 'z) rwlock_scheme, unit) prog" where
  "write_guard_deref_mut v = atomic (\<lambda>s. (s\<lparr>rw_inner := v\<rparr>, ()))"

definition read_guard_as_ref :: "(('d, 'k, 'z) rwlock_scheme, 'd) prog" where
  "read_guard_as_ref = read_guard_deref"

definition write_guard_as_ref :: "(('d, 'k, 'z) rwlock_scheme, 'd) prog" where
  "write_guard_as_ref = write_guard_deref"

definition write_guard_as_mut :: "'d \<Rightarrow> (('d, 'k, 'z) rwlock_scheme, unit) prog" where
  "write_guard_as_mut v = write_guard_deref_mut v"

definition read_guard_display :: "('d \<Rightarrow> string) \<Rightarrow> (('d, 'k, 'z) rwlock_scheme, string) prog" where
  "read_guard_display show_value = bind read_guard_deref (\<lambda>v. Return (show_value v))"

definition write_guard_display :: "('d \<Rightarrow> string) \<Rightarrow> (('d, 'k, 'z) rwlock_scheme, string) prog" where
  "write_guard_display show_value = bind write_guard_deref (\<lambda>v. Return (show_value v))"

text \<open>\<open>with_sync\<close>, \<open>with_async\<close>, \<open>with_mut_sync\<close>, \<open>with_mut_async\<close>: the guard is dropped when the
  closure returns and when it panics.\<close>

definition with_read_guard ::
  "'k cont_ops \<Rightarrow> ('d \<Rightarrow> 'r) \<Rightarrow> (('d, 'k, 'z) rwlock_scheme, 'r) prog" where
  "with_read_guard K f = bind read_guard_deref (\<lambda>v. seq (read_guard_drop K) (Return (f v)))"

definition with_write_guard ::
  "'k cont_ops \<Rightarrow> (('d, 'k, 'z) rwlock_scheme, 'r) prog \<Rightarrow> (('d, 'k, 'z) rwlock_scheme, 'r) prog" where
  "with_write_guard K f =
     bind (on_unwind f (write_guard_drop K)) (\<lambda>r. seq (write_guard_drop K) (Return r))"

definition rw_with_sync ::
  "'k cont_ops \<Rightarrow> platform \<Rightarrow> tid \<Rightarrow> ('d \<Rightarrow> 'r) \<Rightarrow> (('d, 'k, 'z) rwlock_scheme, 'r) prog" where
  "rw_with_sync K P t f = bind (lock_sync_read P t) (\<lambda>guard. with_read_guard K f)"

definition rw_with_async ::
  "'k cont_ops \<Rightarrow> ('d \<Rightarrow> 'r) \<Rightarrow> (('d, 'k, 'z) rwlock_scheme, 'r) prog" where
  "rw_with_async K f = bind (lock_async_read K) (\<lambda>guard. with_read_guard K f)"

definition rw_with_mut_sync ::
  "'k cont_ops \<Rightarrow> platform \<Rightarrow> tid \<Rightarrow> (('d, 'k, 'z) rwlock_scheme, 'r) prog \<Rightarrow>
   (('d, 'k, 'z) rwlock_scheme, 'r) prog" where
  "rw_with_mut_sync K P t f = bind (lock_sync_write P t) (\<lambda>guard. with_write_guard K f)"

definition rw_with_mut_async ::
  "'k cont_ops \<Rightarrow> (('d, 'k, 'z) rwlock_scheme, 'r) prog \<Rightarrow> (('d, 'k, 'z) rwlock_scheme, 'r) prog" where
  "rw_with_mut_async K f = bind (lock_async_write K) (\<lambda>guard. with_write_guard K f)"

text \<open>\<open>Display\<close> tries a read lock; the placeholder really says \<open>Mutex\<close>.\<close>

definition rwlock_fmt ::
  "'k cont_ops \<Rightarrow> ('d \<Rightarrow> string) \<Rightarrow> (('d, 'k, 'z) rwlock_scheme, string) prog" where
  "rwlock_fmt K shown =
     bind try_lock_read (\<lambda>r. case r of
         Inr g \<Rightarrow> with_read_guard K shown
       | Inl _ \<Rightarrow> Return ''Mutex { <locked> }'')"

end
