(* ===== verification/RwLock_Machine.thy ===== *)
theory RwLock_Machine
  imports RwLock
begin

section \<open>Threads that share one read-write lock\<close>

text \<open>
  Any number of threads and tasks, each running any list of operations: acquire the lock for
  reading or for writing by any of the crate's strategies; a reader reads the data twice and
  compares, a writer reads it and writes it; drop the guard. The control points of such a client,
  and the proof that they are the points of the program.
\<close>

datatype rw_acquisition = RwTry | RwSpin | RwBlock | RwAsync | RwSync

datatype 'd rw_op = RwOp mode rw_acquisition "'d \<Rightarrow> 'd"

fun try_of :: "mode \<Rightarrow> ('d, 'k, 'z) rw_try" where
  "try_of Reading = try_lock_read"
| "try_of Writing = try_lock_write"

fun spin_of :: "mode \<Rightarrow> (('d, 'k, 'z) rwlock_scheme, rw_guard) prog" where
  "spin_of Reading = lock_spin_read"
| "spin_of Writing = lock_spin_write"

fun block_of :: "mode \<Rightarrow> platform \<Rightarrow> tid \<Rightarrow> (('d, 'k, 'z) rwlock_scheme, rw_guard) prog" where
  "block_of Reading = lock_block_read"
| "block_of Writing = lock_block_write"

fun async_of :: "mode \<Rightarrow> 'k cont_ops \<Rightarrow> (('d, 'k, 'z) rwlock_scheme, rw_guard) prog" where
  "async_of Reading = lock_async_read"
| "async_of Writing = lock_async_write"

fun sync_of :: "mode \<Rightarrow> platform \<Rightarrow> tid \<Rightarrow> (('d, 'k, 'z) rwlock_scheme, rw_guard) prog" where
  "sync_of Reading = lock_sync_read"
| "sync_of Writing = lock_sync_write"

definition some_rw ::
  "(('d, 'k, 'z) rwlock_scheme, rw_guard) prog \<Rightarrow> (('d, 'k, 'z) rwlock_scheme, rw_guard option) prog"
  where "some_rw p = bind p (\<lambda>g. Return (Some g))"

definition tried :: "not_available + rw_guard \<Rightarrow> (('d, 'k, 'z) rwlock_scheme, rw_guard option) prog" where
  "tried r = (case r of Inr g \<Rightarrow> Return (Some g) | Inl _ \<Rightarrow> Return None)"

fun rw_acquire ::
  "'k cont_ops \<Rightarrow> platform \<Rightarrow> tid \<Rightarrow> mode \<Rightarrow> rw_acquisition \<Rightarrow>
   (('d, 'k, 'z) rwlock_scheme, rw_guard option) prog" where
  "rw_acquire K P t m RwTry = bind (try_of m) tried"
| "rw_acquire K P t m RwSpin = some_rw (spin_of m)"
| "rw_acquire K P t m RwBlock = some_rw (block_of m P t)"
| "rw_acquire K P t m RwAsync = some_rw (async_of m K)"
| "rw_acquire K P t m RwSync = some_rw (sync_of m P t)"

definition torn_read_msg :: string where "torn_read_msg = ''assertion failed: v == w''"

definition reading_section :: "'k cont_ops \<Rightarrow> (('d, 'k, 'z) rwlock_scheme, unit) prog" where
  "reading_section K = bind read_guard_deref (\<lambda>v. bind read_guard_deref (\<lambda>w.
     seq (assert_prog (v = w) torn_read_msg) (read_guard_drop K)))"

definition writing_section ::
  "'k cont_ops \<Rightarrow> ('d \<Rightarrow> 'd) \<Rightarrow> (('d, 'k, 'z) rwlock_scheme, unit) prog" where
  "writing_section K f = bind write_guard_deref (\<lambda>v.
     seq (write_guard_deref_mut (f v)) (write_guard_drop K))"

definition rw_critical ::
  "'k cont_ops \<Rightarrow> mode \<Rightarrow> ('d \<Rightarrow> 'd) \<Rightarrow> rw_guard option \<Rightarrow> (('d, 'k, 'z) rwlock_scheme, unit) prog" where
  "rw_critical K m f g = (case g of
       None \<Rightarrow> Return ()
     | Some _ \<Rightarrow> (case m of Reading \<Rightarrow> reading_section K | Writing \<Rightarrow> writing_section K f))"

fun rw_client ::
  "'k cont_ops \<Rightarrow> platform \<Rightarrow> tid \<Rightarrow> 'd rw_op list \<Rightarrow> (('d, 'k, 'z) rwlock_scheme, unit) prog" where
  "rw_client K P t [] = Return ()"
| "rw_client K P t (RwOp m a f # ops) =
     seq skip (seq (bind (rw_acquire K P t m a) (rw_critical K m f)) (rw_client K P t ops))"

subsection \<open>Control points\<close>

datatype rspoint = RsTry | RsSpin | RsHint
datatype rbpoint = RbSwap | RbHint | RbTry | RbPush | RbGot | RbFail | RbPark | RbBack
datatype rapoint =
    RaSwap | RaHint | RaTry | RaNew | RaPush cid | RaGot | RaFail cid | RaAwait cid | RaBack
datatype 'd rdpoint = RdFirst | RdSecond 'd | RdDrop | WrRead | WrWrite 'd | WrDrop
datatype wkpoint =
    WkSwap | WkHint | WkTake | WkRel "tid list" | WkUnpark tid "tid list"
  | WkASwap | WkAHint | WkATake | WkARel "cid list" | WkSend cid "cid list"

text \<open>Where a thread can be after a panic; the second and third hold a list's spinlock.\<close>

datatype rxpoint = ParkStop | CrowdSync | CrowdAsync | CrowdStop | Broken string

datatype 'd rwpoint =
  RS rspoint | RB rbpoint | RA rapoint | RD "'d rdpoint" | RW mode wkpoint | RX rxpoint

datatype 'd rwthread = RwIdle "'d rw_op list" | RwAt mode "'d \<Rightarrow> 'd" "'d rwpoint" "'d rw_op list"

fun rw_start :: "platform \<Rightarrow> rw_acquisition \<Rightarrow> 'd rwpoint" where
  "rw_start P RwTry = RS RsTry"
| "rw_start P RwSpin = RS RsSpin"
| "rw_start P RwBlock = RB RbSwap"
| "rw_start P RwAsync = RA RaSwap"
| "rw_start P RwSync = (if can_block P then RB RbSwap else RS RsSpin)"

subsection \<open>The rest of the program at each point\<close>

fun rs_code :: "mode \<Rightarrow> rspoint \<Rightarrow> (('d, 'k, 'z) rwlock_scheme, rw_guard option) prog" where
  "rs_code m RsTry = bind (try_of m) tried"
| "rs_code m RsSpin = some_rw (spin_of m)"
| "rs_code m RsHint = some_rw (loop_from (rw_spin_body (try_of m)) continue)"

abbreviation rw_block_loop ::
  "platform \<Rightarrow> tid \<Rightarrow> mode \<Rightarrow> (('d, 'k, 'z) rwlock_scheme, rw_guard option) prog \<Rightarrow>
   (('d, 'k, 'z) rwlock_scheme, rw_guard option) prog" where
  "rw_block_loop P t m p \<equiv> some_rw (loop_from (rw_block_body P t (sync_list_of m) (try_of m)) p)"

abbreviation "rw_push_fail t m \<equiv> seq (push (sync_list_of m) t) (Return (Inl NotAvailable))"
abbreviation "rw_push_wait m c \<equiv> seq (push (async_list_of m) c) (Return (Inl c))"

definition rw_block_attempt :: "tid \<Rightarrow> mode \<Rightarrow> ('d, 'k, 'z) rw_try" where
  "rw_block_attempt t m = bind (try_of m) (rw_attempt_result t (sync_list_of m))"

definition rw_async_attempt ::
  "'k cont_ops \<Rightarrow> mode \<Rightarrow> (('d, 'k, 'z) rwlock_scheme, cid + rw_guard) prog" where
  "rw_async_attempt K m = bind (try_of m) (rw_async_result K (async_list_of m))"

fun rb_code ::
  "platform \<Rightarrow> tid \<Rightarrow> mode \<Rightarrow> rbpoint \<Rightarrow> (('d, 'k, 'z) rwlock_scheme, rw_guard option) prog" where
  "rb_code P t m RbSwap = some_rw (block_of m P t)"
| "rb_code P t m RbHint = rw_block_loop P t m
     (bind (spin_hint (sync_list_of m) (rw_block_attempt t m)) (rw_block_after P t))"
| "rb_code P t m RbTry = rw_block_loop P t m
     (bind (section_of (sync_list_of m) (rw_block_attempt t m)) (rw_block_after P t))"
| "rb_code P t m RbPush = rw_block_loop P t m
     (bind (section_of (sync_list_of m) (rw_push_fail t m)) (rw_block_after P t))"
| "rb_code P t m RbGot = rw_block_loop P t m
     (bind (unlocking (sync_list_of m) (Inr (case m of Reading \<Rightarrow> ReadGuard | Writing \<Rightarrow> WriteGuard)))
       (rw_block_after P t))"
| "rb_code P t m RbFail = rw_block_loop P t m
     (bind (unlocking (sync_list_of m) (Inl NotAvailable)) (rw_block_after P t))"
| "rb_code P t m RbPark = rw_block_loop P t m (seq (park P t) continue)"
| "rb_code P t m RbBack = rw_block_loop P t m continue"

abbreviation rw_async_loop ::
  "'k cont_ops \<Rightarrow> mode \<Rightarrow> (('d, 'k, 'z) rwlock_scheme, rw_guard option) prog \<Rightarrow>
   (('d, 'k, 'z) rwlock_scheme, rw_guard option) prog" where
  "rw_async_loop K m p \<equiv> some_rw (loop_from (rw_async_body K (async_list_of m) (try_of m)) p)"

fun ra_code ::
  "'k cont_ops \<Rightarrow> mode \<Rightarrow> rapoint \<Rightarrow> (('d, 'k, 'z) rwlock_scheme, rw_guard option) prog" where
  "ra_code K m RaSwap = some_rw (async_of m K)"
| "ra_code K m RaHint = rw_async_loop K m
     (bind (spin_hint (async_list_of m) (rw_async_attempt K m)) (rw_async_after K))"
| "ra_code K m RaTry = rw_async_loop K m
     (bind (section_of (async_list_of m) (rw_async_attempt K m)) (rw_async_after K))"
| "ra_code K m RaNew = rw_async_loop K m
     (bind (section_of (async_list_of m) (bind (continuation K) (\<lambda>c. rw_push_wait m c)))
       (rw_async_after K))"
| "ra_code K m (RaPush c) = rw_async_loop K m
     (bind (section_of (async_list_of m) (rw_push_wait m c)) (rw_async_after K))"
| "ra_code K m RaGot = rw_async_loop K m
     (bind (unlocking (async_list_of m) (Inr (case m of Reading \<Rightarrow> ReadGuard | Writing \<Rightarrow> WriteGuard)))
       (rw_async_after K))"
| "ra_code K m (RaFail c) = rw_async_loop K m
     (bind (unlocking (async_list_of m) (Inl c)) (rw_async_after K))"
| "ra_code K m (RaAwait c) = rw_async_loop K m (seq (await_cont K c) continue)"
| "ra_code K m RaBack = rw_async_loop K m continue"

text \<open>Waking the two lists of one mode, then whatever follows.\<close>

definition rw_wake_async :: "'k cont_ops \<Rightarrow> mode \<Rightarrow> (('d, 'k, 'z) rwlock_scheme, unit) prog" where
  "rw_wake_async K m = bind (with_mut (async_list_of m) (mem_take (async_list_of m))) (\<lambda>senders.
     seq (for_each senders (send_cont K))
       (case m of Reading \<Rightarrow> did_unlock_read K | Writing \<Rightarrow> Return ()))"

definition rw_then ::
  "'k cont_ops \<Rightarrow> mode \<Rightarrow> (('d, 'k, 'z) rwlock_scheme, unit) prog" where
  "rw_then K m = (case m of Reading \<Rightarrow> did_unlock_read K | Writing \<Rightarrow> Return ())"

definition rw_wake :: "'k cont_ops \<Rightarrow> mode \<Rightarrow> (('d, 'k, 'z) rwlock_scheme, unit) prog" where
  "rw_wake K m = (case m of Reading \<Rightarrow> did_unlock_write K | Writing \<Rightarrow> did_unlock_read K)"

definition rw_unparks ::
  "'k cont_ops \<Rightarrow> mode \<Rightarrow> tid list \<Rightarrow> (('d, 'k, 'z) rwlock_scheme, unit) prog" where
  "rw_unparks K m threads = seq (for_each threads unpark) (rw_wake_async K m)"

definition rw_sends ::
  "'k cont_ops \<Rightarrow> mode \<Rightarrow> cid list \<Rightarrow> (('d, 'k, 'z) rwlock_scheme, unit) prog" where
  "rw_sends K m senders = seq (for_each senders (send_cont K)) (rw_then K m)"

fun wk_code :: "'k cont_ops \<Rightarrow> mode \<Rightarrow> wkpoint \<Rightarrow> (('d, 'k, 'z) rwlock_scheme, unit) prog" where
  "wk_code K m WkSwap = rw_wake K m"
| "wk_code K m WkHint = bind (spin_hint (sync_list_of m) (mem_take (sync_list_of m))) (rw_unparks K m)"
| "wk_code K m WkTake = bind (section_of (sync_list_of m) (mem_take (sync_list_of m))) (rw_unparks K m)"
| "wk_code K m (WkRel ts) = bind (unlocking (sync_list_of m) ts) (rw_unparks K m)"
| "wk_code K m (WkUnpark u ts) = rw_unparks K m (u # ts)"
| "wk_code K m WkASwap = rw_wake_async K m"
| "wk_code K m WkAHint = bind (spin_hint (async_list_of m) (mem_take (async_list_of m))) (rw_sends K m)"
| "wk_code K m WkATake = bind (section_of (async_list_of m) (mem_take (async_list_of m))) (rw_sends K m)"
| "wk_code K m (WkARel cs) = bind (unlocking (async_list_of m) cs) (rw_sends K m)"
| "wk_code K m (WkSend c cs) = rw_sends K m (c # cs)"

fun rd_code :: "'k cont_ops \<Rightarrow> ('d \<Rightarrow> 'd) \<Rightarrow> 'd rdpoint \<Rightarrow> (('d, 'k, 'z) rwlock_scheme, unit) prog" where
  "rd_code K f RdFirst = reading_section K"
| "rd_code K f (RdSecond v) = bind read_guard_deref (\<lambda>w.
     seq (assert_prog (v = w) torn_read_msg) (read_guard_drop K))"
| "rd_code K f RdDrop = read_guard_drop K"
| "rd_code K f WrRead = writing_section K f"
| "rd_code K f (WrWrite v) = seq (write_guard_deref_mut (f v)) (write_guard_drop K)"
| "rd_code K f WrDrop = write_guard_drop K"

fun rx_msg :: "rxpoint \<Rightarrow> string" where
  "rx_msg ParkStop = park_blocked_msg"
| "rx_msg (Broken m) = m"
| "rx_msg _ = too_many_readers_msg"

fun rw_point_code ::
  "'k cont_ops \<Rightarrow> platform \<Rightarrow> tid \<Rightarrow> mode \<Rightarrow> ('d \<Rightarrow> 'd) \<Rightarrow> 'd rwpoint \<Rightarrow>
   (('d, 'k, 'z) rwlock_scheme, unit) prog" where
  "rw_point_code K P t m f (RS p) = bind (rs_code m p) (rw_critical K m f)"
| "rw_point_code K P t m f (RB p) = bind (rb_code P t m p) (rw_critical K m f)"
| "rw_point_code K P t m f (RA p) = bind (ra_code K m p) (rw_critical K m f)"
| "rw_point_code K P t m f (RD p) = rd_code K f p"
| "rw_point_code K P t m f (RW l p) = wk_code K l p"
| "rw_point_code K P t m f (RX p) = Panic (rx_msg p)"

fun rw_code ::
  "'k cont_ops \<Rightarrow> platform \<Rightarrow> tid \<Rightarrow> 'd rwthread \<Rightarrow> (('d, 'k, 'z) rwlock_scheme, unit) prog" where
  "rw_code K P t (RwIdle ops) = rw_client K P t ops"
| "rw_code K P t (RwAt m f p ops) = seq (rw_point_code K P t m f p) (rw_client K P t ops)"

subsection \<open>The access made from each point\<close>

text \<open>An attempt from a point: where it leads when the lock is taken, when there are too many
  readers, and when it succeeds.\<close>

definition try_step ::
  "mode \<Rightarrow> ('d, 'k, 'z) rwlock_scheme \<Rightarrow> 'p \<Rightarrow> 'p \<Rightarrow> 'p \<Rightarrow> ('d, 'k, 'z) rwlock_scheme \<times> 'p" where
  "try_step m s fail crowd got = (case m of
       Reading \<Rightarrow>
         if rw_data_lock s AND LOCKED_WRITE \<noteq> 0 then (s, fail)
         else if rw_data_lock s = LOCKED_WRITE - 1 then (s, crowd)
         else (s\<lparr>rw_data_lock := rw_data_lock s + 1\<rparr>, got)
     | Writing \<Rightarrow>
         if rw_data_lock s = UNLOCKED then (s\<lparr>rw_data_lock := LOCKED_WRITE\<rparr>, got) else (s, fail))"

abbreviation section_point :: "mode \<Rightarrow> 'd rwpoint" where
  "section_point m \<equiv> RD (case m of Reading \<Rightarrow> RdFirst | Writing \<Rightarrow> WrRead)"

fun rs_step :: "mode \<Rightarrow> rspoint \<Rightarrow> ('d, 'k, 'z) rwlock_scheme \<Rightarrow>
    (('d, 'k, 'z) rwlock_scheme \<times> 'd rwpoint option) option" where
  "rs_step m RsTry s = Some (try_step m s None (Some (RX CrowdStop)) (Some (section_point m)))"
| "rs_step m RsSpin s =
     Some (try_step m s (Some (RS RsHint)) (Some (RX CrowdStop)) (Some (section_point m)))"
| "rs_step m RsHint s = Some (s, Some (RS RsSpin))"

fun rb_step :: "platform \<Rightarrow> tid \<Rightarrow> mode \<Rightarrow> rbpoint \<Rightarrow> ('d, 'k, 'z) rwlock_scheme \<Rightarrow>
    (('d, 'k, 'z) rwlock_scheme \<times> 'd rwpoint) option" where
  "rb_step P t m RbSwap s = Some (set_locked (sync_list_of m) True s,
     RB (if locked (peek (sync_list_of m) s) then RbHint else RbTry))"
| "rb_step P t m RbHint s = Some (s, RB RbSwap)"
| "rb_step P t m RbTry s = Some (try_step m s (RB RbPush) (RX CrowdSync) (RB RbGot))"
| "rb_step P t m RbPush s = Some
     (set_data (sync_list_of m) (data (peek (sync_list_of m) s) @ [t]) s, RB RbFail)"
| "rb_step P t m RbGot s = Some (set_locked (sync_list_of m) False s, section_point m)"
| "rb_step P t m RbFail s = Some (set_locked (sync_list_of m) False s, RB RbPark)"
| "rb_step P t m RbPark s =
     (if token s t then Some (take_token t s, RB RbBack)
      else if can_block P then None else Some (s, RX ParkStop))"
| "rb_step P t m RbBack s = Some (s, RB RbSwap)"

fun ra_step :: "'k cont_ops \<Rightarrow> mode \<Rightarrow> rapoint \<Rightarrow> ('d, 'k, 'z) rwlock_scheme \<Rightarrow>
    (('d, 'k, 'z) rwlock_scheme \<times> 'd rwpoint) option" where
  "ra_step K m RaSwap s = Some (set_locked (async_list_of m) True s,
     RA (if locked (peek (async_list_of m) s) then RaHint else RaTry))"
| "ra_step K m RaHint s = Some (s, RA RaSwap)"
| "ra_step K m RaTry s = Some (try_step m s (RA RaNew) (RX CrowdAsync) (RA RaGot))"
| "ra_step K m RaNew s = Some
     (s\<lparr>conts := snd (k_new K (conts s))\<rparr>, RA (RaPush (fst (k_new K (conts s)))))"
| "ra_step K m (RaPush c) s = Some
     (set_data (async_list_of m) (data (peek (async_list_of m) s) @ [c]) s, RA (RaFail c))"
| "ra_step K m RaGot s = Some (set_locked (async_list_of m) False s, section_point m)"
| "ra_step K m (RaFail c) s = Some (set_locked (async_list_of m) False s, RA (RaAwait c))"
| "ra_step K m (RaAwait c) s = (if k_ready K c (conts s) then Some (s, RA RaBack) else None)"
| "ra_step K m RaBack s = Some (s, RA RaSwap)"

fun rd_step :: "('d \<Rightarrow> 'd) \<Rightarrow> 'd rdpoint \<Rightarrow> ('d, 'k, 'z) rwlock_scheme \<Rightarrow>
    (('d, 'k, 'z) rwlock_scheme \<times> 'd rwpoint) option" where
  "rd_step f RdFirst s = Some (s, RD (RdSecond (rw_inner s)))"
| "rd_step f (RdSecond v) s =
     Some (s, if v = rw_inner s then RD RdDrop else RX (Broken torn_read_msg))"
| "rd_step f RdDrop s = Some (s\<lparr>rw_data_lock := rw_data_lock s - 1\<rparr>,
     if rw_data_lock s > 0 then RW Writing WkSwap else RX (Broken read_drop_msg))"
| "rd_step f WrRead s = Some (s, RD (WrWrite (rw_inner s)))"
| "rd_step f (WrWrite v) s = Some (s\<lparr>rw_inner := f v\<rparr>, RD WrDrop)"
| "rd_step f WrDrop s = Some (s\<lparr>rw_data_lock := UNLOCKED\<rparr>,
     if rw_data_lock s = LOCKED_WRITE then RW Reading WkSwap else RX (Broken write_drop_msg))"

definition unpark_point :: "mode \<Rightarrow> tid list \<Rightarrow> 'd rwpoint option" where
  "unpark_point m ts = Some (RW m (case ts of [] \<Rightarrow> WkASwap | u # us \<Rightarrow> WkUnpark u us))"

definition sends_point :: "mode \<Rightarrow> cid list \<Rightarrow> 'd rwpoint option" where
  "sends_point m cs = (case cs of
       [] \<Rightarrow> (case m of Reading \<Rightarrow> Some (RW Writing WkSwap) | Writing \<Rightarrow> None)
     | c # cs \<Rightarrow> Some (RW m (WkSend c cs)))"

fun wk_step :: "'k cont_ops \<Rightarrow> mode \<Rightarrow> wkpoint \<Rightarrow> ('d, 'k, 'z) rwlock_scheme \<Rightarrow>
    (('d, 'k, 'z) rwlock_scheme \<times> 'd rwpoint option) option" where
  "wk_step K m WkSwap s = Some (set_locked (sync_list_of m) True s,
     Some (RW m (if locked (peek (sync_list_of m) s) then WkHint else WkTake)))"
| "wk_step K m WkHint s = Some (s, Some (RW m WkSwap))"
| "wk_step K m WkTake s = Some (set_data (sync_list_of m) [] s,
     Some (RW m (WkRel (data (peek (sync_list_of m) s)))))"
| "wk_step K m (WkRel ts) s = Some (set_locked (sync_list_of m) False s, unpark_point m ts)"
| "wk_step K m (WkUnpark u ts) s = Some (set_token u s, unpark_point m ts)"
| "wk_step K m WkASwap s = Some (set_locked (async_list_of m) True s,
     Some (RW m (if locked (peek (async_list_of m) s) then WkAHint else WkATake)))"
| "wk_step K m WkAHint s = Some (s, Some (RW m WkASwap))"
| "wk_step K m WkATake s = Some (set_data (async_list_of m) [] s,
     Some (RW m (WkARel (data (peek (async_list_of m) s)))))"
| "wk_step K m (WkARel cs) s = Some (set_locked (async_list_of m) False s, sends_point m cs)"
| "wk_step K m (WkSend c cs) s = Some (s\<lparr>conts := k_send K c (conts s)\<rparr>, sends_point m cs)"

fun rw_point_step ::
  "'k cont_ops \<Rightarrow> platform \<Rightarrow> tid \<Rightarrow> mode \<Rightarrow> ('d \<Rightarrow> 'd) \<Rightarrow> 'd rwpoint \<Rightarrow> ('d, 'k, 'z) rwlock_scheme \<Rightarrow>
   (('d, 'k, 'z) rwlock_scheme \<times> 'd rwpoint option) option" where
  "rw_point_step K P t m f (RS p) s = rs_step m p s"
| "rw_point_step K P t m f (RB p) s = map_option (map_prod id Some) (rb_step P t m p s)"
| "rw_point_step K P t m f (RA p) s = map_option (map_prod id Some) (ra_step K m p s)"
| "rw_point_step K P t m f (RD p) s = map_option (map_prod id Some) (rd_step f p s)"
| "rw_point_step K P t m f (RW l p) s = wk_step K l p s"
| "rw_point_step K P t m f (RX p) s = None"

definition rw_next :: "mode \<Rightarrow> ('d \<Rightarrow> 'd) \<Rightarrow> 'd rw_op list \<Rightarrow> 'd rwpoint option \<Rightarrow> 'd rwthread" where
  "rw_next m f ops p = (case p of None \<Rightarrow> RwIdle ops | Some p \<Rightarrow> RwAt m f p ops)"

fun rw_pstep ::
  "'k cont_ops \<Rightarrow> platform \<Rightarrow> tid \<Rightarrow> 'd rwthread \<Rightarrow> ('d, 'k, 'z) rwlock_scheme \<Rightarrow>
   (('d, 'k, 'z) rwlock_scheme \<times> 'd rwthread) option" where
  "rw_pstep K P t (RwIdle []) s = None"
| "rw_pstep K P t (RwIdle (RwOp m a f # ops)) s = Some (s, RwAt m f (rw_start P a) ops)"
| "rw_pstep K P t (RwAt m f p ops) s =
     map_option (map_prod id (rw_next m f ops)) (rw_point_step K P t m f p s)"

subsection \<open>The points are the points of the program\<close>

lemma rw_running [simp]:
  "running (try_of m)" "running (rw_block_attempt t m)" "running (rw_async_attempt K m)"
  "running (rw_spin_body (try_of m))" "running (spin_of m)" "running (block_of m P t)"
  "running (async_of m K)" "running (did_unlock_read K)" "running (did_unlock_write K)"
  "running fetch_sub_one" "running swap_unlocked" "running (read_guard_drop K)"
  "running (write_guard_drop K)" "running read_guard_deref" "running write_guard_deref"
  "running (write_guard_deref_mut v)" "running (reading_section K)" "running (writing_section K f)"
  "running (rw_wake_async K m)" "running (rw_wake K m)"
  by (cases m; simp add: try_lock_read_def try_lock_write_def rw_block_attempt_def
      rw_async_attempt_def rw_spin_body_def lock_spin_read_def lock_spin_write_def
      lock_block_read_def lock_block_write_def rw_block_body_def lock_async_read_def
      lock_async_write_def rw_async_body_def did_unlock_read_def did_unlock_write_def
      fetch_sub_one_def swap_unlocked_def read_guard_drop_def write_guard_drop_def
      read_guard_deref_def write_guard_deref_def write_guard_deref_mut_def reading_section_def
      writing_section_def rw_wake_async_def rw_wake_def)+

lemma rw_simple_steps [simp]:
  "resume fetch_sub_one s = Some (s\<lparr>rw_data_lock := rw_data_lock s - 1\<rparr>, Return (rw_data_lock s))"
  "resume swap_unlocked s = Some (s\<lparr>rw_data_lock := UNLOCKED\<rparr>, Return (rw_data_lock s))"
  "resume read_guard_deref s = Some (s, Return (rw_inner s))"
  "resume write_guard_deref s = Some (s, Return (rw_inner s))"
  "resume (write_guard_deref_mut v) s = Some (s\<lparr>rw_inner := v\<rparr>, Return ())"
  "assert_prog True msg = Return ()" "assert_prog False msg = Panic msg"
  by (simp_all add: fetch_sub_one_def swap_unlocked_def read_guard_deref_def write_guard_deref_def
      write_guard_deref_mut_def assert_prog_def)

definition guard_of :: "mode \<Rightarrow> rw_guard" where
  "guard_of m = (case m of Reading \<Rightarrow> ReadGuard | Writing \<Rightarrow> WriteGuard)"

lemma try_of_step [simp]:
  "resume (try_of m) s = Some (try_step m s
     (Return (Inl NotAvailable)) (Panic too_many_readers_msg) (Return (Inr (guard_of m))))"
  by (cases m) (simp_all add: try_lock_read_def try_lock_write_def try_step_def guard_of_def Let_def)

lemma try_step_map:
  "map_prod id h (try_step m s a b c) = try_step m s (h a) (h b) (h c)"
  by (cases m) (auto simp: try_step_def)

lemma rw_loops [simp]:
  "loop (rw_spin_body (try_of m)) = spin_of m"
  "loop (rw_block_body P t (sync_list_of m) (try_of m)) = block_of m P t"
  "loop (rw_async_body K (async_list_of m) (try_of m)) = async_of m K"
  by (cases m; simp add: lock_spin_read_def lock_spin_write_def lock_block_read_def
      lock_block_write_def lock_async_read_def lock_async_write_def)+

lemma rw_loop_steps [simp]:
  "resume (spin_of m) s = Some (try_step m s
     (loop_from (rw_spin_body (try_of m)) continue) (Panic too_many_readers_msg) (Return (guard_of m)))"
  "resume (block_of m P t) s = Some (set_locked (sync_list_of m) True s,
     loop_from (rw_block_body P t (sync_list_of m) (try_of m))
       (bind (if locked (peek (sync_list_of m) s) then spin_hint (sync_list_of m) (rw_block_attempt t m)
              else section_of (sync_list_of m) (rw_block_attempt t m)) (rw_block_after P t)))"
  "resume (async_of m K) s = Some (set_locked (async_list_of m) True s,
     loop_from (rw_async_body K (async_list_of m) (try_of m))
       (bind (if locked (peek (async_list_of m) s) then spin_hint (async_list_of m) (rw_async_attempt K m)
              else section_of (async_list_of m) (rw_async_attempt K m)) (rw_async_after K)))"
  by (simp_all add: rw_loops [symmetric] rw_spin_body_def rw_block_body_def rw_async_body_def
      rw_block_attempt_def rw_async_attempt_def try_step_map del: rw_loops)

lemma rw_attempt_steps [simp]:
  "resume (rw_block_attempt t m) s =
     Some (try_step m s (rw_push_fail t m) (Panic too_many_readers_msg) (Return (Inr (guard_of m))))"
  "resume (rw_async_attempt K m) s =
     Some (try_step m s (bind (continuation K) (\<lambda>c. rw_push_wait m c)) (Panic too_many_readers_msg)
       (Return (Inr (guard_of m))))"
  by (simp_all add: rw_block_attempt_def rw_async_attempt_def rw_attempt_result_def rw_async_result_def
      try_step_map)

lemma rw_again [simp]:
  "bind (with_mut (sync_list_of m) (rw_block_attempt t m)) (rw_block_after P t) =
     rw_block_body P t (sync_list_of m) (try_of m)"
  "bind (with_mut (async_list_of m) (rw_async_attempt K m)) (rw_async_after K) =
     rw_async_body K (async_list_of m) (try_of m)"
  by (simp_all add: rw_block_body_def rw_async_body_def rw_block_attempt_def rw_async_attempt_def)

lemma rw_after_simps [simp]:
  "rw_block_after P t (Inr g) = break g"
  "rw_block_after P t (Inl e) = seq (park P t) continue"
  "rw_async_after K (Inr g) = break g"
  "rw_async_after K (Inl c) = seq (await_cont K c) continue"
  "tried (Inr g) = Return (Some g)" "tried (Inl e) = Return None"
  "some_rw (Return g) = Return (Some g)" "some_rw (Panic msg) = Panic msg"
  "running p \<Longrightarrow> running (some_rw p)"
  "running p \<Longrightarrow> resume (some_rw p) s = map_option (map_prod id some_rw) (resume p s)"
  "rw_critical K m f None = Return ()"
  "rw_critical K m f (Some g) =
     (case m of Reading \<Rightarrow> reading_section K | Writing \<Rightarrow> writing_section K f)"
  by (simp_all add: rw_block_after_def rw_async_after_def tried_def some_rw_def [abs_def] rw_critical_def)

lemma rw_guard_simps [simp]:
  "guard_of Reading = ReadGuard" "guard_of Writing = WriteGuard"
  "(case m of Reading \<Rightarrow> ReadGuard | Writing \<Rightarrow> WriteGuard) = guard_of m"
  by (simp_all add: guard_of_def split: mode.splits)

lemma rd_section_steps [simp]:
  "resume (reading_section K) s = Some (s, bind read_guard_deref (\<lambda>w.
     seq (assert_prog (rw_inner s = w) torn_read_msg) (read_guard_drop K)))"
  "resume (writing_section K f) s = Some (s, rd_code K f (WrWrite (rw_inner s)))"
  "resume (read_guard_drop K) s = Some (s\<lparr>rw_data_lock := rw_data_lock s - 1\<rparr>,
     if rw_data_lock s > 0 then did_unlock_read K else Panic read_drop_msg)"
  "resume (write_guard_drop K) s = Some (s\<lparr>rw_data_lock := UNLOCKED\<rparr>,
     if rw_data_lock s = LOCKED_WRITE then did_unlock_write K else Panic write_drop_msg)"
  by (simp_all add: reading_section_def writing_section_def read_guard_drop_def write_guard_drop_def)

lemma rw_wake_folds [simp]:
  "rw_unparks K m [] = rw_wake_async K m"
  "running (rw_unparks K m (u # ts))"
  "resume (rw_unparks K m (u # ts)) s = Some (set_token u s, rw_unparks K m ts)"
  "rw_sends K m [] = rw_then K m"
  "running (rw_sends K m (c # cs))"
  "resume (rw_sends K m (c # cs)) s = Some (s\<lparr>conts := k_send K c (conts s)\<rparr>, rw_sends K m cs)"
  "bind (with_mut (sync_list_of m) (mem_take (sync_list_of m))) (rw_unparks K m) = rw_wake K m"
  "bind (with_mut (async_list_of m) (mem_take (async_list_of m))) (rw_sends K m) = rw_wake_async K m"
  by (simp_all add: rw_unparks_def [abs_def] rw_sends_def [abs_def] rw_wake_async_def rw_then_def
      rw_wake_def did_unlock_read_def did_unlock_write_def split: mode.splits)

lemma rw_wake_steps [simp]:
  "resume (rw_wake K m) s = Some (set_locked (sync_list_of m) True s,
     bind (if locked (peek (sync_list_of m) s) then spin_hint (sync_list_of m) (mem_take (sync_list_of m))
           else section_of (sync_list_of m) (mem_take (sync_list_of m))) (rw_unparks K m))"
  "resume (rw_wake_async K m) s = Some (set_locked (async_list_of m) True s,
     bind (if locked (peek (async_list_of m) s) then spin_hint (async_list_of m) (mem_take (async_list_of m))
           else section_of (async_list_of m) (mem_take (async_list_of m))) (rw_sends K m))"
  by (simp_all add: rw_wake_folds(7,8)[symmetric] del: rw_wake_folds)

abbreviation rw_rest ::
  "'k cont_ops \<Rightarrow> platform \<Rightarrow> tid \<Rightarrow> mode \<Rightarrow> ('d \<Rightarrow> 'd) \<Rightarrow> 'd rwpoint option \<Rightarrow>
   (('d, 'k, 'z) rwlock_scheme, unit) prog" where
  "rw_rest K P t m f q \<equiv> (case q of None \<Rightarrow> Return () | Some p \<Rightarrow> rw_point_code K P t m f p)"

lemma section_code [simp]:
  "rd_code K f (case m of Reading \<Rightarrow> RdFirst | Writing \<Rightarrow> WrRead) =
     (case m of Reading \<Rightarrow> reading_section K | Writing \<Rightarrow> writing_section K f)"
  by (cases m) simp_all

lemma rw_wake_rest [simp]:
  "rw_rest K P t m f (unpark_point l ts) = rw_unparks K l ts"
  "rw_rest K P t m f (sends_point l cs) = rw_sends K l cs"
  by (cases ts; cases cs; simp add: unpark_point_def sends_point_def rw_then_def rw_wake_def
      split: mode.splits)+

lemma rs_code_step:
  "resume (bind (rs_code m p) (rw_critical K m f)) s =
     map_option (map_prod id (rw_rest K P t m f)) (rs_step m p s)"
  by (cases p) (simp_all add: try_step_map)

lemma rb_code_step:
  "resume (bind (rb_code P t m p) (rw_critical K m f)) s =
     map_option (map_prod id (rw_point_code K P t m f)) (rb_step P t m p s)"
  by (cases p) (simp_all add: try_step_map)

lemma ra_code_step:
  "resume (bind (ra_code K m p) (rw_critical K m f)) s =
     map_option (map_prod id (rw_point_code K P t m f)) (ra_step K m p s)"
  by (cases p) (simp_all add: try_step_map)

lemma rd_code_step:
  "resume (rd_code K f p) s = map_option (map_prod id (rw_point_code K P t m f)) (rd_step f p s)"
  by (cases p) (simp_all add: rw_wake_def)

lemma wk_code_step:
  "resume (wk_code K l p) s = map_option (map_prod id (rw_rest K P t m f)) (wk_step K l p s)"
  by (cases p) (simp_all)

lemma rw_point_code_step:
  "resume (rw_point_code K P t m f p) s =
     map_option (map_prod id (rw_rest K P t m f)) (rw_point_step K P t m f p s)"
proof (cases p)
  case (RB q)
  then show ?thesis
    using rb_code_step [of P t m q K f s] by (cases "rb_step P t m q s") auto
next
  case (RA q)
  then show ?thesis
    using ra_code_step [of K m q f s P t] by (cases "ra_step K m q s") auto
next
  case (RD q)
  then show ?thesis
    using rd_code_step [of K f q s P t m] by (cases "rd_step f q s") auto
qed (simp_all add: rs_code_step wk_code_step del: resume_bind)

lemma rw_start_code [simp]:
  "rw_point_code K P t m f (rw_start P a) = bind (rw_acquire K P t m a) (rw_critical K m f)"
  by (cases a; cases m)
    (simp_all add: lock_sync_read_def lock_sync_write_def)

fun rw_stopped :: "'d rwpoint \<Rightarrow> bool" where
  "rw_stopped (RX p) = True"
| "rw_stopped _ = False"

lemma rw_point_running: "\<not> rw_stopped p \<Longrightarrow> running (rw_point_code K P t m f p)"
proof (cases p)
  case (RS q) then show ?thesis by (cases q) simp_all
next
  case (RB q) then show ?thesis by (cases q) simp_all
next
  case (RA q) then show ?thesis by (cases q) simp_all
next
  case (RD q) then show ?thesis by (cases q) simp_all
next
  case (RW l q) then show ?thesis by (cases q) simp_all
qed simp

lemma rw_next_code:
  "rw_code K P t (rw_next m f ops q) = seq (rw_rest K P t m f q) (rw_client K P t ops)"
  by (simp add: rw_next_def split: option.splits)

lemma rw_code_step:
  "resume (rw_code K P t pc) s = map_option (map_prod id (rw_code K P t)) (rw_pstep K P t pc s)"
proof (cases "(K, P, t, pc, s)" rule: rw_pstep.cases)
  case (3 K' P' t' m f p ops s')
  show ?thesis
  proof (cases "rw_stopped p")
    case True
    with 3 show ?thesis by (cases p) simp_all
  next
    case False
    with 3 show ?thesis
      by (cases "rw_point_step K P t m f p s")
        (auto simp: rw_point_running rw_point_code_step rw_next_code)
  qed
qed simp_all

interpretation rw_points: pc_program "rw_code K P" "rw_pstep K P" for K P
  by unfold_locales (rule rw_code_step)

text \<open>From here on the calls are seen by their mode.\<close>

declare try_of.simps [simp del] spin_of.simps [simp del] block_of.simps [simp del]
  async_of.simps [simp del]

lemma calls_by_mode [simp]:
  "try_lock_read = try_of Reading" "try_lock_write = try_of Writing"
  "lock_spin_read = spin_of Reading" "lock_spin_write = spin_of Writing"
  "lock_block_read = block_of Reading" "lock_block_write = block_of Writing"
  "lock_async_read = async_of Reading" "lock_async_write = async_of Writing"
  by (simp_all add: try_of.simps spin_of.simps block_of.simps async_of.simps)

end
