(* ===== verification/Waiting.thy ===== *)
theory Waiting
  imports Runtime
begin

section \<open>The waiting-list protocol\<close>

text \<open>
  Every blocking and asynchronous call of the mutex and of the read-write lock follows one
  protocol. A call that finds the lock taken adds itself to a list under the list's spinlock,
  having tried the lock under that spinlock, and then waits for a signal. A release frees the
  lock, then empties the list under the spinlock, then signals everyone it found there.

  The interface \<open>waiting_list\<close> states what one step of a thread does to the parts of this
  protocol: the lock (\<open>held\<close>), the list (\<open>listed\<close>), the signals (\<open>ready\<close>), and where threads
  are (\<open>inside\<close> the spinlock, \<open>pushing\<close> onto the list, \<open>waits\<close> for a signal, about to be
  \<open>taking\<close> the list, \<open>waking\<close> the signals it still has to give). The lemmas show once that no
  waiting call is forgotten.
\<close>

text \<open>
  A continuation counts as signalled when it is ready; should the store of continuations not
  keep its documented laws, nothing is claimed of it and every continuation counts.
\<close>

definition signalled :: "'k cont_ops \<Rightarrow> ('k, 'z) runtime_scheme \<Rightarrow> cid \<Rightarrow> bool" where
  "signalled K s c \<longleftrightarrow> (cont_laws K \<longrightarrow> k_ready K c (conts s))"

lemma signalled_kept [intro]:
  "signalled K s c \<Longrightarrow> signalled K (s\<lparr>conts := k_send K c' (conts s)\<rparr>) c"
  "signalled K s c \<Longrightarrow> signalled K (s\<lparr>conts := snd (k_new K (conts s))\<rparr>) c"
  by (auto simp: signalled_def dest: cont_lawsD)

lemma signalled_send [simp]: "signalled K (s\<lparr>conts := k_send K c (conts s)\<rparr>) c"
  by (simp add: signalled_def cont_lawsD)

subsection \<open>The protocol\<close>

definition covered ::
  "('s \<Rightarrow> 'c set) \<Rightarrow> ('s \<Rightarrow> 'c \<Rightarrow> bool) \<Rightarrow> ('pc \<Rightarrow> tid \<Rightarrow> 'c \<Rightarrow> bool) \<Rightarrow> ('pc \<Rightarrow> 'c set) \<Rightarrow>
   's \<Rightarrow> (tid \<Rightarrow> 'pc) \<Rightarrow> bool" where
  "covered listed ready waits waking s pcs \<longleftrightarrow>
     (\<forall>t c. waits (pcs t) t c \<longrightarrow> ready s c \<or> c \<in> listed s \<or> (\<exists>u. c \<in> waking (pcs u)))"

definition promised ::
  "('s \<Rightarrow> bool) \<Rightarrow> ('s \<Rightarrow> 'c set) \<Rightarrow> ('pc \<Rightarrow> bool) \<Rightarrow> ('pc \<Rightarrow> bool) \<Rightarrow>
   's \<Rightarrow> (tid \<Rightarrow> 'pc) \<Rightarrow> bool" where
  "promised held listed pushing taking s pcs \<longleftrightarrow>
     (\<not> held s \<longrightarrow> listed s \<noteq> {} \<or> (\<exists>t. pushing (pcs t)) \<longrightarrow> (\<exists>u. taking (pcs u)))"

locale waiting_list =
  fixes pstep :: "tid \<Rightarrow> 'pc \<Rightarrow> 's \<Rightarrow> ('s \<times> 'pc) option"
    and held :: "'s \<Rightarrow> bool"
    and listed :: "'s \<Rightarrow> 'c set"
    and ready :: "'s \<Rightarrow> 'c \<Rightarrow> bool"
    and waits :: "'pc \<Rightarrow> tid \<Rightarrow> 'c \<Rightarrow> bool"
    and inside :: "'pc \<Rightarrow> bool"
    and pushing :: "'pc \<Rightarrow> bool"
    and taking :: "'pc \<Rightarrow> bool"
    and waking :: "'pc \<Rightarrow> 'c set"
  assumes own_signal_kept: "pstep i pc s = Some (s', pc') \<Longrightarrow> ready s c \<Longrightarrow> waits pc' i c \<Longrightarrow>
      ready s' c"
    and other_signal_kept: "pstep i pc s = Some (s', pc') \<Longrightarrow> ready s c \<Longrightarrow> t \<noteq> i \<Longrightarrow>
      waits pc2 t c \<Longrightarrow> ready s' c"
    and listed_kept: "pstep i pc s = Some (s', pc') \<Longrightarrow> c \<in> listed s \<Longrightarrow>
      c \<in> listed s' \<or> c \<in> waking pc'"
    and waking_kept: "pstep i pc s = Some (s', pc') \<Longrightarrow> c \<in> waking pc \<Longrightarrow>
      c \<in> waking pc' \<or> ready s' c"
    and waits_listed: "pstep i pc s = Some (s', pc') \<Longrightarrow> waits pc' i c \<Longrightarrow>
      waits pc i c \<or> c \<in> listed s'"
    and freed_by_taker: "pstep i pc s = Some (s', pc') \<Longrightarrow> held s \<Longrightarrow> \<not> held s' \<Longrightarrow> taking pc'"
    and listed_by_push: "pstep i pc s = Some (s', pc') \<Longrightarrow> listed s = {} \<Longrightarrow> listed s' \<noteq> {} \<Longrightarrow>
      pushing pc"
    and push_if_held: "pstep i pc s = Some (s', pc') \<Longrightarrow> pushing pc' \<Longrightarrow> pushing pc \<or> held s'"
    and taken_inside: "pstep i pc s = Some (s', pc') \<Longrightarrow> taking pc \<Longrightarrow>
      taking pc' \<or> (listed s' = {} \<and> inside pc \<and> \<not> pushing pc')"
    and push_inside: "pushing pc \<Longrightarrow> inside pc"
    and push_not_taking: "pushing pc \<Longrightarrow> \<not> taking pc"
begin

lemma covered_step:
  assumes cov: "covered listed ready waits waking s pcs"
    and st: "pstep i (pcs i) s = Some (s', pc')"
  shows "covered listed ready waits waking s' (pcs(i := pc'))"
  unfolding covered_def
proof (intro allI impI)
  fix t c assume w: "waits ((pcs(i := pc')) t) t c"
  have kept: "c \<in> listed s' \<or> (\<exists>u. c \<in> waking ((pcs(i := pc')) u)) \<or> ready s' c"
    if "c \<in> listed s \<or> (\<exists>u. c \<in> waking (pcs u))"
    using that listed_kept [OF st] waking_kept [OF st] by (metis fun_upd_apply)
  have "ready s c \<or> c \<in> listed s \<or> (\<exists>u. c \<in> waking (pcs u)) \<or> c \<in> listed s'"
    using w cov waits_listed [OF st] unfolding covered_def by (metis fun_upd_apply)
  moreover have "ready s' c" if "ready s c"
    using own_signal_kept [OF st that] other_signal_kept [OF st that _ w] w
    by (cases "t = i") simp_all
  ultimately show "ready s' c \<or> c \<in> listed s' \<or> (\<exists>u. c \<in> waking ((pcs(i := pc')) u))"
    using kept by blast
qed

lemma promised_step:
  assumes pro: "promised held listed pushing taking s pcs"
    and ex: "excl b inside pcs"
    and st: "pstep i (pcs i) s = Some (s', pc')"
  shows "promised held listed pushing taking s' (pcs(i := pc'))"
  unfolding promised_def
proof (intro impI)
  assume free: "\<not> held s'" and some: "listed s' \<noteq> {} \<or> (\<exists>t. pushing ((pcs(i := pc')) t))"
  have before: "listed s \<noteq> {} \<or> (\<exists>t. pushing (pcs t))"
    using some listed_by_push [OF st] push_if_held [OF st] free by (metis fun_upd_apply)
  show "\<exists>u. taking ((pcs(i := pc')) u)"
  proof (cases "held s")
    case True
    with free freed_by_taker [OF st] show ?thesis by (metis fun_upd_same)
  next
    case False
    with pro before obtain u where u: "taking (pcs u)" unfolding promised_def by blast
    show ?thesis
    proof (cases "u = i \<and> \<not> taking pc'")
      case True
      with u taken_inside [OF st] have out: "listed s' = {}" "inside (pcs i)" "\<not> pushing pc'" by auto
      with some obtain t where "t \<noteq> i" "pushing (pcs t)" by (metis fun_upd_apply)
      with exclD(2) [OF ex _ out(2)] push_inside show ?thesis by blast
    next
      case False
      with u show ?thesis by (metis fun_upd_apply)
    qed
  qed
qed

lemma not_forgotten:
  assumes "covered listed ready waits waking s pcs"
    and "promised held listed pushing taking s pcs"
    and "waits (pcs t) t c" and "\<not> ready s c"
  shows "held s \<or> (\<exists>u. taking (pcs u) \<or> c \<in> waking (pcs u))"
  using assms unfolding covered_def promised_def by blast

end

end
