(* ===== verification/RwLock_Safety.thy ===== *)
theory RwLock_Safety
  imports RwLock_Machine Waiting
begin

section \<open>Exclusion and wakeups of the read-write lock\<close>

text \<open>
  The lock word against the threads that hold it, the spinlocks of the four waiting lists, and
  the waiting-list protocol, here used four times: once for each mode, blocking and asynchronous.
\<close>

subsection \<open>The lock word\<close>

lemma write_bit: "(f AND LOCKED_WRITE = 0) \<longleftrightarrow> f < LOCKED_WRITE" for f :: u8
proof -
  have "f AND LOCKED_WRITE = 0 \<longleftrightarrow> \<not> bit f 7"
  proof -
    have "LOCKED_WRITE = push_bit 7 1" by (simp add: LOCKED_WRITE_def)
    then have "bit LOCKED_WRITE n \<longleftrightarrow> n = 7" for n
      using bit_push_bit_iff [of 7 "1 :: u8" n] by (auto simp: bit_1_iff)
    then have b: "bit (f AND LOCKED_WRITE) n \<longleftrightarrow> n = 7 \<and> bit f 7" for n
      by (auto simp: bit_and_iff)
    show ?thesis
    proof
      assume "f AND LOCKED_WRITE = 0"
      with b [of 7] show "\<not> bit f 7" by simp
    next
      assume "\<not> bit f 7"
      with b show "f AND LOCKED_WRITE = 0" by (intro bit_eqI) simp
    qed
  qed
  also have "\<dots> \<longleftrightarrow> unat f < 128"
  proof -
    have "unat f < 256" using unsigned_less [of f] by simp
    moreover have "bit f 7 \<longleftrightarrow> odd (unat f div 128)"
      using bit_iff_odd [of "unat f" 7] by (simp add: bit_unsigned_iff)
    moreover have "unat f div 128 = 0 \<longleftrightarrow> unat f < 128" by (simp add: div_eq_0_iff)
    moreover have "unat f div 128 < 2" using calculation(1) by (simp add: less_mult_imp_div_less)
    ultimately show ?thesis by (auto dest!: less_2_cases)
  qed
  also have "\<dots> \<longleftrightarrow> f < LOCKED_WRITE"
    by (simp add: word_less_nat_alt LOCKED_WRITE_def)
  finally show ?thesis .
qed

lemma one_reader_more:
  assumes "w < LOCKED_WRITE - 1"
  shows "unat w < 127" and "unat (w + 1) = Suc (unat w)" and "w < LOCKED_WRITE" and "w + 1 \<noteq> 0"
proof -
  show "unat w < 127" "unat (w + 1) = Suc (unat w)"
    using assms by (simp_all add: word_less_nat_alt LOCKED_WRITE_def unat_word_ariths)
  then show "w < LOCKED_WRITE" "w + 1 \<noteq> 0"
    by (auto simp: word_less_nat_alt LOCKED_WRITE_def)
qed

text \<open>Which mode of the lock a thread holds.\<close>

fun point_holds :: "mode \<Rightarrow> 'd rwpoint \<Rightarrow> mode option" where
  "point_holds m (RB p) = (if p = RbGot then Some m else None)"
| "point_holds m (RA p) = (if p = RaGot then Some m else None)"
| "point_holds m (RD p) =
     (case p of RdFirst \<Rightarrow> Some Reading | RdSecond v \<Rightarrow> Some Reading | RdDrop \<Rightarrow> Some Reading
      | _ \<Rightarrow> Some Writing)"
| "point_holds m _ = None"

fun holds :: "'d rwthread \<Rightarrow> mode option" where
  "holds (RwIdle ops) = None"
| "holds (RwAt m f p ops) = point_holds m p"

definition readers :: "(tid \<Rightarrow> 'd rwthread) \<Rightarrow> tid set" where
  "readers pcs = {t. holds (pcs t) = Some Reading}"

definition writers :: "(tid \<Rightarrow> 'd rwthread) \<Rightarrow> tid set" where
  "writers pcs = {t. holds (pcs t) = Some Writing}"

text \<open>The word is \<open>LOCKED_WRITE\<close> when there is a writer, who is then alone, and otherwise the
  number of readers, of whom there are at most 127.\<close>

definition word_inv :: "u8 \<Rightarrow> (tid \<Rightarrow> 'd rwthread) \<Rightarrow> bool" where
  "word_inv w pcs \<longleftrightarrow> finite (readers pcs) \<and> card (readers pcs) \<le> 127 \<and>
     ((\<exists>t. writers pcs = {t}) \<and> readers pcs = {} \<and> w = LOCKED_WRITE \<or>
      writers pcs = {} \<and> unat w = card (readers pcs))"

text \<open>What one step does to the word.\<close>

definition word_step :: "u8 \<Rightarrow> u8 \<Rightarrow> mode option \<Rightarrow> mode option \<Rightarrow> bool" where
  "word_step w w' h h' \<longleftrightarrow> h' = h \<and> w' = w \<or>
     h = None \<and> h' = Some Reading \<and> w < LOCKED_WRITE - 1 \<and> w' = w + 1 \<or>
     h = None \<and> h' = Some Writing \<and> w = UNLOCKED \<and> w' = LOCKED_WRITE \<or>
     h = Some Reading \<and> h' = None \<and> w' = w - 1 \<or>
     h = Some Writing \<and> h' = None \<and> w' = UNLOCKED"

lemma holders_update:
  "readers (pcs(i := pc')) = (if holds pc' = Some Reading then insert i (readers pcs) else readers pcs - {i})"
  "writers (pcs(i := pc')) = (if holds pc' = Some Writing then insert i (writers pcs) else writers pcs - {i})"
  by (auto simp: readers_def writers_def)

lemma word_inv_step:
  assumes inv: "word_inv w pcs" and st: "word_step w w' (holds (pcs i)) (holds pc')"
  shows "word_inv w' (pcs(i := pc'))"
proof -
  have in_r: "i \<in> readers pcs \<longleftrightarrow> holds (pcs i) = Some Reading"
    and in_w: "i \<in> writers pcs \<longleftrightarrow> holds (pcs i) = Some Writing"
    by (simp_all add: readers_def writers_def)
  consider (same) "holds pc' = holds (pcs i)" "w' = w"
    | (take_read) "holds (pcs i) = None" "holds pc' = Some Reading" "w < LOCKED_WRITE - 1" "w' = w + 1"
    | (take_write) "holds (pcs i) = None" "holds pc' = Some Writing" "w = UNLOCKED" "w' = LOCKED_WRITE"
    | (end_read) "holds (pcs i) = Some Reading" "holds pc' = None" "w' = w - 1"
    | (end_write) "holds (pcs i) = Some Writing" "holds pc' = None" "w' = UNLOCKED"
    using st unfolding word_step_def by metis
  then show ?thesis
  proof cases
    case same
    then have "readers (pcs(i := pc')) = readers pcs" "writers (pcs(i := pc')) = writers pcs"
      using in_r in_w by (auto simp: holders_update)
    with inv same show ?thesis by (simp add: word_inv_def)
  next
    case take_read
    then have w: "unat w < 127" "unat w' = Suc (unat w)" "w \<noteq> LOCKED_WRITE"
      using one_reader_more [of w] by auto
    with inv w take_read in_r in_w show ?thesis by (auto simp: word_inv_def holders_update)
  next
    case take_write
    with inv have "readers pcs = {}" "writers pcs = {}"
      by (auto simp: word_inv_def UNLOCKED_def LOCKED_WRITE_def)
    with take_write show ?thesis by (auto simp: word_inv_def holders_update)
  next
    case end_read
    with inv in_r have r: "writers pcs = {}" "unat w = card (readers pcs)" "card (readers pcs) > 0"
      "finite (readers pcs)" "card (readers pcs) \<le> 127" by (auto simp: word_inv_def card_gt_0_iff)
    then have "unat w' = card (readers pcs) - 1"
      using end_read by (simp add: unat_word_ariths unat_sub_if')
    with r end_read in_r show ?thesis by (simp add: word_inv_def holders_update)
  next
    case end_write
    with inv in_w have "writers pcs = {i}" "readers pcs = {}" by (auto simp: word_inv_def)
    with end_write show ?thesis by (auto simp: word_inv_def holders_update UNLOCKED_def)
  qed
qed

text \<open>The same agreement, from the point of view of one thread.\<close>

definition word_fits :: "'d rwthread \<Rightarrow> u8 \<Rightarrow> bool" where
  "word_fits pc w \<longleftrightarrow>
     (holds pc = Some Reading \<longrightarrow> 0 < w \<and> w < LOCKED_WRITE) \<and>
     (holds pc = Some Writing \<longrightarrow> w = LOCKED_WRITE)"

lemma word_inv_fits: "word_inv w pcs \<Longrightarrow> word_fits (pcs t) w"
proof -
  assume inv: "word_inv w pcs"
  have "0 < card (readers pcs)" if "t \<in> readers pcs"
    using that inv by (auto simp: word_inv_def card_gt_0_iff)
  with inv show ?thesis
    unfolding word_inv_def word_fits_def word_less_nat_alt
    by (auto simp: LOCKED_WRITE_def readers_def writers_def)
qed

text \<open>Together with the data: what a thread has read is still there.\<close>

fun rw_read_value :: "'d rwthread \<Rightarrow> 'd option" where
  "rw_read_value (RwIdle ops) = None"
| "rw_read_value (RwAt m f p ops) =
     (case p of RD d \<Rightarrow> (case d of RdSecond v \<Rightarrow> Some v | WrWrite v \<Rightarrow> Some v | _ \<Rightarrow> None) | _ \<Rightarrow> None)"

definition fits :: "'d rwthread \<Rightarrow> ('d, 'k, 'z) rwlock_scheme \<Rightarrow> bool" where
  "fits pc s \<longleftrightarrow> word_fits pc (rw_data_lock s) \<and> rw_read_value pc \<in> {None, Some (rw_inner s)}"

text \<open>For whom the lock is taken: a reader waits for the writer, a writer for everyone.\<close>

definition held_for :: "mode \<Rightarrow> ('d, 'k, 'z) rwlock_scheme \<Rightarrow> bool" where
  "held_for l s = (case l of
       Reading \<Rightarrow> rw_data_lock s AND LOCKED_WRITE \<noteq> 0
     | Writing \<Rightarrow> rw_data_lock s \<noteq> UNLOCKED)"

subsection \<open>Points\<close>

fun in_sync_section :: "mode \<Rightarrow> mode \<Rightarrow> 'd rwpoint \<Rightarrow> bool" where
  "in_sync_section l m (RB p) = (m = l \<and> p \<in> {RbTry, RbPush, RbGot, RbFail})"
| "in_sync_section l m (RX p) = (m = l \<and> p = CrowdSync)"
| "in_sync_section l m (RW k p) = (k = l \<and> (case p of WkTake \<Rightarrow> True | WkRel ts \<Rightarrow> True | _ \<Rightarrow> False))"
| "in_sync_section l m _ = False"

fun in_async_section :: "mode \<Rightarrow> mode \<Rightarrow> 'd rwpoint \<Rightarrow> bool" where
  "in_async_section l m (RA p) = (m = l \<and>
     (case p of RaTry \<Rightarrow> True | RaNew \<Rightarrow> True | RaPush c \<Rightarrow> True | RaGot \<Rightarrow> True | RaFail c \<Rightarrow> True
      | _ \<Rightarrow> False))"
| "in_async_section l m (RX p) = (m = l \<and> p = CrowdAsync)"
| "in_async_section l m (RW k p) = (k = l \<and> (case p of WkATake \<Rightarrow> True | WkARel cs \<Rightarrow> True | _ \<Rightarrow> False))"
| "in_async_section l m _ = False"

fun rw_sync_wait :: "mode \<Rightarrow> mode \<Rightarrow> 'd rwpoint \<Rightarrow> bool" where
  "rw_sync_wait l m (RB p) = (m = l \<and> p \<in> {RbFail, RbPark})"
| "rw_sync_wait l m _ = False"

fun rw_async_wait :: "mode \<Rightarrow> mode \<Rightarrow> 'd rwpoint \<Rightarrow> cid set" where
  "rw_async_wait l m (RA p) = (if m = l then (case p of RaFail c \<Rightarrow> {c} | RaAwait c \<Rightarrow> {c} | _ \<Rightarrow> {}) else {})"
| "rw_async_wait l m _ = {}"

fun rw_sync_push :: "mode \<Rightarrow> mode \<Rightarrow> 'd rwpoint \<Rightarrow> bool" where
  "rw_sync_push l m (RB p) = (m = l \<and> p = RbPush)"
| "rw_sync_push l m _ = False"

fun rw_async_push :: "mode \<Rightarrow> mode \<Rightarrow> 'd rwpoint \<Rightarrow> bool" where
  "rw_async_push l m (RA p) = (m = l \<and> (case p of RaNew \<Rightarrow> True | RaPush c \<Rightarrow> True | _ \<Rightarrow> False))"
| "rw_async_push l m _ = False"

text \<open>Who is about to empty a list: a writer's release empties the reading lists and then the
  writing lists, a reader's only the latter.\<close>

fun rw_sync_take :: "mode \<Rightarrow> mode \<Rightarrow> 'd rwpoint \<Rightarrow> bool" where
  "rw_sync_take l m (RW k p) = (k = l \<and> p \<in> {WkSwap, WkHint, WkTake} \<or> l = Writing \<and> k = Reading)"
| "rw_sync_take l m _ = False"

fun rw_async_take :: "mode \<Rightarrow> mode \<Rightarrow> 'd rwpoint \<Rightarrow> bool" where
  "rw_async_take l m (RW k p) =
     (k = l \<and> (case p of WkARel cs \<Rightarrow> False | WkSend c cs \<Rightarrow> False | _ \<Rightarrow> True) \<or>
      l = Writing \<and> k = Reading)"
| "rw_async_take l m _ = False"

fun rw_to_wake :: "mode \<Rightarrow> mode \<Rightarrow> 'd rwpoint \<Rightarrow> tid set" where
  "rw_to_wake l m (RW k p) =
     (if k = l then (case p of WkRel ts \<Rightarrow> set ts | WkUnpark u ts \<Rightarrow> set (u # ts) | _ \<Rightarrow> {}) else {})"
| "rw_to_wake l m _ = {}"

fun rw_to_send :: "mode \<Rightarrow> mode \<Rightarrow> 'd rwpoint \<Rightarrow> cid set" where
  "rw_to_send l m (RW k p) =
     (if k = l then (case p of WkARel cs \<Rightarrow> set cs | WkSend c cs \<Rightarrow> set (c # cs) | _ \<Rightarrow> {}) else {})"
| "rw_to_send l m _ = {}"

fun at_rw :: "(mode \<Rightarrow> 'd rwpoint \<Rightarrow> bool) \<Rightarrow> 'd rwthread \<Rightarrow> bool" where
  "at_rw Q (RwIdle ops) = False"
| "at_rw Q (RwAt m f p ops) = Q m p"

fun of_rw :: "(mode \<Rightarrow> 'd rwpoint \<Rightarrow> 'x set) \<Rightarrow> 'd rwthread \<Rightarrow> 'x set" where
  "of_rw Q (RwIdle ops) = {}"
| "of_rw Q (RwAt m f p ops) = Q m p"

lemma rw_start_classes [simp]:
  "point_holds m (rw_start P a) = None" "\<not> in_sync_section l m (rw_start P a)"
  "\<not> in_async_section l m (rw_start P a)" "\<not> rw_sync_wait l m (rw_start P a)"
  "rw_async_wait l m (rw_start P a) = {}" "\<not> rw_sync_push l m (rw_start P a)"
  "\<not> rw_async_push l m (rw_start P a)" "\<not> rw_sync_take l m (rw_start P a)"
  "\<not> rw_async_take l m (rw_start P a)" "rw_to_wake l m (rw_start P a) = {}"
  "rw_to_send l m (rw_start P a) = {}" "\<not> rw_stopped (rw_start P a)"
  by (cases a; simp)+

lemma unpark_point_at:
  "rw_next m f ops (unpark_point k ts) =
     RwAt m f (RW k (case ts of [] \<Rightarrow> WkASwap | u # us \<Rightarrow> WkUnpark u us)) ops"
  by (simp add: rw_next_def unpark_point_def)

lemma sends_point_at:
  "rw_next m f ops (sends_point k cs) = (case cs of
       [] \<Rightarrow> (case k of Reading \<Rightarrow> RwAt m f (RW Writing WkSwap) ops | Writing \<Rightarrow> RwIdle ops)
     | c # cs \<Rightarrow> RwAt m f (RW k (WkSend c cs)) ops)"
  by (simp add: rw_next_def sends_point_def split: list.splits mode.splits)

lemma rw_next_simps [simp]:
  "rw_next m f ops None = RwIdle ops"
  "rw_next m f ops (Some p) = RwAt m f p ops"
  by (simp_all add: rw_next_def)

lemma rw_pstep_cases:
  assumes "rw_pstep K P i pc s = Some (s', pc')"
  obtains (start) m a f ops where "pc = RwIdle (RwOp m a f # ops)" "s' = s"
      "pc' = RwAt m f (rw_start P a) ops"
  | (spin) m f p ops q where "pc = RwAt m f (RS p) ops" "rs_step m p s = Some (s', q)"
      "pc' = rw_next m f ops q"
  | (block) m f p ops q where "pc = RwAt m f (RB p) ops" "rb_step P i m p s = Some (s', q)"
      "pc' = RwAt m f q ops"
  | (async) m f p ops q where "pc = RwAt m f (RA p) ops" "ra_step K m p s = Some (s', q)"
      "pc' = RwAt m f q ops"
  | (inside) m f p ops q where "pc = RwAt m f (RD p) ops" "rd_step f p s = Some (s', q)"
      "pc' = RwAt m f q ops"
  | (wake) m f k p ops q where "pc = RwAt m f (RW k p) ops" "wk_step K k p s = Some (s', q)"
      "pc' = rw_next m f ops q"
  using assms
proof (cases "(K, P, i, pc, s)" rule: rw_pstep.cases)
  case (3 K' P' t' m f p ops s1)
  with assms that show ?thesis by (cases p) (auto simp: id_def)
qed (use assms that in auto)

subsection \<open>The flags\<close>

lemma rw_place_simps [simp]:
  "peek (sync_list_of Reading) s = waiting_sync_read_threads s"
  "peek (sync_list_of Writing) s = waiting_sync_write_threads s"
  "peek (async_list_of Reading) s = waiting_async_read_threads s"
  "peek (async_list_of Writing) s = waiting_async_write_threads s"
  "set_locked (sync_list_of Reading) b s =
     s\<lparr>waiting_sync_read_threads := (waiting_sync_read_threads s)\<lparr>locked := b\<rparr>\<rparr>"
  "set_locked (sync_list_of Writing) b s =
     s\<lparr>waiting_sync_write_threads := (waiting_sync_write_threads s)\<lparr>locked := b\<rparr>\<rparr>"
  "set_data (sync_list_of Reading) xs s =
     s\<lparr>waiting_sync_read_threads := (waiting_sync_read_threads s)\<lparr>data := xs\<rparr>\<rparr>"
  "set_data (sync_list_of Writing) xs s =
     s\<lparr>waiting_sync_write_threads := (waiting_sync_write_threads s)\<lparr>data := xs\<rparr>\<rparr>"
  "set_locked (async_list_of Reading) b s =
     s\<lparr>waiting_async_read_threads := (waiting_async_read_threads s)\<lparr>locked := b\<rparr>\<rparr>"
  "set_locked (async_list_of Writing) b s =
     s\<lparr>waiting_async_write_threads := (waiting_async_write_threads s)\<lparr>locked := b\<rparr>\<rparr>"
  "set_data (async_list_of Reading) cs s =
     s\<lparr>waiting_async_read_threads := (waiting_async_read_threads s)\<lparr>data := cs\<rparr>\<rparr>"
  "set_data (async_list_of Writing) cs s =
     s\<lparr>waiting_async_write_threads := (waiting_async_write_threads s)\<lparr>data := cs\<rparr>\<rparr>"
  by (simp_all add: set_locked_def set_data_def sync_list_of.simps async_list_of.simps)

text \<open>Two different lists, and a list and the rest of the state, do not overlap.\<close>

lemma rw_places_apart [simp]:
  "peek (sync_list_of l) (set_locked (sync_list_of m) b s) =
     (if l = m then (peek (sync_list_of l) s)\<lparr>locked := b\<rparr> else peek (sync_list_of l) s)"
  "peek (sync_list_of l) (set_data (sync_list_of m) xs s) =
     (if l = m then (peek (sync_list_of l) s)\<lparr>data := xs\<rparr> else peek (sync_list_of l) s)"
  "peek (async_list_of l) (set_locked (async_list_of m) b s) =
     (if l = m then (peek (async_list_of l) s)\<lparr>locked := b\<rparr> else peek (async_list_of l) s)"
  "peek (async_list_of l) (set_data (async_list_of m) cs s) =
     (if l = m then (peek (async_list_of l) s)\<lparr>data := cs\<rparr> else peek (async_list_of l) s)"
  "peek (sync_list_of l) (set_locked (async_list_of m) b s) = peek (sync_list_of l) s"
  "peek (sync_list_of l) (set_data (async_list_of m) cs s) = peek (sync_list_of l) s"
  "peek (async_list_of l) (set_locked (sync_list_of m) b s) = peek (async_list_of l) s"
  "peek (async_list_of l) (set_data (sync_list_of m) xs s) = peek (async_list_of l) s"
  by (cases l; cases m; simp)+

lemma rw_fields_apart [simp]:
  "peek (sync_list_of l) (s\<lparr>rw_data_lock := w\<rparr>) = peek (sync_list_of l) s"
  "peek (sync_list_of l) (s\<lparr>rw_inner := v\<rparr>) = peek (sync_list_of l) s"
  "peek (sync_list_of l) (s\<lparr>token := tk\<rparr>) = peek (sync_list_of l) s"
  "peek (sync_list_of l) (s\<lparr>conts := k\<rparr>) = peek (sync_list_of l) s"
  "peek (async_list_of l) (s\<lparr>rw_data_lock := w\<rparr>) = peek (async_list_of l) s"
  "peek (async_list_of l) (s\<lparr>rw_inner := v\<rparr>) = peek (async_list_of l) s"
  "peek (async_list_of l) (s\<lparr>token := tk\<rparr>) = peek (async_list_of l) s"
  "peek (async_list_of l) (s\<lparr>conts := k\<rparr>) = peek (async_list_of l) s"
  "rw_data_lock (set_locked (sync_list_of m) b s) = rw_data_lock s"
  "rw_data_lock (set_data (sync_list_of m) xs s) = rw_data_lock s"
  "rw_data_lock (set_locked (async_list_of m) b s) = rw_data_lock s"
  "rw_data_lock (set_data (async_list_of m) cs s) = rw_data_lock s"
  "rw_inner (set_locked (sync_list_of m) b s) = rw_inner s"
  "rw_inner (set_data (sync_list_of m) xs s) = rw_inner s"
  "rw_inner (set_locked (async_list_of m) b s) = rw_inner s"
  "rw_inner (set_data (async_list_of m) cs s) = rw_inner s"
  "token (set_locked (sync_list_of m) b s) = token s"
  "token (set_data (sync_list_of m) xs s) = token s"
  "token (set_locked (async_list_of m) b s) = token s"
  "token (set_data (async_list_of m) cs s) = token s"
  "conts (set_locked (sync_list_of m) b s) = conts s"
  "conts (set_data (sync_list_of m) xs s) = conts s"
  "conts (set_locked (async_list_of m) b s) = conts s"
  "conts (set_data (async_list_of m) cs s) = conts s"
  by (cases l; simp | cases m; simp)+

lemma rw_start_not_reading [simp]: "rw_start P a \<noteq> RD p"
  by (cases a) simp_all

lemma try_step_cases:
  obtains (fail) "try_step m s a b c = (s, a)" "held_for m s"
  | (crowd) "try_step m s a b c = (s, b)" "m = Reading" "rw_data_lock s = LOCKED_WRITE - 1"
  | (got_read) "try_step m s a b c = (s\<lparr>rw_data_lock := rw_data_lock s + 1\<rparr>, c)" "m = Reading"
      "rw_data_lock s < LOCKED_WRITE - 1"
  | (got_write) "try_step m s a b c = (s\<lparr>rw_data_lock := LOCKED_WRITE\<rparr>, c)" "m = Writing"
      "rw_data_lock s = UNLOCKED"
proof (cases m)
  case Reading
  have "w < LOCKED_WRITE - 1" if "w < LOCKED_WRITE" "w \<noteq> LOCKED_WRITE - 1" for w
    using that unfolding LOCKED_WRITE_def by unat_arith
  then consider (held) "\<not> rw_data_lock s < LOCKED_WRITE" | (full) "rw_data_lock s = LOCKED_WRITE - 1"
      "rw_data_lock s < LOCKED_WRITE" | (room) "rw_data_lock s < LOCKED_WRITE - 1" "rw_data_lock s < LOCKED_WRITE"
      "rw_data_lock s \<noteq> LOCKED_WRITE - 1"
    by (cases "rw_data_lock s < LOCKED_WRITE"; cases "rw_data_lock s = LOCKED_WRITE - 1") auto
  then show ?thesis
  proof cases
    case held
    show ?thesis by (rule fail) (use Reading held in \<open>simp_all add: try_step_def held_for_def write_bit\<close>)
  next
    case full
    show ?thesis by (rule crowd) (use Reading full write_bit [of "rw_data_lock s"] in \<open>simp_all add: try_step_def\<close>)
  next
    case room
    show ?thesis by (rule got_read) (use Reading room write_bit [of "rw_data_lock s"] in \<open>simp_all add: try_step_def\<close>)
  qed
next
  case Writing
  show ?thesis
  proof (cases "rw_data_lock s = UNLOCKED")
    case True
    show ?thesis by (rule got_write) (use Writing True in \<open>simp_all add: try_step_def\<close>)
  next
    case False
    show ?thesis by (rule fail) (use Writing False in \<open>simp_all add: try_step_def held_for_def\<close>)
  qed
qed

lemma try_stepD:
  assumes "try_step m s a b c = (s', q)"
  shows "s' = s \<and> q = a \<and> held_for m s \<or>
    s' = s \<and> q = b \<and> m = Reading \<and> rw_data_lock s = LOCKED_WRITE - 1 \<or>
    s' = s\<lparr>rw_data_lock := rw_data_lock s + 1\<rparr> \<and> q = c \<and> m = Reading \<and>
      rw_data_lock s < LOCKED_WRITE - 1 \<or>
    s' = s\<lparr>rw_data_lock := LOCKED_WRITE\<rparr> \<and> q = c \<and> m = Writing \<and> rw_data_lock s = UNLOCKED"
  using assms by (cases rule: try_step_cases [of m s a b c]) auto

lemma word_effect:
  assumes "rw_pstep K P i pc s = Some (s', pc')" and "fits pc s"
  shows "word_step (rw_data_lock s) (rw_data_lock s') (holds pc) (holds pc')"
  using assms(1)
proof (cases rule: rw_pstep_cases)
  case (start m a f ops)
  then show ?thesis by (simp add: word_step_def)
next
  case (spin m f p ops q)
  then show ?thesis
    by (cases p) (auto simp: word_step_def split: mode.splits dest!: try_stepD)
next
  case (block m f p ops q)
  then show ?thesis 
    by (cases p) (auto simp: word_step_def take_token_def split: if_splits mode.splits dest!: try_stepD)
next
  case (async m f p ops q)
  then show ?thesis
    by (cases p) (auto simp: word_step_def split: if_splits mode.splits dest!: try_stepD)
next
  case (inside m f p ops q)
  with assms(2) show ?thesis by (cases p) (auto simp: word_step_def fits_def word_fits_def)
next
  case (wake m f k p ops q)
  then show ?thesis
    by (cases p) (auto simp: word_step_def unpark_point_at sends_point_at set_token_def
        split: list.splits mode.splits)
qed

text \<open>One step and the spinlocks of the lists.\<close>

lemma list_flags:
  assumes "rw_pstep K P i pc s = Some (s', pc')"
  shows "flag_step (locked (peek (sync_list_of l) s)) (locked (peek (sync_list_of l) s'))
      (at_rw (in_sync_section l)) pc pc' \<and>
    flag_step (locked (peek (async_list_of l) s)) (locked (peek (async_list_of l) s'))
      (at_rw (in_async_section l)) pc pc'"
  using assms
proof (cases rule: rw_pstep_cases)
  case (start m a f ops)
  then show ?thesis by (simp add: flag_step_def)
next
  case (spin m f p ops q)
  then show ?thesis
    by (cases p) (auto simp: flag_step_def split: mode.splits dest!: try_stepD)
next
  case (block m f p ops q)
  then show ?thesis
    by (cases p) (auto simp: flag_step_def take_token_def split: if_splits dest!: try_stepD)
next
  case (async m f p ops q)
  then show ?thesis
    by (cases p) (auto simp: flag_step_def split: if_splits dest!: try_stepD)
next
  case (inside m f p ops q)
  then show ?thesis by (cases p) (auto simp: flag_step_def split: if_splits)
next
  case (wake m f k p ops q)
  then show ?thesis
    by (cases p) (auto simp: flag_step_def unpark_point_at sends_point_at set_token_def
        split: list.splits mode.splits if_splits)
qed

text \<open>Steps from states where the lock word fits the thread, and the protocol for one list.\<close>

definition rw_fit_step ::
  "'k cont_ops \<Rightarrow> platform \<Rightarrow> tid \<Rightarrow> 'd rwthread \<Rightarrow> ('d, 'k, 'z) rwlock_scheme \<Rightarrow>
   (('d, 'k, 'z) rwlock_scheme \<times> 'd rwthread) option" where
  "rw_fit_step K P i pc s = (if fits pc s then rw_pstep K P i pc s else None)"

lemma rw_fit_stepD:
  assumes "rw_fit_step K P i pc s = Some (s', pc')"
  shows "rw_pstep K P i pc s = Some (s', pc')" and "fits pc s"
  using assms by (simp_all add: rw_fit_step_def split: if_splits)

definition rw_sync_listed :: "mode \<Rightarrow> ('d, 'k, 'z) rwlock_scheme \<Rightarrow> tid set" where
  "rw_sync_listed l s = set (data (peek (sync_list_of l) s))"

definition rw_sync_waits :: "mode \<Rightarrow> 'd rwthread \<Rightarrow> tid \<Rightarrow> tid \<Rightarrow> bool" where
  "rw_sync_waits l pc t c \<longleftrightarrow> at_rw (rw_sync_wait l) pc \<and> c = t"

text \<open>Freeing the lock: only a release does, and it goes on to empty the lists concerned.\<close>

lemma release_effect:
  assumes "rw_pstep K P i pc s = Some (s', pc')" and "fits pc s"
    and "holds pc = Some m" and "holds pc' = None" and "m = Writing \<or> l = Writing"
  shows "at_rw (rw_sync_take l) pc' \<and> at_rw (rw_async_take l) pc'"
  using assms(1)
proof (cases rule: rw_pstep_cases)
  case (spin m f p ops q)
  with assms show ?thesis by (cases p) auto
next
  case (block m f p ops q)
  with assms show ?thesis by (cases p) (auto split: mode.splits)
next
  case (async m f p ops q)
  with assms show ?thesis by (cases p) (auto split: mode.splits)
next
  case (inside m f p ops q)
  have "rw_read_value pc \<in> {None, Some (rw_inner s)}" "word_fits pc (rw_data_lock s)"
    using assms(2) by (simp_all add: fits_def)
  with inside assms(3-5) show ?thesis
    by (cases p; cases l) (auto simp: word_fits_def)
qed (use assms in auto)

lemma held_for_step:
  assumes st: "rw_pstep K P i pc s = Some (s', pc')" and fits: "fits pc s"
    and "held_for l s" and "\<not> held_for l s'"
  shows "at_rw (rw_sync_take l) pc' \<and> at_rw (rw_async_take l) pc'"
proof -
  have "\<exists>m. holds pc = Some m \<and> holds pc' = None \<and> (m = Writing \<or> l = Writing)"
    using word_effect [OF st fits] unfolding word_step_def
  proof (elim disjE conjE)
    assume "holds pc = Some Reading" "holds pc' = None"
    moreover from this have "rw_data_lock s < LOCKED_WRITE"
      using fits by (simp add: fits_def word_fits_def)
    then have "l = Writing" using assms(3) by (cases l) (simp_all add: held_for_def write_bit)
    ultimately show ?thesis by blast
  qed (use assms(3,4) one_reader_more [of "rw_data_lock s"] in \<open>cases l; simp add: held_for_def write_bit UNLOCKED_def\<close>)+
  with release_effect [OF st fits] show ?thesis by blast
qed

end
