(* ===== verification/RwLock_Lists.thy ===== *)
theory RwLock_Lists
  imports RwLock_Safety
begin

section \<open>The four waiting lists of the read-write lock\<close>

text \<open>Each list follows the waiting-list protocol, so no waiting reader or writer is forgotten.\<close>

lemma rw_token_apart [simp]:
  "signalled K (set_locked (sync_list_of m) b s) c = signalled K s c"
  "signalled K (set_data (sync_list_of m) xs s) c = signalled K s c"
  "signalled K (set_locked (async_list_of m) b s) c = signalled K s c"
  "signalled K (set_data (async_list_of m) cs s) c = signalled K s c"
  "signalled K (s\<lparr>rw_data_lock := w\<rparr>) c = signalled K s c"
  "signalled K (s\<lparr>rw_inner := v\<rparr>) c = signalled K s c"
  "signalled K (s\<lparr>token := tk\<rparr>) c = signalled K s c"
  by (simp_all add: signalled_def)

lemma held_for_apart [simp]:
  "held_for l (set_locked (sync_list_of m) b s) = held_for l s"
  "held_for l (set_data (sync_list_of m) xs s) = held_for l s"
  "held_for l (set_locked (async_list_of m) b s) = held_for l s"
  "held_for l (set_data (async_list_of m) cs s) = held_for l s"
  "held_for l (s\<lparr>conts := k\<rparr>) = held_for l s"
  "held_for l (s\<lparr>token := tk\<rparr>) = held_for l s"
  by (simp_all add: held_for_def split: mode.splits)

lemma rw_sync_effect:
  assumes "rw_pstep K P i pc s = Some (s', pc')"
  shows "(\<forall>c. token s c \<longrightarrow> token s' c \<or> c = i \<and> \<not> at_rw (rw_sync_wait l) pc') \<and>
    rw_sync_listed l s \<subseteq> rw_sync_listed l s' \<union> of_rw (rw_to_wake l) pc' \<and>
    (\<forall>c\<in>of_rw (rw_to_wake l) pc. c \<in> of_rw (rw_to_wake l) pc' \<or> token s' c) \<and>
    (at_rw (rw_sync_wait l) pc' \<longrightarrow> at_rw (rw_sync_wait l) pc \<or> i \<in> rw_sync_listed l s') \<and>
    (rw_sync_listed l s = {} \<and> rw_sync_listed l s' \<noteq> {} \<longrightarrow> at_rw (rw_sync_push l) pc) \<and>
    (at_rw (rw_sync_push l) pc' \<longrightarrow> at_rw (rw_sync_push l) pc \<or> held_for l s') \<and>
    (at_rw (rw_sync_take l) pc \<longrightarrow> at_rw (rw_sync_take l) pc' \<or>
       rw_sync_listed l s' = {} \<and> at_rw (in_sync_section l) pc \<and> \<not> at_rw (rw_sync_push l) pc')"
  using assms
proof (cases rule: rw_pstep_cases)
  case (start m a f ops)
  then show ?thesis by simp
next
  case (spin m f p ops q)
  then show ?thesis
    by (cases p) (auto simp: rw_sync_listed_def dest!: try_stepD)
next
  case (block m f p ops q)
  then show ?thesis
    by (cases p) (auto simp: rw_sync_listed_def take_token_def split: if_splits dest!: try_stepD)
next
  case (async m f p ops q)
  then show ?thesis
    by (cases p) (auto simp: rw_sync_listed_def split: if_splits dest!: try_stepD)
next
  case (inside m f p ops q)
  then show ?thesis by (cases p) (auto simp: rw_sync_listed_def split: if_splits)
next
  case (wake m f k p ops q)
  then show ?thesis
    by (cases p) (auto simp: rw_sync_listed_def unpark_point_at sends_point_at set_token_def
        split: list.splits mode.splits if_splits)
qed

definition rw_async_listed :: "mode \<Rightarrow> ('d, 'k, 'z) rwlock_scheme \<Rightarrow> cid set" where
  "rw_async_listed l s = set (data (peek (async_list_of l) s))"

definition rw_async_waits :: "mode \<Rightarrow> 'd rwthread \<Rightarrow> tid \<Rightarrow> cid \<Rightarrow> bool" where
  "rw_async_waits l pc t c \<longleftrightarrow> c \<in> of_rw (rw_async_wait l) pc"

lemma rw_async_effect:
  assumes "rw_pstep K P i pc s = Some (s', pc')"
  shows "(\<forall>c. signalled K s c \<longrightarrow> signalled K s' c) \<and>
    rw_async_listed l s \<subseteq> rw_async_listed l s' \<union> of_rw (rw_to_send l) pc' \<and>
    (\<forall>c\<in>of_rw (rw_to_send l) pc. c \<in> of_rw (rw_to_send l) pc' \<or> signalled K s' c) \<and>
    (\<forall>c\<in>of_rw (rw_async_wait l) pc'. c \<in> of_rw (rw_async_wait l) pc \<or> c \<in> rw_async_listed l s') \<and>
    (rw_async_listed l s = {} \<and> rw_async_listed l s' \<noteq> {} \<longrightarrow> at_rw (rw_async_push l) pc) \<and>
    (at_rw (rw_async_push l) pc' \<longrightarrow> at_rw (rw_async_push l) pc \<or> held_for l s') \<and>
    (at_rw (rw_async_take l) pc \<longrightarrow> at_rw (rw_async_take l) pc' \<or>
       rw_async_listed l s' = {} \<and> at_rw (in_async_section l) pc \<and> \<not> at_rw (rw_async_push l) pc')"
  using assms
proof (cases rule: rw_pstep_cases)
  case (start m a f ops)
  then show ?thesis by simp
next
  case (spin m f p ops q)
  then show ?thesis
    by (cases p) (auto simp: rw_async_listed_def dest!: try_stepD)
next
  case (block m f p ops q)
  then show ?thesis
    by (cases p) (auto simp: rw_async_listed_def take_token_def split: if_splits dest!: try_stepD)
next
  case (async m f p ops q)
  then show ?thesis
    by (cases p) (auto simp: rw_async_listed_def split: if_splits dest!: try_stepD)
next
  case (inside m f p ops q)
  then show ?thesis by (cases p) (auto simp: rw_async_listed_def split: if_splits)
next
  case (wake m f k p ops q)
  then show ?thesis
    by (cases p) (auto simp: rw_async_listed_def unpark_point_at sends_point_at set_token_def
        split: list.splits mode.splits if_splits)
qed

lemma at_rw_push:
  "at_rw (rw_sync_push l) pc \<Longrightarrow> at_rw (in_sync_section l) pc"
  "at_rw (rw_sync_push l) pc \<Longrightarrow> \<not> at_rw (rw_sync_take l) pc"
  "at_rw (rw_async_push l) pc \<Longrightarrow> at_rw (in_async_section l) pc"
  "at_rw (rw_async_push l) pc \<Longrightarrow> \<not> at_rw (rw_async_take l) pc"
proof -
  have "in_sync_section l m p" "\<not> rw_sync_take l m p" if "rw_sync_push l m p" for m p
    using that by (cases p; simp)+
  then show "at_rw (rw_sync_push l) pc \<Longrightarrow> at_rw (in_sync_section l) pc"
    "at_rw (rw_sync_push l) pc \<Longrightarrow> \<not> at_rw (rw_sync_take l) pc"
    by (cases pc; auto)+
  have "in_async_section l m p" "\<not> rw_async_take l m p" if "rw_async_push l m p" for m p
    using that by (cases p; auto split: rapoint.splits)+
  then show "at_rw (rw_async_push l) pc \<Longrightarrow> at_rw (in_async_section l) pc"
    "at_rw (rw_async_push l) pc \<Longrightarrow> \<not> at_rw (rw_async_take l) pc"
    by (cases pc; auto)+
qed

interpretation rw_sync_waiting: waiting_list
  "rw_fit_step (K :: 'k cont_ops) P :: tid \<Rightarrow> 'd rwthread \<Rightarrow> ('d, 'k, 'z) rwlock_scheme \<Rightarrow> _"
  "held_for l" "rw_sync_listed l" token "rw_sync_waits l" "at_rw (in_sync_section l)"
  "at_rw (rw_sync_push l)" "at_rw (rw_sync_take l)" "of_rw (rw_to_wake l)" for K P l
proof unfold_locales
  fix i pc and s s' :: "('d, 'k, 'z) rwlock_scheme" and pc' c
  assume "rw_fit_step K P i pc s = Some (s', pc')"
  note st = rw_fit_stepD(1) [OF this] and held = held_for_step [OF rw_fit_stepD [OF this]]
  note e = rw_sync_effect [OF st, of l]
  show "token s' c" if "token s c" "rw_sync_waits l pc' i c"
    using e that unfolding rw_sync_waits_def by blast
  show "token s' c" if "token s c" "t \<noteq> i" "rw_sync_waits l pc2 t c" for t pc2
    using e that unfolding rw_sync_waits_def by blast
  show "c \<in> rw_sync_listed l s' \<or> c \<in> of_rw (rw_to_wake l) pc'" if "c \<in> rw_sync_listed l s"
    using e that by blast
  show "c \<in> of_rw (rw_to_wake l) pc' \<or> token s' c" if "c \<in> of_rw (rw_to_wake l) pc"
    using e that by blast
  show "rw_sync_waits l pc i c \<or> c \<in> rw_sync_listed l s'" if "rw_sync_waits l pc' i c"
    using e that unfolding rw_sync_waits_def by blast
  show "at_rw (rw_sync_take l) pc'" if "held_for l s" "\<not> held_for l s'"
    using held that by blast
  show "at_rw (rw_sync_push l) pc" if "rw_sync_listed l s = {}" "rw_sync_listed l s' \<noteq> {}"
    using e that by blast
  show "at_rw (rw_sync_push l) pc \<or> held_for l s'" if "at_rw (rw_sync_push l) pc'"
    using e that by blast
  show "at_rw (rw_sync_take l) pc' \<or> rw_sync_listed l s' = {} \<and> at_rw (in_sync_section l) pc \<and>
    \<not> at_rw (rw_sync_push l) pc'" if "at_rw (rw_sync_take l) pc"
    using e that by blast
qed (auto dest: at_rw_push)

interpretation rw_async_waiting: waiting_list
  "rw_fit_step (K :: 'k cont_ops) P :: tid \<Rightarrow> 'd rwthread \<Rightarrow> ('d, 'k, 'z) rwlock_scheme \<Rightarrow> _"
  "held_for l" "rw_async_listed l" "signalled K" "rw_async_waits l" "at_rw (in_async_section l)"
  "at_rw (rw_async_push l)" "at_rw (rw_async_take l)" "of_rw (rw_to_send l)" for K P l
proof unfold_locales
  fix i pc and s s' :: "('d, 'k, 'z) rwlock_scheme" and pc' c
  assume "rw_fit_step K P i pc s = Some (s', pc')"
  note st = rw_fit_stepD(1) [OF this] and held = held_for_step [OF rw_fit_stepD [OF this]]
  note e = rw_async_effect [OF st, of l]
  show "signalled K s' c" if "signalled K s c"
    using e that by blast
  then show "signalled K s' c" if "signalled K s c"
    using that by blast
  show "c \<in> rw_async_listed l s' \<or> c \<in> of_rw (rw_to_send l) pc'" if "c \<in> rw_async_listed l s"
    using e that by blast
  show "c \<in> of_rw (rw_to_send l) pc' \<or> signalled K s' c" if "c \<in> of_rw (rw_to_send l) pc"
    using e that by blast
  show "rw_async_waits l pc i c \<or> c \<in> rw_async_listed l s'" if "rw_async_waits l pc' i c"
    using e that unfolding rw_async_waits_def by blast
  show "at_rw (rw_async_take l) pc'" if "held_for l s" "\<not> held_for l s'"
    using held that by blast
  show "at_rw (rw_async_push l) pc" if "rw_async_listed l s = {}" "rw_async_listed l s' \<noteq> {}"
    using e that by blast
  show "at_rw (rw_async_push l) pc \<or> held_for l s'" if "at_rw (rw_async_push l) pc'"
    using e that by blast
  show "at_rw (rw_async_take l) pc' \<or> rw_async_listed l s' = {} \<and> at_rw (in_async_section l) pc \<and>
    \<not> at_rw (rw_async_push l) pc'" if "at_rw (rw_async_take l) pc"
    using e that by blast
qed (auto dest: at_rw_push)

end
