(* ===== verification/RwLock_Correct.thy ===== *)
theory RwLock_Correct
  imports RwLock_Lists "HOL-Library.Sublist"
begin

section \<open>What the read-write lock guarantees\<close>

text \<open>
  The invariant of any number of threads that share one read-write lock (its lock byte, its
  waiting lists, its data) and what follows from it: readers exclude writers, updates are
  serial, no wakeup is lost, and no call panics while there are at most 127 threads.
\<close>

subsection \<open>The waiting lists\<close>

definition rw_lists_inv :: "'k cont_ops \<Rightarrow> ('d, 'k, 'z) rwlock_scheme \<Rightarrow> (tid \<Rightarrow> 'd rwthread) \<Rightarrow> bool" where
  "rw_lists_inv K s pcs \<longleftrightarrow> (\<forall>l.
     excl (locked (peek (sync_list_of l) s)) (at_rw (in_sync_section l)) pcs \<and>
     excl (locked (peek (async_list_of l) s)) (at_rw (in_async_section l)) pcs \<and>
     covered (rw_sync_listed l) token (rw_sync_waits l) (of_rw (rw_to_wake l)) s pcs \<and>
     promised (held_for l) (rw_sync_listed l) (at_rw (rw_sync_push l)) (at_rw (rw_sync_take l)) s pcs \<and>
     covered (rw_async_listed l) (signalled K) (rw_async_waits l) (of_rw (rw_to_send l)) s pcs \<and>
     promised (held_for l) (rw_async_listed l) (at_rw (rw_async_push l)) (at_rw (rw_async_take l)) s pcs)"

lemma rw_lists_inv_step:
  assumes inv: "rw_lists_inv K s pcs" and fits: "fits (pcs i) s"
    and st: "rw_pstep K P i (pcs i) s = Some (s', pc')"
  shows "rw_lists_inv K s' (pcs(i := pc'))"
  unfolding rw_lists_inv_def
proof
  fix l
  from fits st have fst: "rw_fit_step K P i (pcs i) s = Some (s', pc')" by (simp add: rw_fit_step_def)
  note i = inv [unfolded rw_lists_inv_def, rule_format, of l]
  note flags = list_flags [OF st, of l]
  show "excl (locked (peek (sync_list_of l) s')) (at_rw (in_sync_section l)) (pcs(i := pc')) \<and>
    excl (locked (peek (async_list_of l) s')) (at_rw (in_async_section l)) (pcs(i := pc')) \<and>
    covered (rw_sync_listed l) token (rw_sync_waits l) (of_rw (rw_to_wake l)) s' (pcs(i := pc')) \<and>
    promised (held_for l) (rw_sync_listed l) (at_rw (rw_sync_push l)) (at_rw (rw_sync_take l)) s' (pcs(i := pc')) \<and>
    covered (rw_async_listed l) (signalled K) (rw_async_waits l) (of_rw (rw_to_send l)) s' (pcs(i := pc')) \<and>
    promised (held_for l) (rw_async_listed l) (at_rw (rw_async_push l)) (at_rw (rw_async_take l)) s' (pcs(i := pc'))"
    using i flags fst
    by (meson excl_step rw_sync_waiting.covered_step rw_sync_waiting.promised_step
        rw_async_waiting.covered_step rw_async_waiting.promised_step)
qed

text \<open>What the environment may not touch.\<close>

lemma rw_env_same:
  fixes s :: "('d, 'k, 'z) rwlock_scheme"
  assumes "runtime_env K s s'"
  shows "rw_data_lock s' = rw_data_lock s" "rw_inner s' = rw_inner s"
    "peek (sync_list_of l) s' = peek (sync_list_of l) s"
    "peek (async_list_of l) s' = peek (async_list_of l) s"
    "token s t \<Longrightarrow> token s' t" "signalled K s c \<Longrightarrow> signalled K s' c"
  using assms
  by (cases; cases l; auto simp: set_token_def signalled_def cont_lawsD)+

lemma rw_lists_inv_env:
  assumes inv: "rw_lists_inv K s pcs" and env: "runtime_env K s s'"
  shows "rw_lists_inv K s' pcs"
proof -
  note same = rw_env_same [OF env]
  have "held_for l s' = held_for l s" "rw_sync_listed l s' = rw_sync_listed l s"
    "rw_async_listed l s' = rw_async_listed l s" for l
    by (simp_all add: held_for_def rw_sync_listed_def rw_async_listed_def same split: mode.splits)
  with inv same show ?thesis
    unfolding rw_lists_inv_def covered_def promised_def by metis
qed

subsection \<open>The data\<close>

fun rw_update :: "'d rw_op \<Rightarrow> ('d \<Rightarrow> 'd) list" where
  "rw_update (RwOp m a f) = (if m = Writing then [f] else [])"

fun rw_written :: "'d rwpoint \<Rightarrow> bool" where
  "rw_written (RD p) = (p = WrDrop)"
| "rw_written (RW k p) = True"
| "rw_written (RX p) = (case p of Broken m \<Rightarrow> True | _ \<Rightarrow> False)"
| "rw_written _ = False"

fun rw_updates_left :: "'d rwthread \<Rightarrow> ('d \<Rightarrow> 'd) list" where
  "rw_updates_left (RwIdle ops) = concat (map rw_update ops)"
| "rw_updates_left (RwAt m f p ops) =
     (if m = Reading \<or> rw_written p then [] else [f]) @ concat (map rw_update ops)"

fun rw_unconditional :: "'d rw_op \<Rightarrow> bool" where
  "rw_unconditional (RwOp m a f) = (a \<noteq> RwTry)"

fun rw_unconditional_thread :: "'d rwthread \<Rightarrow> bool" where
  "rw_unconditional_thread (RwIdle ops) = (\<forall>p\<in>set ops. rw_unconditional p)"
| "rw_unconditional_thread (RwAt m f p ops) =
     (p \<noteq> RS RsTry \<and> (\<forall>p\<in>set ops. rw_unconditional p))"

text \<open>A thread in a critical section is in the one of its mode.\<close>

fun rw_mode_ok :: "'d rwthread \<Rightarrow> bool" where
  "rw_mode_ok (RwAt m f (RD p) ops) = (point_holds m (RD p :: 'd rwpoint) = Some m)"
| "rw_mode_ok _ = True"

fun rw_writes :: "'d rwthread \<Rightarrow> ('d \<Rightarrow> 'd) option" where
  "rw_writes (RwAt m f (RD p) ops) = (case p of WrWrite v \<Rightarrow> Some f | _ \<Rightarrow> None)"
| "rw_writes _ = None"

lemma rw_data_effect:
  assumes "rw_pstep K P i pc s = Some (s', pc')" and "rw_mode_ok pc" and "fits pc s"
  shows "(case rw_writes pc of
      Some f \<Rightarrow> rw_updates_left pc = f # rw_updates_left pc' \<and> rw_inner s' = f (rw_inner s) \<and>
        holds pc = Some Writing
    | None \<Rightarrow> rw_inner s' = rw_inner s \<and>
        (rw_updates_left pc' = rw_updates_left pc \<or>
         \<not> rw_unconditional_thread pc \<and> rw_updates_left pc' = tl (rw_updates_left pc))) \<and>
    (rw_unconditional_thread pc \<longrightarrow> rw_unconditional_thread pc') \<and>
    rw_read_value pc' \<in> {None, Some (rw_inner s')} \<and> rw_mode_ok pc'"
  using assms(1)
proof (cases rule: rw_pstep_cases)
  case (start m a f ops)
  then show ?thesis by (cases a; cases m) auto
next
  case (spin m f p ops q)
  then show ?thesis by (cases p; cases m) (auto dest!: try_stepD)
next
  case (block m f p ops q)
  then show ?thesis
    by (cases p; cases m) (auto simp: take_token_def split: if_splits dest!: try_stepD)
next
  case (async m f p ops q)
  then show ?thesis
    by (cases p; cases m) (auto split: if_splits dest!: try_stepD)
next
  case (inside m f p ops q)
  with assms(2,3) show ?thesis by (cases p) (auto simp: fits_def word_fits_def split: if_splits)
next
  case (wake m f k p ops q)
  then show ?thesis
    by (cases p) (auto simp: unpark_point_at sends_point_at set_token_def split: list.splits mode.splits)
qed

definition rw_log_of ::
  "(tid \<Rightarrow> 'd rw_op list) \<Rightarrow> (tid \<Rightarrow> 'd rwthread) \<Rightarrow> 'd log \<Rightarrow> bool" where
  "rw_log_of ops pcs log \<longleftrightarrow>
     (\<forall>t. subseq (by_thread t log @ rw_updates_left (pcs t)) (concat (map rw_update (ops t))) \<and>
       ((\<forall>p\<in>set (ops t). rw_unconditional p) \<longrightarrow>
          rw_unconditional_thread (pcs t) \<and>
          by_thread t log @ rw_updates_left (pcs t) = concat (map rw_update (ops t))))"

definition rw_data_inv ::
  "'d \<Rightarrow> (tid \<Rightarrow> 'd rw_op list) \<Rightarrow> ('d, 'k, 'z) rwlock_scheme \<Rightarrow> (tid \<Rightarrow> 'd rwthread) \<Rightarrow> bool" where
  "rw_data_inv v ops s pcs \<longleftrightarrow>
     word_inv (rw_data_lock s) pcs \<and> (\<forall>t. rw_mode_ok (pcs t)) \<and>
     (\<forall>t. rw_read_value (pcs t) \<in> {None, Some (rw_inner s)}) \<and>
     (\<exists>log. rw_inner s = apply_log log v \<and> rw_log_of ops pcs log)"

lemma rw_data_inv_fits: "rw_data_inv v ops s pcs \<Longrightarrow> fits (pcs t) s"
  by (auto simp: rw_data_inv_def fits_def intro: word_inv_fits)

lemma rw_subseq_tl: "subseq (xs @ ys) zs \<Longrightarrow> subseq (xs @ tl ys) zs"
  by (erule subseq_order.trans [rotated], rule list_emb_append_mono) (cases ys; auto)+

lemma rw_log_same:
  assumes log: "rw_log_of ops pcs log"
    and "rw_updates_left pc' = rw_updates_left (pcs i) \<or>
      \<not> rw_unconditional_thread (pcs i) \<and> rw_updates_left pc' = tl (rw_updates_left (pcs i))"
    and "rw_unconditional_thread (pcs i) \<longrightarrow> rw_unconditional_thread pc'"
  shows "rw_log_of ops (pcs(i := pc')) log"
  using assms(2,3) log [unfolded rw_log_of_def, rule_format, of i] log rw_subseq_tl
  unfolding rw_log_of_def by (metis fun_upd_apply)

lemma rw_log_append:
  assumes log: "rw_log_of ops pcs log"
    and "rw_updates_left (pcs i) = f # rw_updates_left pc'"
    and "rw_unconditional_thread (pcs i) \<longrightarrow> rw_unconditional_thread pc'"
  shows "rw_log_of ops (pcs(i := pc')) (log @ [(i, f)])"
proof -
  have "by_thread i (log @ [(i, f)]) @ rw_updates_left pc' = by_thread i log @ rw_updates_left (pcs i)"
    by (simp add: assms(2))
  then show ?thesis
    using assms(3) log unfolding rw_log_of_def by (auto simp del: append_assoc)
qed

text \<open>A thread that has read the data holds the lock, so nobody else writes.\<close>

lemma rw_read_value_holds: "rw_read_value pc = Some v \<Longrightarrow> holds pc \<noteq> None"
  by (cases pc) (auto split: rwpoint.splits rdpoint.splits)

lemma writer_alone:
  assumes "word_inv w pcs" and "holds (pcs i) = Some Writing" and "holds (pcs t) \<noteq> None"
  shows "t = i"
proof -
  have "i \<in> writers pcs" using assms(2) by (simp add: writers_def)
  with assms(1) have "writers pcs = {i}" "readers pcs = {}" by (auto simp: word_inv_def)
  with assms(3) show ?thesis by (cases "holds (pcs t)"; cases "the (holds (pcs t))") (auto simp: writers_def readers_def)
qed

lemma rw_data_inv_step:
  assumes inv: "rw_data_inv v ops s pcs" and st: "rw_pstep K P i (pcs i) s = Some (s', pc')"
  shows "rw_data_inv v ops s' (pcs(i := pc'))"
proof -
  from inv obtain log where log: "rw_inner s = apply_log log v" "rw_log_of ops pcs log"
    and w: "word_inv (rw_data_lock s) pcs" and m: "rw_mode_ok (pcs t)"
    and rd: "rw_read_value (pcs t) \<in> {None, Some (rw_inner s)}" for t
    unfolding rw_data_inv_def by blast
  note fits = rw_data_inv_fits [OF inv]
  note e = rw_data_effect [OF st m fits]
  have "word_inv (rw_data_lock s') (pcs(i := pc'))"
    by (rule word_inv_step [OF w word_effect [OF st fits]])
  moreover have "rw_read_value ((pcs(i := pc')) t) \<in> {None, Some (rw_inner s')}" for t
  proof (cases "t = i \<or> rw_read_value (pcs t) = None")
    case True
    with e show ?thesis by auto
  next
    case False
    then have "holds (pcs i) \<noteq> Some Writing"
      using writer_alone [OF w, of i t] rw_read_value_holds by (metis not_None_eq)
    with e have "rw_inner s' = rw_inner s" by (auto split: option.splits)
    with rd False show ?thesis by auto
  qed
  moreover have "\<exists>log. rw_inner s' = apply_log log v \<and> rw_log_of ops (pcs(i := pc')) log"
  proof (cases "rw_writes (pcs i)")
    case None
    with e log show ?thesis by (auto intro!: rw_log_same)
  next
    case (Some f)
    with e log show ?thesis by (intro exI [of _ "log @ [(i, f)]"]) (auto intro!: rw_log_append)
  qed
  ultimately show ?thesis using m e unfolding rw_data_inv_def by auto
qed

subsection \<open>Panics\<close>

text \<open>At most 127 threads use the lock: one less than the readers the lock word can count.\<close>

definition active :: "(tid \<Rightarrow> 'd rw_op list) \<Rightarrow> tid set" where
  "active ops = {t. ops t \<noteq> []}"

definition few_threads :: "(tid \<Rightarrow> 'd rw_op list) \<Rightarrow> bool" where
  "few_threads ops \<longleftrightarrow> finite (active ops) \<and> card (active ops) \<le> 127"

fun rw_may_block :: "'d rw_op \<Rightarrow> bool" where
  "rw_may_block (RwOp m a f) = (a = RwBlock)"

fun rw_blocking :: "'d rwthread \<Rightarrow> bool" where
  "rw_blocking (RwIdle ops) = (\<exists>p\<in>set ops. rw_may_block p)"
| "rw_blocking (RwAt m f p ops) =
     ((case p of RB b \<Rightarrow> True | RX x \<Rightarrow> x = ParkStop | _ \<Rightarrow> False) \<or> (\<exists>p\<in>set ops. rw_may_block p))"

fun rw_park_stopped :: "'d rwthread \<Rightarrow> bool" where
  "rw_park_stopped (RwAt m f p ops) = (p = RX ParkStop)"
| "rw_park_stopped _ = False"

fun rw_crowd_stopped :: "'d rwthread \<Rightarrow> bool" where
  "rw_crowd_stopped (RwAt m f p ops) = (\<exists>x. p = RX x \<and> x \<noteq> ParkStop)"
| "rw_crowd_stopped _ = False"

lemma rw_panic_effect:
  assumes "rw_pstep K P i pc s = Some (s', pc')" and "fits pc s"
  shows "(can_block P \<longrightarrow> \<not> rw_park_stopped pc') \<and>
    (\<not> can_block P \<and> \<not> rw_blocking pc \<longrightarrow> \<not> rw_blocking pc') \<and>
    (rw_crowd_stopped pc' \<longrightarrow> rw_data_lock s = LOCKED_WRITE - 1 \<and> holds pc = None) \<and> pc \<noteq> RwIdle []"
  using assms(1)
proof (cases rule: rw_pstep_cases)
  case (start m a f ops)
  then show ?thesis by (cases a) auto
next
  case (spin m f p ops q)
  then show ?thesis by (cases p; cases m) (auto dest!: try_stepD)
next
  case (block m f p ops q)
  then show ?thesis by (cases p; cases m) (auto split: if_splits dest!: try_stepD)
next
  case (async m f p ops q)
  then show ?thesis by (cases p; cases m) (auto split: if_splits dest!: try_stepD)
next
  case (inside m f p ops q)
  with assms(2) show ?thesis by (cases p) (auto simp: fits_def word_fits_def)
next
  case (wake m f k p ops q)
  then show ?thesis
    by (cases p) (auto simp: unpark_point_at sends_point_at split: list.splits mode.splits)
qed

definition rw_panic_inv :: "platform \<Rightarrow> (tid \<Rightarrow> 'd rw_op list) \<Rightarrow> (tid \<Rightarrow> 'd rwthread) \<Rightarrow> bool" where
  "rw_panic_inv P ops pcs \<longleftrightarrow> (\<forall>t.
     (can_block P \<longrightarrow> \<not> rw_park_stopped (pcs t)) \<and>
     (\<not> can_block P \<and> (\<forall>p\<in>set (ops t). \<not> rw_may_block p) \<longrightarrow> \<not> rw_blocking (pcs t)) \<and>
     (pcs t \<noteq> RwIdle [] \<longrightarrow> t \<in> active ops) \<and>
     (few_threads ops \<longrightarrow> \<not> rw_crowd_stopped (pcs t)))"

lemma room_for_readers:
  assumes word: "word_inv w pcs" and few: "few_threads ops"
    and act: "\<And>t. pcs t \<noteq> RwIdle [] \<Longrightarrow> t \<in> active ops"
    and i: "pcs i \<noteq> RwIdle []" "holds (pcs i) = None"
  shows "w \<noteq> LOCKED_WRITE - 1"
proof
  assume "w = LOCKED_WRITE - 1"
  then have "unat w = 127" and "w \<noteq> LOCKED_WRITE" by (simp_all add: LOCKED_WRITE_def)
  with word have "card (readers pcs) = 127" by (auto simp: word_inv_def)
  moreover have "readers pcs \<subseteq> active ops - {i}"
    using act i(2) by (force simp: readers_def)
  then have "card (readers pcs) \<le> card (active ops - {i})"
    using few by (intro card_mono) (auto simp: few_threads_def)
  moreover have "card (active ops - {i}) < 127"
    using few act [OF i(1)] card_Diff1_less [of "active ops" i] by (simp add: few_threads_def)
  ultimately show False by simp
qed

lemma rw_panic_inv_step:
  assumes inv: "rw_panic_inv P ops pcs" and data: "rw_data_inv v ops s pcs"
    and st: "rw_pstep K P i (pcs i) s = Some (s', pc')"
  shows "rw_panic_inv P ops (pcs(i := pc'))"
proof -
  note e = rw_panic_effect [OF st rw_data_inv_fits [OF data]]
  have "\<not> rw_crowd_stopped pc'" if "few_threads ops"
  proof
    assume "rw_crowd_stopped pc'"
    with e have "rw_data_lock s = LOCKED_WRITE - 1" "holds (pcs i) = None" "pcs i \<noteq> RwIdle []" by auto
    moreover have "word_inv (rw_data_lock s) pcs" using data by (simp add: rw_data_inv_def)
    ultimately show False
      using room_for_readers [OF _ that, of _ pcs i] inv unfolding rw_panic_inv_def by blast
  qed
  with inv e show ?thesis unfolding rw_panic_inv_def by auto
qed

subsection \<open>The whole invariant\<close>

definition rwlock_inv ::
  "'k cont_ops \<Rightarrow> platform \<Rightarrow> 'd \<Rightarrow> (tid \<Rightarrow> 'd rw_op list) \<Rightarrow> ('d, 'k, 'z) rwlock_scheme \<Rightarrow>
   (tid \<Rightarrow> 'd rwthread) \<Rightarrow> bool" where
  "rwlock_inv K P v ops s pcs \<longleftrightarrow>
     rw_lists_inv K s pcs \<and> rw_data_inv v ops s pcs \<and> rw_panic_inv P ops pcs"

interpretation rwlock_protocol: pc_invariant
  "rw_code K P :: tid \<Rightarrow> 'd rwthread \<Rightarrow> (('d, 'k, 'z) rwlock_scheme, unit) prog"
  "rw_pstep K P" "runtime_env K" "rwlock_inv K P v ops" for K P v ops
proof unfold_locales
  fix s s' :: "('d, 'k, 'z) rwlock_scheme" and pcs :: "tid \<Rightarrow> 'd rwthread" and i pc'
  assume inv: "rwlock_inv K P v ops s pcs" and st: "rw_pstep K P i (pcs i) s = Some (s', pc')"
  then show "rwlock_inv K P v ops s' (pcs(i := pc'))"
    unfolding rwlock_inv_def
    by (meson rw_lists_inv_step rw_data_inv_fits rw_data_inv_step rw_panic_inv_step)
next
  fix s s' :: "('d, 'k, 'z) rwlock_scheme" and pcs :: "tid \<Rightarrow> 'd rwthread"
  assume "rwlock_inv K P v ops s pcs" "runtime_env K s s'"
  then show "rwlock_inv K P v ops s' pcs"
    unfolding rwlock_inv_def rw_data_inv_def by (auto simp: rw_env_same(1,2) intro: rw_lists_inv_env)
qed

definition rwlock_system ::
  "'k cont_ops \<Rightarrow> platform \<Rightarrow> 'k runtime \<Rightarrow> 'd \<Rightarrow> (tid \<Rightarrow> 'd rw_op list) \<Rightarrow>
   (('d, 'k) rwlock, unit) config" where
  "rwlock_system K P r v ops = (rwlock_new r v, \<lambda>t. rw_client K P t (ops t))"

lemma rwlock_new_simps [simp]:
  "rw_inner (rwlock_new r v) = v" "rw_data_lock (rwlock_new r v) = UNLOCKED"
  "peek (sync_list_of l) (rwlock_new r v) = spinlock_new []"
  "peek (async_list_of l) (rwlock_new r v) = spinlock_new []"
  "token (rwlock_new r v) = token r" "clock (rwlock_new r v) = clock r" "conts (rwlock_new r v) = conts r"
  by (cases l; simp add: rwlock_new_def)+

lemma rwlock_inv_start: "rwlock_inv K P v ops (rwlock_new r v) (\<lambda>t. RwIdle (ops t))"
proof -
  have "rw_lists_inv K (rwlock_new r v) (\<lambda>t. RwIdle (ops t))"
    by (auto simp: rw_lists_inv_def covered_def promised_def rw_sync_listed_def rw_async_listed_def
        rw_sync_waits_def rw_async_waits_def intro!: excl_none)
  moreover have "rw_data_inv v ops (rwlock_new r v) (\<lambda>t. RwIdle (ops t))"
    by (auto simp: rw_data_inv_def word_inv_def readers_def writers_def rw_log_of_def UNLOCKED_def
        intro!: exI [of _ "[]"])
  moreover have "rw_panic_inv P ops (\<lambda>t. RwIdle (ops t))"
    by (auto simp: rw_panic_inv_def active_def)
  ultimately show ?thesis by (simp add: rwlock_inv_def)
qed

lemma rwlock_reach_inv:
  assumes "sys_reach (runtime_env K) (rwlock_system K P r v ops) (s, ps)"
  obtains pcs where "ps = (\<lambda>t. rw_code K P t (pcs t))" and "rwlock_inv K P v ops s pcs"
proof -
  from assms have "sys_reach (runtime_env K)
      (rwlock_new r v, \<lambda>t. rw_code K P t (RwIdle (ops t))) (s, ps)"
    by (simp add: rwlock_system_def)
  from this rwlock_inv_start that show ?thesis by (rule rwlock_protocol.reach_inv)
qed

subsection \<open>Threads that have stopped\<close>

lemma rwthread_cases:
  obtains (finished) "pc = RwIdle []" | (next_op) m a f ops where "pc = RwIdle (RwOp m a f # ops)"
  | (dead) m f x ops where "pc = RwAt m f (RX x) ops"
  | (at) m f p ops where "pc = RwAt m f p ops" "\<not> rw_stopped p"
proof (cases pc)
  case (RwIdle ops)
  then show ?thesis using finished next_op by (cases ops rule: list.exhaust) (auto intro: rw_op.exhaust)
next
  case (RwAt m f p ops)
  then show ?thesis using dead at by (cases p) auto
qed

lemma rw_code_stopped:
  assumes "\<not> running (rw_code K P t pc)"
  obtains (finished) "pc = RwIdle []"
  | (dead) m f x ops where "pc = RwAt m f (RX x) ops"
  using assms by (cases pc rule: rwthread_cases) (auto simp: rw_point_running)

lemma rw_code_Return:
  assumes "(rw_code K P t pc :: (('d, 'k, 'z) rwlock_scheme, unit) prog) = Return ()"
  shows "pc = RwIdle []"
proof -
  have "\<not> running (rw_code K P t pc :: (('d, 'k, 'z) rwlock_scheme, unit) prog)"
    unfolding assms by simp
  then show ?thesis by (rule rw_code_stopped) (use assms in simp_all)
qed

lemma rw_code_Panic:
  assumes "(rw_code K P t pc :: (('d, 'k, 'z) rwlock_scheme, unit) prog) = Panic msg"
  shows "rw_park_stopped pc \<or> rw_crowd_stopped pc"
proof -
  have "\<not> running (rw_code K P t pc :: (('d, 'k, 'z) rwlock_scheme, unit) prog)"
    unfolding assms by simp
  then show ?thesis by (rule rw_code_stopped) (use assms in simp_all)
qed

lemma rw_point_blocked:
  assumes "rw_point_step K P t m f p s = None"
  shows "(rw_stopped p \<or> rw_sync_wait m m p \<and> \<not> token s t \<or>
      (\<exists>c\<in>rw_async_wait m m p. \<not> k_ready K c (conts s))) \<and>
    point_holds m p = None \<and> \<not> rw_sync_take l m p \<and> \<not> rw_async_take l m p \<and>
    rw_to_wake l m p = {} \<and> rw_to_send l m p = {}"
proof (cases p)
  case (RS q) with assms show ?thesis by (cases q) auto
next
  case (RB q) with assms show ?thesis by (cases q) (auto split: if_splits)
next
  case (RA q) with assms show ?thesis by (cases q) (auto split: if_splits)
next
  case (RD q) with assms show ?thesis by (cases q) auto
next
  case (RW k q) with assms show ?thesis by (cases q) auto
qed simp

lemma rw_blocked:
  assumes "rw_pstep K P t pc s = None" and "\<not> rw_park_stopped pc" and "\<not> rw_crowd_stopped pc"
  shows "(pc = RwIdle [] \<or> (\<exists>l. rw_sync_waits l pc t t \<and> \<not> token s t) \<or>
      (\<exists>l c. rw_async_waits l pc t c \<and> \<not> k_ready K c (conts s))) \<and>
    holds pc = None \<and> \<not> at_rw (rw_sync_take l) pc \<and> \<not> at_rw (rw_async_take l) pc \<and>
    of_rw (rw_to_wake l) pc = {} \<and> of_rw (rw_to_send l) pc = {}"
proof (cases pc rule: rwthread_cases)
  case (at m f p ops)
  with assms(1) have "rw_point_step K P t m f p s = None" by simp
  from rw_point_blocked [OF this, of l] at show ?thesis
    by (auto simp: rw_sync_waits_def rw_async_waits_def)
next
  case (dead m f x ops)
  with assms show ?thesis by (cases x) auto
qed (use assms in auto)

lemma rwlock_stuck:
  assumes laws: "cont_laws K" and lists: "rw_lists_inv K s pcs" and word: "word_inv (rw_data_lock s) pcs"
    and stuck: "\<And>t. rw_pstep K P t (pcs t) s = None"
    and alive: "\<And>t. \<not> rw_park_stopped (pcs t)" "\<And>t. \<not> rw_crowd_stopped (pcs t)"
  shows "pcs t = RwIdle []"
proof -
  note none = rw_blocked [OF stuck alive]
  from none have "readers pcs = {}" "writers pcs = {}" by (simp_all add: readers_def writers_def)
  with word have "rw_data_lock s = 0" by (auto simp: word_inv_def unat_eq_0)
  then have free: "\<not> held_for l s" for l by (cases l) (simp_all add: held_for_def UNLOCKED_def)
  note i = lists [unfolded rw_lists_inv_def, rule_format]
  have "token s t" if "rw_sync_waits l (pcs t) t t" for l
    using rw_sync_waiting.not_forgotten [of l s pcs t t] i [of l] that free none [where l = l] by blast
  moreover have "signalled K s c" if "rw_async_waits l (pcs t) t c" for l c
    using rw_async_waiting.not_forgotten [of l K s pcs t c] i [of l] that free none [where l = l] by blast
  ultimately show ?thesis
    using none [where t = t and l = Reading] laws by (auto simp: signalled_def)
qed

subsection \<open>Guarantees for any number of threads\<close>

text \<open>C6: readers and writers exclude each other. In every reachable state there is at most one
  writer, and none while there are readers; there are never more than 127 readers; and the lock
  word says exactly which of the two there is and how many readers.\<close>

theorem rwlock_exclusion:
  assumes "sys_reach (runtime_env K) (rwlock_system K P r v ops) (s, ps)"
  shows "\<exists>pcs. ps = (\<lambda>t. rw_code K P t (pcs t)) \<and> finite (readers pcs) \<and>
    ((\<exists>t. writers pcs = {t}) \<and> readers pcs = {} \<and> rw_data_lock s = LOCKED_WRITE \<or>
     writers pcs = {} \<and> card (readers pcs) \<le> 127 \<and> unat (rw_data_lock s) = card (readers pcs))"
  using assms
  by (rule rwlock_reach_inv) (auto simp: rwlock_inv_def rw_data_inv_def word_inv_def)

text \<open>C8: no update is lost, and no read is torn. When all threads have returned, the data is the
  result of running whole updates of the writers one after the other, each thread's in its own
  order; a thread that never uses \<open>try_lock\<close> has made all its updates; the lock is free. (A
  reader that saw two different values while it held the lock would have panicked.)\<close>

theorem rwlock_serializable:
  assumes "sys_reach (runtime_env K) (rwlock_system K P r v ops) (s, ps)"
    and "\<forall>t. ps t = Return ()"
  shows "(\<exists>log. rw_inner s = apply_log log v \<and>
      (\<forall>t. subseq (by_thread t log) (concat (map rw_update (ops t))) \<and>
        ((\<forall>p\<in>set (ops t). rw_unconditional p) \<longrightarrow>
          by_thread t log = concat (map rw_update (ops t))))) \<and>
    rw_data_lock s = UNLOCKED"
  using assms(1)
proof (rule rwlock_reach_inv)
  fix pcs assume ps: "ps = (\<lambda>t. rw_code K P t (pcs t))" and inv: "rwlock_inv K P v ops s pcs"
  have idle: "pcs t = RwIdle []" for t
    using assms(2) [rule_format, of t] unfolding ps by (rule rw_code_Return)
  then have "readers pcs = {}" "writers pcs = {}" by (simp_all add: readers_def writers_def)
  then have "rw_data_lock s = UNLOCKED"
    using inv by (auto simp: rwlock_inv_def rw_data_inv_def word_inv_def UNLOCKED_def unat_eq_0)
  with inv idle show ?thesis by (auto simp: rwlock_inv_def rw_data_inv_def rw_log_of_def)
qed


text \<open>C2: no lost wakeup and no deadlock. If at most 127 threads use the lock and no thread can
  move any more, then every thread has completed all its operations: no reader and no writer,
  blocking or asynchronous, is left waiting.\<close>

theorem rwlock_no_deadlock:
  assumes "cont_laws K" and "few_threads ops"
    and "can_block P \<or> (\<forall>t. \<forall>p\<in>set (ops t). \<not> rw_may_block p)"
    and "sys_reach (runtime_env K) (rwlock_system K P r v ops) (s, ps)"
    and "stuck (s, ps)"
  shows "ps t = Return ()"
  using assms(4)
proof (rule rwlock_reach_inv)
  fix pcs assume ps: "ps = (\<lambda>t. rw_code K P t (pcs t))" and inv: "rwlock_inv K P v ops s pcs"
  have st: "rw_pstep K P t (pcs t) s = None" for t
    using assms(5) ps rw_code_step [of K P t "pcs t" s] by (simp add: stuck_def)
  have alive: "\<not> rw_park_stopped (pcs t)" "\<not> rw_crowd_stopped (pcs t)" for t
    using inv assms(2,3) by (cases "pcs t" rule: rw_park_stopped.cases;
        auto simp: rwlock_inv_def rw_panic_inv_def dest!: spec [of _ t])+
  have "pcs t = RwIdle []"
    using rwlock_stuck [OF assms(1) _ _ st alive] inv by (auto simp: rwlock_inv_def rw_data_inv_def)
  then show ?thesis using ps by simp
qed

end
