(* ===== verification/RwLock_Runs.thy ===== *)
theory RwLock_Runs
  imports RwLock_Correct
begin

section \<open>Calls of the read-write lock that run alone\<close>

subsection \<open>Releasing\<close>

text \<open>The state after the waiters of one mode were woken.\<close>

definition rw_woken :: "'k cont_ops \<Rightarrow> mode \<Rightarrow> ('d, 'k, 'z) rwlock_scheme \<Rightarrow> ('d, 'k, 'z) rwlock_scheme" where
  "rw_woken K m s = (case m of
       Reading \<Rightarrow> s\<lparr>
         token := (\<lambda>t. token s t \<or> t \<in> set (data (waiting_sync_read_threads s))),
         conts := fold (k_send K) (data (waiting_async_read_threads s)) (conts s),
         waiting_sync_read_threads := spinlock_new [], waiting_async_read_threads := spinlock_new []\<rparr>
     | Writing \<Rightarrow> s\<lparr>
         token := (\<lambda>t. token s t \<or> t \<in> set (data (waiting_sync_write_threads s))),
         conts := fold (k_send K) (data (waiting_async_write_threads s)) (conts s),
         waiting_sync_write_threads := spinlock_new [], waiting_async_write_threads := spinlock_new []\<rparr>)"

lemma ends_rw_lists:
  assumes "\<not> locked (peek (sync_list_of m) s)" and "\<not> locked (peek (async_list_of m) s)"
    and rest: "ends (rw_then K m) (rw_woken K m s) q s2"
  shows "ends (rw_wake K m) s q s2"
proof -
  let ?s1 = "set_locked (sync_list_of m) False (set_data (sync_list_of m) [] (set_locked (sync_list_of m) True s))"
  let ?s2 = "?s1\<lparr>token := (\<lambda>t. token ?s1 t \<or> t \<in> set (data (peek (sync_list_of m) s)))\<rparr>"
  let ?s3 = "set_locked (async_list_of m) False (set_data (async_list_of m) [] (set_locked (async_list_of m) True ?s2))"
  let ?s4 = "?s3\<lparr>conts := fold (k_send K) (data (peek (async_list_of m) s)) (conts ?s3)\<rparr>"
  have "?s4 = rw_woken K m s"
    by (cases m) (simp_all add: rw_woken_def)
  with rest have "ends (rw_sends K m (data (peek (async_list_of m) s))) ?s3 q s2"
    unfolding rw_sends_def by (intro ends_bind [OF ends_send_all]) simp
  then have "ends (rw_wake_async K m) ?s2 q s2"
    unfolding rw_wake_folds(8) [symmetric]
    by (rule ends_bind [OF ends_with_mut [OF _ ends_one], rotated 2])
      (use assms(2) in simp_all)
  then have "ends (rw_unparks K m (data (peek (sync_list_of m) s))) ?s1 q s2"
    unfolding rw_unparks_def by (rule ends_bind [OF ends_unpark_all])
  then show ?thesis
    unfolding rw_wake_folds(7) [symmetric]
    by (rule ends_bind [OF ends_with_mut [OF _ ends_one], rotated 2])
      (use assms(1) in simp_all)
qed

definition rw_lists_free :: "('d, 'k, 'z) rwlock_scheme \<Rightarrow> bool" where
  "rw_lists_free s \<longleftrightarrow>
     \<not> locked (waiting_sync_read_threads s) \<and> \<not> locked (waiting_sync_write_threads s) \<and>
     \<not> locked (waiting_async_read_threads s) \<and> \<not> locked (waiting_async_write_threads s)"

lemma ends_did_unlock_read:
  assumes "rw_lists_free s"
  shows "ends (did_unlock_read K) s (Return ()) (rw_woken K Writing s)"
proof -
  have "ends (rw_wake K Writing) s (Return ()) (rw_woken K Writing s)"
    by (rule ends_rw_lists) (use assms in \<open>simp_all add: rw_lists_free_def rw_then_def ends_Return\<close>)
  then show ?thesis by (simp add: rw_wake_def)
qed

lemma rw_woken_free: "rw_lists_free s \<Longrightarrow> rw_lists_free (rw_woken K m s)"
  by (cases m) (simp_all add: rw_lists_free_def rw_woken_def)

lemma ends_did_unlock_write:
  assumes "rw_lists_free s"
  shows "ends (did_unlock_write K) s (Return ()) (rw_woken K Writing (rw_woken K Reading s))"
proof -
  have "ends (rw_wake K Reading) s (Return ()) (rw_woken K Writing (rw_woken K Reading s))"
    by (rule ends_rw_lists)
      (use assms ends_did_unlock_read [OF rw_woken_free [OF assms]] in
        \<open>simp_all add: rw_lists_free_def rw_then_def\<close>)
  then show ?thesis by (simp add: rw_wake_def)
qed

lemma ends_read_guard_drop:
  assumes "rw_lists_free s" and "0 < rw_data_lock s"
  shows "ends (read_guard_drop K) s (Return ()) (rw_woken K Writing (s\<lparr>rw_data_lock := rw_data_lock s - 1\<rparr>))"
  by (rule ends_step [OF _ ends_did_unlock_read]) (use assms in \<open>simp_all add: rw_lists_free_def\<close>)

lemma ends_write_guard_drop:
  assumes "rw_lists_free s" and "rw_data_lock s = LOCKED_WRITE"
  shows "ends (write_guard_drop K) s (Return ())
    (rw_woken K Writing (rw_woken K Reading (s\<lparr>rw_data_lock := UNLOCKED\<rparr>)))"
  by (rule ends_step [OF _ ends_did_unlock_write]) (use assms in \<open>simp_all add: rw_lists_free_def\<close>)

text \<open>Dropping a read guard gives back one reader and wakes the waiting writers, and only
  them; dropping the write guard frees the lock and wakes every reader and writer that waits.\<close>

lemma guard_drops_wake:
  assumes "rw_lists_free s"
  shows "(0 < rw_data_lock s \<longrightarrow> ends (read_guard_drop K) s (Return ())
      (rw_woken K Writing (s\<lparr>rw_data_lock := rw_data_lock s - 1\<rparr>))) \<and>
    (rw_data_lock s = LOCKED_WRITE \<longrightarrow> ends (write_guard_drop K) s (Return ())
      (rw_woken K Writing (rw_woken K Reading (s\<lparr>rw_data_lock := UNLOCKED\<rparr>))))"
  using assms by (simp add: ends_read_guard_drop ends_write_guard_drop)

subsection \<open>The 128th reader\<close>

lemma try_step_full:
  assumes "rw_data_lock s = LOCKED_WRITE - 1"
  shows "try_step Reading s a b c = (s, b)"
proof -
  have "(LOCKED_WRITE - 1) AND LOCKED_WRITE = 0" by (simp add: LOCKED_WRITE_def)
  with assms show ?thesis by (simp add: try_step_def)
qed

text \<open>C12: a blocking reader that finds 127 readers panics, and it does so inside the spinlock of its
  waiting list, which stays locked: after that no writer's release and no blocking reader can ever
  complete.\<close>

theorem reader_128_jams_the_lock:
  assumes "rw_data_lock s = LOCKED_WRITE - 1" and "\<not> locked (waiting_sync_read_threads s)"
    and "s1 = set_locked (sync_list_of Reading) True s"
  shows "ends (lock_block_read P t) s (Panic too_many_readers_msg) s1 \<and>
    (\<nexists>q s2. ends (did_unlock_write K) s1 q s2)"
proof
  have "run_alone 2 (block_of Reading P t) s = (s1, Panic too_many_readers_msg)"
    using assms by (simp add: numeral_2_eq_2 try_step_full)
  then show "ends (lock_block_read P t) s (Panic too_many_readers_msg) s1"
    using run_alone_ends [of 2 "block_of Reading P t" s s1] by simp
  have "\<not> ends (with_mut (sync_list_of Reading) (mem_take (sync_list_of Reading))) s1 q s2" for q s2
    by (rule with_mut_never_ends) (simp_all add: assms(3))
  then show "\<nexists>q s2. ends (did_unlock_write K) s1 q s2"
    unfolding did_unlock_write_def by (blast dest: ends_bind_first)
qed

text \<open>The state just before: 127 readers, everything else as new.\<close>

lemma reader_128_jams_the_lock_witness:
  "\<nexists>q s2. ends (did_unlock_write set_conts)
     (set_locked (sync_list_of Reading) True
       (rwlock_new fresh_runtime (0::nat)\<lparr>rw_data_lock := LOCKED_WRITE - 1\<rparr>)) q s2"
  using reader_128_jams_the_lock [OF _ _ refl,
      of "rwlock_new fresh_runtime (0::nat)\<lparr>rw_data_lock := LOCKED_WRITE - 1\<rparr>"
      Native 0 set_conts]
    rwlock_new_simps(3) [where l = Reading]
  by (simp del: rwlock_new_simps(3) add: rwlock_new_def)

lemma guard_drops_wake_witness:
  "ends (write_guard_drop set_conts) (rwlock_new fresh_runtime (0::nat)\<lparr>rw_data_lock := LOCKED_WRITE\<rparr>)
     (Return ())
     (rw_woken set_conts Writing (rw_woken set_conts Reading
       (rwlock_new fresh_runtime 0\<lparr>rw_data_lock := UNLOCKED\<rparr>)))"
  using guard_drops_wake [of "rwlock_new fresh_runtime (0::nat)\<lparr>rw_data_lock := LOCKED_WRITE\<rparr>" set_conts]
  by (simp add: rw_lists_free_def rwlock_new_def)

subsection \<open>Using the lock through a closure\<close>

lemma ends_lock_sync_write:
  assumes "rw_data_lock s = UNLOCKED" and "\<not> locked (waiting_sync_write_threads s)"
  shows "ends (lock_sync_write P t) s (Return WriteGuard) (s\<lparr>rw_data_lock := LOCKED_WRITE\<rparr>)"
proof -
  have "run_alone 3 (block_of Writing P t) s = (s\<lparr>rw_data_lock := LOCKED_WRITE\<rparr>, Return WriteGuard)" for P
    using assms by (simp add: numeral_eq_Suc try_step_def spinlock_relock)
  then have "ends (block_of Writing P t) s (Return WriteGuard) (s\<lparr>rw_data_lock := LOCKED_WRITE\<rparr>)" for P
    by (rule run_alone_ends) simp
  moreover have "ends (spin_of Writing) s (Return WriteGuard) (s\<lparr>rw_data_lock := LOCKED_WRITE\<rparr>)"
    by (rule ends_one) (use assms(1) in \<open>simp add: try_step_def\<close>)
  ultimately show ?thesis by (simp add: lock_sync_write_def)
qed

lemma ends_with_write_guard:
  assumes "ends f s q s1" and "rw_lists_free s1" and "rw_data_lock s1 = LOCKED_WRITE"
  shows "ends (with_write_guard K f) s q
    (rw_woken K Writing (rw_woken K Reading (s1\<lparr>rw_data_lock := UNLOCKED\<rparr>)))"
proof -
  note drop = ends_write_guard_drop [OF assms(2,3)]
  have "\<not> running q" using assms(1) by (rule ends_stopped)
  then show ?thesis
  proof (cases q rule: running_cases)
    case (Return x)
    with assms(1) have "ends (on_unwind f (write_guard_drop K)) s (Return x) s1"
      by (simp add: ends_on_unwind_Return)
    then show ?thesis unfolding with_write_guard_def Return
      by (rule ends_bind) (rule ends_bind [OF drop ends_Return])
  next
    case (Panic m)
    with assms(1) drop have "ends (on_unwind f (write_guard_drop K)) s (Panic m)
        (rw_woken K Writing (rw_woken K Reading (s1\<lparr>rw_data_lock := UNLOCKED\<rparr>)))"
      by (simp add: ends_on_unwind_Panic)
    then show ?thesis unfolding with_write_guard_def Panic by (rule ends_bind_Panic)
  qed simp
qed

text \<open>\<open>with_mut_sync\<close> of the read-write lock, called alone on a free lock: the closure runs
  with the lock held for writing, and whether it returns or panics the lock is free afterwards and
  everyone who was waiting has been woken; the closure's result or panic is passed on.\<close>

lemma rw_with_mut_sync_releases:
  assumes "rw_data_lock s = UNLOCKED" and "\<not> locked (waiting_sync_write_threads s)"
    and "ends f (s\<lparr>rw_data_lock := LOCKED_WRITE\<rparr>) q s1"
    and "rw_lists_free s1" and "rw_data_lock s1 = LOCKED_WRITE"
  shows "ends (rw_with_mut_sync K P t f) s q
    (rw_woken K Writing (rw_woken K Reading (s1\<lparr>rw_data_lock := UNLOCKED\<rparr>)))"
  unfolding rw_with_mut_sync_def
  by (rule ends_bind [OF ends_lock_sync_write [OF assms(1,2)]]) (rule ends_with_write_guard [OF assms(3-5)])

lemma rw_with_mut_sync_releases_witness:
  "ends (rw_with_mut_sync set_conts Native 0 (Panic ''boom'')) (rwlock_new fresh_runtime (7::nat))
     (Panic ''boom'' :: (_, unit) prog)
     (rw_woken set_conts Writing (rw_woken set_conts Reading
       (rwlock_new fresh_runtime 7\<lparr>rw_data_lock := LOCKED_WRITE\<rparr>\<lparr>rw_data_lock := UNLOCKED\<rparr>)))"
  by (rule rw_with_mut_sync_releases) (auto intro: ends_Panic simp: rw_lists_free_def rwlock_new_def)

subsection \<open>Concrete runs\<close>

text \<open>
  Two writers and a reader. Thread 0 writes; thread 1 (a reader) and thread 2 (a writer) find the
  lock taken, join their lists and park; thread 0 wakes both.
\<close>

definition rw_demo_ops :: "tid \<Rightarrow> nat rw_op list" where
  "rw_demo_ops t = (if t = 0 then [RwOp Writing RwSync Suc]
     else if t = 1 then [RwOp Reading RwSync id]
     else if t = 2 then [RwOp Writing RwSync ((+) 10)] else [])"

definition rw_schedule :: "tid list" where
  "rw_schedule = replicate 4 0 @ replicate 8 1 @ replicate 8 2 @ replicate 30 0 @ replicate 30 1 @
     replicate 30 2 @ replicate 10 1"

definition rw_demo_end :: "platform \<Rightarrow> ((nat, nat \<times> nat set) rwlock, unit) config" where
  "rw_demo_end P = run_schedule rw_schedule (rwlock_system set_conts P fresh_runtime 0 rw_demo_ops)"

lemma rw_demo_reached:
  "sys_reach (runtime_env set_conts) (rwlock_system set_conts P fresh_runtime 0 rw_demo_ops)
    (fst (rw_demo_end P), snd (rw_demo_end P))"
  unfolding rw_demo_end_def by (simp add: run_schedule_start)

lemma rw_wake_fold:
  "did_unlock_write K = rw_wake K Reading" "did_unlock_read K = rw_wake K Writing"
  "rw_then K Reading = rw_wake K Writing" "rw_then K Writing = Return ()"
  by (simp_all add: rw_wake_def rw_then_def)

lemma rw_schedule_list:
  "rw_schedule = [0,0,0,0, 1,1,1,1,1,1,1,1, 2,2,2,2,2,2,2,2,
     0,0,0,0,0,0,0,0,0,0,0,0,0,0,0,0,0,0,0,0,0,0,0,0,0,0,0,0,0,0,
     1,1,1,1,1,1,1,1,1,1,1,1,1,1,1,1,1,1,1,1,1,1,1,1,1,1,1,1,1,1,
     2,2,2,2,2,2,2,2,2,2,2,2,2,2,2,2,2,2,2,2,2,2,2,2,2,2,2,2,2,2, 1,1,1,1,1,1,1,1,1,1]"
  by (simp add: rw_schedule_def numeral_eq_Suc)

lemma rw_demo_done:
  "rw_inner (fst (rw_demo_end Native)) = 11 \<and> snd (rw_demo_end Native) t = Return ()"
  unfolding rw_demo_end_def rw_schedule_list
  by (simp add: rwlock_system_def rw_demo_ops_def rwlock_new_def
      lock_sync_read_def lock_sync_write_def set_token_def take_token_def spinlock_new_def
      UNLOCKED_def LOCKED_WRITE_def try_step_def rw_wake_fold)

lemma rw_demo_few: "few_threads rw_demo_ops"
proof -
  have "active rw_demo_ops = {0, 1, 2}" by (auto simp: active_def rw_demo_ops_def)
  then show ?thesis by (simp add: few_threads_def)
qed

lemma rwlock_exclusion_witness:
  "\<exists>pcs. snd (rw_demo_end Native) = (\<lambda>t. rw_code set_conts Native t (pcs t)) \<and> finite (readers pcs) \<and>
    ((\<exists>t. writers pcs = {t}) \<and> readers pcs = {} \<and> rw_data_lock (fst (rw_demo_end Native)) = LOCKED_WRITE \<or>
     writers pcs = {} \<and> card (readers pcs) \<le> 127 \<and>
       unat (rw_data_lock (fst (rw_demo_end Native))) = card (readers pcs))"
  by (rule rwlock_exclusion [OF rw_demo_reached])

lemma rwlock_serializable_witness:
  "\<exists>log. (11::nat) = apply_log log 0 \<and> by_thread 0 log = [Suc] \<and> by_thread 1 log = [] \<and>
     by_thread 2 log = [(+) 10]"
  using rwlock_serializable [OF rw_demo_reached [of Native]] rw_demo_done
  by (auto simp: rw_demo_ops_def)


lemma rwlock_no_deadlock_witness: "snd (rw_demo_end Native) 2 = Return ()"
proof (rule rwlock_no_deadlock [OF set_conts_laws rw_demo_few _ rw_demo_reached])
  show "stuck (fst (rw_demo_end Native), snd (rw_demo_end Native))"
    using rw_demo_done by (simp add: stuck_def)
qed simp


subsection \<open>Values that may be sent but not shared\<close>

text \<open>
  \<open>RwLock<T>\<close> is declared \<open>Sync\<close> for every \<open>T: Send\<close>, also for a \<open>Cell\<close>, which may be changed through
  the shared reference a reader gets. Here two threads each increment a \<open>Cell\<close> under a read
  lock: \<open>c.set(c.get() + 1)\<close>.
\<close>

definition cell_set :: "nat \<Rightarrow> ((nat, 'k, 'z) rwlock_scheme, unit) prog" where
  "cell_set v = atomic (\<lambda>s. (s\<lparr>rw_inner := v\<rparr>, ()))"

definition cell_increments :: "'k cont_ops \<Rightarrow> tid \<Rightarrow> ((nat, 'k, 'z) rwlock_scheme, unit) prog" where
  "cell_increments K t = (if t < 2
     then bind (lock_sync_read Native t) (\<lambda>guard.
       bind read_guard_deref (\<lambda>v. seq (cell_set (v + 1)) (read_guard_drop K)))
     else Return ())"

definition both_reading :: "((nat, nat \<times> nat set) rwlock, unit) config" where
  "both_reading = run_schedule [0, 0, 0, 0, 1, 1, 1, 1] (rwlock_new fresh_runtime 0, cell_increments set_conts)"

definition both_done :: "((nat, nat \<times> nat set) rwlock, unit) config" where
  "both_done = run_schedule [0,0,0,0,0,0,0,0,0,0, 1,1,1,1,1,1,1,1,1,1] both_reading"

lemmas cell_run_defs = cell_increments_def rwlock_new_def lock_sync_read_def spinlock_new_def UNLOCKED_def
  LOCKED_WRITE_def try_step_def rw_wake_fold read_guard_deref_def cell_set_def read_guard_drop_def

lemma both_reading_lock: "rw_data_lock (fst both_reading) = 2"
  unfolding both_reading_def by (simp add: cell_run_defs)

lemma both_done_facts:
  "snd both_done 0 = Return ()" "snd both_done (Suc 0) = Return ()" "rw_inner (fst both_done) = 1"
  unfolding both_done_def both_reading_def by (simp_all add: cell_run_defs)


end
