(* ===== verification/Mutex.thy ===== *)
theory Mutex
  imports Spinlock Runtime
begin

section \<open>\<open>Mutex\<close> (\<open>src/mutex.rs\<close>, \<open>src/mutex/*.rs\<close>, \<open>Guard\<close> of \<open>src/guard.rs\<close>)\<close>

text \<open>
  The state of one mutex on top of the runtime, and its operations as programs. A guard is the
  right to access \<open>inner\<close>; dropping it is the explicit call \<open>guard_drop\<close>.
\<close>

record ('d, 'k) mutex = "'k runtime" +
  inner :: 'd
  data_lock :: bool
  waiting_sync_threads :: "tid list spinlock"
  waiting_async_threads :: "cid list spinlock"

definition mutex_new :: "'k runtime \<Rightarrow> 'd \<Rightarrow> ('d, 'k) mutex" where
  "mutex_new r v = \<lparr>token = token r, clock = clock r, conts = conts r, timers = timers r,
     inner = v, data_lock = False,
     waiting_sync_threads = spinlock_new [], waiting_async_threads = spinlock_new []\<rparr>"

definition sync_list :: "(('d, 'k, 'z) mutex_scheme, tid list spinlock) place" where
  "sync_list = Place waiting_sync_threads waiting_sync_threads_update"

definition async_list :: "(('d, 'k, 'z) mutex_scheme, cid list spinlock) place" where
  "async_list = Place waiting_async_threads waiting_async_threads_update"

datatype guard = Guard

subsection \<open>Acquiring\<close>

text \<open>\<open>try_lock\<close>: one strong compare-exchange.\<close>

definition try_lock :: "(('d, 'k, 'z) mutex_scheme, not_available + guard) prog" where
  "try_lock = atomic (\<lambda>s.
     if data_lock s then (s, Inl NotAvailable) else (s\<lparr>data_lock := True\<rparr>, Inr Guard))"

text \<open>\<open>data_lock.swap(true)\<close> and the spin loops of \<open>mutex/spin.rs\<close>.\<close>

definition swap_data_lock :: "(('d, 'k, 'z) mutex_scheme, bool) prog" where
  "swap_data_lock = atomic (\<lambda>s. (s\<lparr>data_lock := True\<rparr>, data_lock s))"

definition lock_spin_body :: "(('d, 'k, 'z) mutex_scheme, guard option) prog" where
  "lock_spin_body = bind swap_data_lock (\<lambda>old. if old then continue else break Guard)"

definition lock_spin :: "(('d, 'k, 'z) mutex_scheme, guard) prog" where
  "lock_spin = loop lock_spin_body"

definition lock_spin_timeout_body ::
  "instant \<Rightarrow> (('d, 'k, 'z) mutex_scheme, guard option option) prog" where
  "lock_spin_timeout_body deadline =
     bind swap_data_lock (\<lambda>old.
       if old then bind now (\<lambda>n. if deadline \<le> n then break None else continue)
       else break (Some Guard))"

definition lock_spin_timeout :: "instant \<Rightarrow> (('d, 'k, 'z) mutex_scheme, guard option) prog" where
  "lock_spin_timeout deadline = loop (lock_spin_timeout_body deadline)"

text \<open>
  \<open>mutex/block.rs\<close>: under the spinlock of the waiting list, try the lock and, if it is taken,
  join the list; then park.
\<close>

definition block_attempt :: "tid \<Rightarrow> (('d, 'k, 'z) mutex_scheme, not_available + guard) prog" where
  "block_attempt t =
     bind try_lock (\<lambda>r. case r of
         Inr g \<Rightarrow> Return (Inr g)
       | Inl _ \<Rightarrow> seq (push sync_list t) (Return (Inl NotAvailable)))"

definition lock_block_after ::
  "platform \<Rightarrow> tid \<Rightarrow> not_available + guard \<Rightarrow> (('d, 'k, 'z) mutex_scheme, guard option) prog" where
  "lock_block_after P t r = (case r of
       Inr g \<Rightarrow> break g
     | Inl _ \<Rightarrow> seq (park P t) continue)"

definition lock_block_body :: "platform \<Rightarrow> tid \<Rightarrow> (('d, 'k, 'z) mutex_scheme, guard option) prog" where
  "lock_block_body P t = bind (with_mut sync_list (block_attempt t)) (lock_block_after P t)"

definition lock_block :: "platform \<Rightarrow> tid \<Rightarrow> (('d, 'k, 'z) mutex_scheme, guard) prog" where
  "lock_block P t = loop (lock_block_body P t)"

definition last_try :: "(('d, 'k, 'z) mutex_scheme, guard option option) prog" where
  "last_try = bind try_lock (\<lambda>r. case r of Inr g \<Rightarrow> break (Some g) | Inl _ \<Rightarrow> break None)"

definition lock_block_timeout_after ::
  "platform \<Rightarrow> tid \<Rightarrow> instant \<Rightarrow> not_available + guard \<Rightarrow>
   (('d, 'k, 'z) mutex_scheme, guard option option) prog" where
  "lock_block_timeout_after P t deadline r = (case r of
       Inr g \<Rightarrow> break (Some g)
     | Inl _ \<Rightarrow> seq (bind now (\<lambda>n. park_timeout P t (deadline - n))) continue)"

definition lock_block_timeout_body ::
  "platform \<Rightarrow> tid \<Rightarrow> instant \<Rightarrow> (('d, 'k, 'z) mutex_scheme, guard option option) prog" where
  "lock_block_timeout_body P t deadline =
     bind now (\<lambda>n.
       if deadline \<le> n then last_try
       else bind (with_mut sync_list (block_attempt t)) (lock_block_timeout_after P t deadline))"

definition lock_block_timeout ::
  "platform \<Rightarrow> tid \<Rightarrow> instant \<Rightarrow> (('d, 'k, 'z) mutex_scheme, guard option) prog" where
  "lock_block_timeout P t deadline = loop (lock_block_timeout_body P t deadline)"

text \<open>\<open>mutex/async_impl.rs\<close>: the same protocol with a continuation in place of the thread.\<close>

definition async_attempt :: "'k cont_ops \<Rightarrow> (('d, 'k, 'z) mutex_scheme, cid + guard) prog" where
  "async_attempt K =
     bind try_lock (\<lambda>r. case r of
         Inr g \<Rightarrow> Return (Inr g)
       | Inl _ \<Rightarrow> bind (continuation K) (\<lambda>c. seq (push async_list c) (Return (Inl c))))"

definition lock_async_after ::
  "'k cont_ops \<Rightarrow> cid + guard \<Rightarrow> (('d, 'k, 'z) mutex_scheme, guard option) prog" where
  "lock_async_after K a = (case a of
       Inr g \<Rightarrow> break g
     | Inl c \<Rightarrow> seq (await_cont K c) continue)"

definition lock_async_body :: "'k cont_ops \<Rightarrow> (('d, 'k, 'z) mutex_scheme, guard option) prog" where
  "lock_async_body K = bind (with_mut async_list (async_attempt K)) (lock_async_after K)"

definition lock_async :: "'k cont_ops \<Rightarrow> (('d, 'k, 'z) mutex_scheme, guard) prog" where
  "lock_async K = loop (lock_async_body K)"

definition lock_async_timeout_after ::
  "'k cont_ops \<Rightarrow> instant \<Rightarrow> cid + guard \<Rightarrow> (('d, 'k, 'z) mutex_scheme, guard option option) prog"
  where
  "lock_async_timeout_after K deadline a = (case a of
       Inr g \<Rightarrow> break (Some g)
     | Inl c \<Rightarrow>
         bind (continuation K) (\<lambda>ct.
           seq (spawn_timer deadline ct)
             (bind (race K c ct) (\<lambda>timed_out. if timed_out then break None else continue))))"

definition lock_async_timeout_body ::
  "'k cont_ops \<Rightarrow> instant \<Rightarrow> (('d, 'k, 'z) mutex_scheme, guard option option) prog" where
  "lock_async_timeout_body K deadline =
     bind now (\<lambda>n.
       if deadline \<le> n then last_try
       else bind (with_mut async_list (async_attempt K)) (lock_async_timeout_after K deadline))"

definition lock_async_timeout ::
  "'k cont_ops \<Rightarrow> instant \<Rightarrow> (('d, 'k, 'z) mutex_scheme, guard option) prog" where
  "lock_async_timeout K deadline = loop (lock_async_timeout_body K deadline)"

text \<open>\<open>mutex/sync_impl.rs\<close>: block where the platform can, spin where it cannot.\<close>

definition lock_sync :: "platform \<Rightarrow> tid \<Rightarrow> (('d, 'k, 'z) mutex_scheme, guard) prog" where
  "lock_sync P t = by_platform P (lock_block P t) lock_spin"

definition lock_sync_timeout ::
  "platform \<Rightarrow> tid \<Rightarrow> instant \<Rightarrow> (('d, 'k, 'z) mutex_scheme, guard option) prog" where
  "lock_sync_timeout P t deadline =
     by_platform P (lock_block_timeout P t deadline) (lock_spin_timeout deadline)"

subsection \<open>Releasing\<close>

text \<open>\<open>did_unlock\<close>: empty both waiting lists and wake everyone that was in them.\<close>

definition wake_async :: "'k cont_ops \<Rightarrow> (('d, 'k, 'z) mutex_scheme, unit) prog" where
  "wake_async K =
     bind (with_mut async_list (mem_take async_list)) (\<lambda>senders. for_each senders (send_cont K))"

definition wake_sync_then_async ::
  "'k cont_ops \<Rightarrow> tid list \<Rightarrow> (('d, 'k, 'z) mutex_scheme, unit) prog" where
  "wake_sync_then_async K threads = seq (for_each threads unpark) (wake_async K)"

definition did_unlock :: "'k cont_ops \<Rightarrow> (('d, 'k, 'z) mutex_scheme, unit) prog" where
  "did_unlock K = bind (with_mut sync_list (mem_take sync_list)) (wake_sync_then_async K)"

definition store_data_unlocked :: "(('d, 'k, 'z) mutex_scheme, unit) prog" where
  "store_data_unlocked = atomic (\<lambda>s. (s\<lparr>data_lock := False\<rparr>, ()))"

definition guard_drop :: "'k cont_ops \<Rightarrow> (('d, 'k, 'z) mutex_scheme, unit) prog" where
  "guard_drop K = seq store_data_unlocked (did_unlock K)"

subsection \<open>Using the data\<close>

text \<open>Reading through the guard, and a read followed by a write (\<open>*guard = f(*guard)\<close>).\<close>

definition guard_deref :: "(('d, 'k, 'z) mutex_scheme, 'd) prog" where
  "guard_deref = atomic (\<lambda>s. (s, inner s))"

definition guard_write :: "'d \<Rightarrow> (('d, 'k, 'z) mutex_scheme, unit) prog" where
  "guard_write v = atomic (\<lambda>s. (s\<lparr>inner := v\<rparr>, ()))"

definition guard_deref_mut :: "('d \<Rightarrow> 'd) \<Rightarrow> (('d, 'k, 'z) mutex_scheme, unit) prog" where
  "guard_deref_mut f = bind guard_deref (\<lambda>v. guard_write (f v))"

text \<open>\<open>AsRef\<close>, \<open>AsMut\<close> and the formatting of a guard go through the same accesses; \<open>show\<close> formats the value.\<close>

definition guard_as_ref :: "(('d, 'k, 'z) mutex_scheme, 'd) prog" where
  "guard_as_ref = guard_deref"

definition guard_as_mut :: "('d \<Rightarrow> 'd) \<Rightarrow> (('d, 'k, 'z) mutex_scheme, unit) prog" where
  "guard_as_mut f = guard_deref_mut f"

definition guard_display :: "('d \<Rightarrow> string) \<Rightarrow> (('d, 'k, 'z) mutex_scheme, string) prog" where
  "guard_display show_value = bind guard_deref (\<lambda>v. Return (show_value v))"

definition guard_debug :: "('d \<Rightarrow> string) \<Rightarrow> (('d, 'k, 'z) mutex_scheme, string) prog" where
  "guard_debug show_value = bind guard_deref (\<lambda>v. Return (''Guard { data: '' @ show_value v @ '', .. }''))"

text \<open>
  \<open>mutex/with.rs\<close>: the guard is a local of the function, so it is dropped when the closure
  returns and also when the closure panics.
\<close>

definition with_guard ::
  "'k cont_ops \<Rightarrow> (('d, 'k, 'z) mutex_scheme, 'r) prog \<Rightarrow> (('d, 'k, 'z) mutex_scheme, 'r) prog" where
  "with_guard K f = bind (on_unwind f (guard_drop K)) (\<lambda>r. seq (guard_drop K) (Return r))"

definition with_mut_sync ::
  "'k cont_ops \<Rightarrow> platform \<Rightarrow> tid \<Rightarrow> (('d, 'k, 'z) mutex_scheme, 'r) prog \<Rightarrow>
   (('d, 'k, 'z) mutex_scheme, 'r) prog" where
  "with_mut_sync K P t f = bind (lock_sync P t) (\<lambda>guard. with_guard K f)"

definition with_sync ::
  "'k cont_ops \<Rightarrow> platform \<Rightarrow> tid \<Rightarrow> ('d \<Rightarrow> 'r) \<Rightarrow> (('d, 'k, 'z) mutex_scheme, 'r) prog" where
  "with_sync K P t f =
     bind (lock_sync P t) (\<lambda>guard. with_guard K (bind guard_deref (\<lambda>v. Return (f v))))"

definition with_mut_async ::
  "'k cont_ops \<Rightarrow> (('d, 'k, 'z) mutex_scheme, 'r) prog \<Rightarrow> (('d, 'k, 'z) mutex_scheme, 'r) prog" where
  "with_mut_async K f = bind (lock_async K) (\<lambda>guard. with_guard K f)"

definition with_async ::
  "'k cont_ops \<Rightarrow> ('d \<Rightarrow> 'r) \<Rightarrow> (('d, 'k, 'z) mutex_scheme, 'r) prog" where
  "with_async K f =
     bind (lock_async K) (\<lambda>guard. with_guard K (bind guard_deref (\<lambda>v. Return (f v))))"

text \<open>\<open>Mutex::from\<close> and \<open>Mutex::default\<close>.\<close>

definition mutex_from :: "'k runtime \<Rightarrow> 'd \<Rightarrow> ('d, 'k) mutex" where
  "mutex_from r value = mutex_new r value"

definition mutex_default :: "'k runtime \<Rightarrow> 'd \<Rightarrow> ('d, 'k) mutex" where
  "mutex_default r default_value = mutex_new r default_value"

text \<open>\<open>Display\<close>: the value if the lock is free, a placeholder if not; \<open>shown\<close> is the value's own
  formatting.\<close>

definition mutex_fmt ::
  "'k cont_ops \<Rightarrow> ('d \<Rightarrow> string) \<Rightarrow> (('d, 'k, 'z) mutex_scheme, string) prog" where
  "mutex_fmt K shown =
     bind try_lock (\<lambda>r. case r of
         Inr g \<Rightarrow> with_guard K (bind guard_deref (\<lambda>v. Return (shown v)))
       | Inl _ \<Rightarrow> Return ''Mutex { <locked> }'')"

subsection \<open>Steps\<close>

lemma mutex_places [simp]:
  "peek sync_list s = waiting_sync_threads s"
  "set_locked sync_list b s =
     s\<lparr>waiting_sync_threads := (waiting_sync_threads s)\<lparr>locked := b\<rparr>\<rparr>"
  "set_data sync_list xs s =
     s\<lparr>waiting_sync_threads := (waiting_sync_threads s)\<lparr>data := xs\<rparr>\<rparr>"
  "peek async_list s = waiting_async_threads s"
  "set_locked async_list b s =
     s\<lparr>waiting_async_threads := (waiting_async_threads s)\<lparr>locked := b\<rparr>\<rparr>"
  "set_data async_list cs s =
     s\<lparr>waiting_async_threads := (waiting_async_threads s)\<lparr>data := cs\<rparr>\<rparr>"
  by (simp_all add: sync_list_def async_list_def set_locked_def set_data_def)

lemma mutex_pokes [simp]:
  "poke sync_list f s = s\<lparr>waiting_sync_threads := f (waiting_sync_threads s)\<rparr>"
  "poke async_list g s = s\<lparr>waiting_async_threads := g (waiting_async_threads s)\<rparr>"
  by (simp_all add: sync_list_def async_list_def)

interpretation sync_place: spin_place sync_list
  by unfold_locales simp_all

interpretation async_place: spin_place async_list
  by unfold_locales simp_all

lemma mutex_running [simp]:
  "running try_lock" "running swap_data_lock" "running lock_spin_body" "running lock_spin"
  "running (lock_spin_timeout_body d)" "running (lock_spin_timeout d)"
  "running (block_attempt t)" "running (lock_block_body P t)" "running (lock_block P t)"
  "running last_try" "running (lock_block_timeout_body P t d)" "running (lock_block_timeout P t d)"
  "running (async_attempt K)" "running (lock_async_body K)" "running (lock_async K)"
  "running (lock_async_timeout_body K d)" "running (lock_async_timeout K d)"
  "running (wake_async K)" "running (did_unlock K)" "running store_data_unlocked"
  "running (guard_drop K)" "running guard_deref" "running (guard_write v)"
  "running (guard_deref_mut f)"
  by (simp_all add: try_lock_def swap_data_lock_def lock_spin_body_def lock_spin_def
      lock_spin_timeout_body_def lock_spin_timeout_def block_attempt_def lock_block_body_def
      lock_block_def last_try_def lock_block_timeout_body_def lock_block_timeout_def
      async_attempt_def lock_async_body_def lock_async_def lock_async_timeout_body_def
      lock_async_timeout_def wake_async_def did_unlock_def store_data_unlocked_def guard_drop_def
      guard_deref_def guard_write_def guard_deref_mut_def)

lemma loops_fold [simp]:
  "loop lock_spin_body = lock_spin"
  "loop (lock_spin_timeout_body d) = lock_spin_timeout d"
  "loop (lock_block_body P t) = lock_block P t"
  "loop (lock_block_timeout_body P t d) = lock_block_timeout P t d"
  "loop (lock_async_body K) = lock_async K"
  "loop (lock_async_timeout_body K d) = lock_async_timeout K d"
  "bind (with_mut sync_list (block_attempt t)) (lock_block_after P t) = lock_block_body P t"
  "bind (with_mut async_list (async_attempt K)) (lock_async_after K) = lock_async_body K"
  "bind (with_mut sync_list (mem_take sync_list)) (wake_sync_then_async K) = did_unlock K"
  "bind (with_mut async_list (mem_take async_list)) (\<lambda>senders. for_each senders (send_cont K)) = wake_async K"
  by (simp_all add: lock_spin_def lock_spin_timeout_def lock_block_def lock_block_timeout_def
      lock_async_def lock_async_timeout_def lock_block_body_def lock_async_body_def did_unlock_def
      wake_async_def)

lemma simple_steps [simp]:
  "resume try_lock s =
     Some (if data_lock s then (s, Return (Inl NotAvailable))
           else (s\<lparr>data_lock := True\<rparr>, Return (Inr Guard)))"
  "resume swap_data_lock s = Some (s\<lparr>data_lock := True\<rparr>, Return (data_lock s))"
  "resume store_data_unlocked s = Some (s\<lparr>data_lock := False\<rparr>, Return ())"
  "resume guard_deref s = Some (s, Return (inner s))"
  "resume (guard_write v) s = Some (s\<lparr>inner := v\<rparr>, Return ())"
  "resume (guard_deref_mut f) s = Some (s, guard_write (f (inner s)))"
  "resume (guard_drop K) s = Some (s\<lparr>data_lock := False\<rparr>, did_unlock K)"
  by (simp_all add: try_lock_def swap_data_lock_def store_data_unlocked_def guard_deref_def
      guard_write_def guard_deref_mut_def guard_drop_def)

text \<open>The bodies of the loops, one access further.\<close>

lemma body_steps [simp]:
  "resume lock_spin s =
     Some (s\<lparr>data_lock := True\<rparr>,
       if data_lock s then loop_from lock_spin_body continue else Return Guard)"
  "resume (lock_spin_timeout d) s =
     Some (s\<lparr>data_lock := True\<rparr>,
       if data_lock s
       then loop_from (lock_spin_timeout_body d)
              (bind now (\<lambda>n. if d \<le> n then break None else continue))
       else Return (Some Guard))"
  "resume last_try s =
     Some (if data_lock s then (s, break None) else (s\<lparr>data_lock := True\<rparr>, break (Some Guard)))"
  "resume (block_attempt t) s =
     Some (if data_lock s then (s, seq (push sync_list t) (Return (Inl NotAvailable)))
           else (s\<lparr>data_lock := True\<rparr>, Return (Inr Guard)))"
  "resume (async_attempt K) s =
     Some (if data_lock s
           then (s, bind (continuation K) (\<lambda>c. seq (push async_list c) (Return (Inl c))))
           else (s\<lparr>data_lock := True\<rparr>, Return (Inr Guard)))"
  by (simp_all add: loops_fold(1,2)[symmetric] lock_spin_body_def lock_spin_timeout_body_def last_try_def
      block_attempt_def async_attempt_def del: loops_fold)

lemma loop_steps [simp]:
  "resume (lock_block P t) s =
     Some (s\<lparr>waiting_sync_threads := (waiting_sync_threads s)\<lparr>locked := True\<rparr>\<rparr>,
       loop_from (lock_block_body P t)
         (bind (if locked (waiting_sync_threads s) then spin_hint sync_list (block_attempt t)
                else section_of sync_list (block_attempt t)) (lock_block_after P t)))"
  "resume (lock_block_timeout P t d) s =
     Some (s, loop_from (lock_block_timeout_body P t d)
       (if d \<le> clock s then last_try
        else bind (with_mut sync_list (block_attempt t)) (lock_block_timeout_after P t d)))"
  "resume (lock_async K) s =
     Some (s\<lparr>waiting_async_threads := (waiting_async_threads s)\<lparr>locked := True\<rparr>\<rparr>,
       loop_from (lock_async_body K)
         (bind (if locked (waiting_async_threads s) then spin_hint async_list (async_attempt K)
                else section_of async_list (async_attempt K)) (lock_async_after K)))"
  "resume (lock_async_timeout K d) s =
     Some (s, loop_from (lock_async_timeout_body K d)
       (if d \<le> clock s then last_try
        else bind (with_mut async_list (async_attempt K)) (lock_async_timeout_after K d)))"
  "resume (did_unlock K) s =
     Some (s\<lparr>waiting_sync_threads := (waiting_sync_threads s)\<lparr>locked := True\<rparr>\<rparr>,
       bind (if locked (waiting_sync_threads s) then spin_hint sync_list (mem_take sync_list)
             else section_of sync_list (mem_take sync_list)) (wake_sync_then_async K))"
  "resume (wake_async K) s =
     Some (s\<lparr>waiting_async_threads := (waiting_async_threads s)\<lparr>locked := True\<rparr>\<rparr>,
       bind (if locked (waiting_async_threads s) then spin_hint async_list (mem_take async_list)
             else section_of async_list (mem_take async_list))
         (\<lambda>senders. for_each senders (send_cont K)))"
  by (simp_all add: loops_fold(3-6)[symmetric] lock_block_body_def lock_block_timeout_body_def
      lock_async_body_def lock_async_timeout_body_def did_unlock_def wake_async_def del: loops_fold)

lemma after_simps [simp]:
  "lock_block_after P t (Inr g) = break g"
  "lock_block_after P t (Inl e) = seq (park P t) continue"
  "lock_block_timeout_after P t d (Inr g) = break (Some g)"
  "lock_block_timeout_after P t d (Inl e) =
     seq (bind now (\<lambda>n. park_timeout P t (d - n))) continue"
  "lock_async_after K (Inr g) = break g"
  "lock_async_after K (Inl c) = seq (await_cont K c) continue"
  "lock_async_timeout_after K d (Inr g) = break (Some g)"
  "lock_async_timeout_after K d (Inl c) =
     bind (continuation K) (\<lambda>ct. seq (spawn_timer d ct)
       (bind (race K c ct) (\<lambda>timed_out. if timed_out then break None else continue)))"
  "wake_sync_then_async K [] = wake_async K"
  by (simp_all add: lock_block_after_def lock_block_timeout_after_def lock_async_after_def
      lock_async_timeout_after_def wake_sync_then_async_def)

end
