(* ===== verification/Condvar.thy ===== *)
theory Condvar
  imports Mutex
begin

section \<open>\<open>Condvar\<close> (\<open>src/condvar.rs\<close>, \<open>src/condvar/*.rs\<close>)\<close>

text \<open>
  One condition variable and the mutex it is used with. Its waiters are in three lists: parked
  threads, asynchronous waiters with an id and a continuation, and wake flags (\<open>Arc<AtomicBool>\<close>,
  here addresses of flags) of spinning threads.
\<close>

record async_waiter =
  waiter_id :: u64
  waiter_sender :: cid

record ('d, 'k) condvar = "('d, 'k) mutex" +
  cv_sync_threads :: "tid list spinlock"
  cv_async_threads :: "async_waiter list spinlock"
  cv_spin_threads :: "nat list spinlock"
  wake_flags :: "nat \<Rightarrow> bool"
  next_flag :: nat
  async_waiter_id_counter :: u64

definition condvar_new :: "'k runtime \<Rightarrow> 'd \<Rightarrow> u64 \<Rightarrow> ('d, 'k) condvar" where
  "condvar_new r v ids = \<lparr>token = token r, clock = clock r, conts = conts r, timers = timers r,
     inner = v, data_lock = False,
     waiting_sync_threads = spinlock_new [], waiting_async_threads = spinlock_new [],
     cv_sync_threads = spinlock_new [], cv_async_threads = spinlock_new [],
     cv_spin_threads = spinlock_new [], wake_flags = (\<lambda>_. False), next_flag = 0,
     async_waiter_id_counter = ids\<rparr>"

definition cv_sync :: "(('d, 'k, 'z) condvar_scheme, tid list spinlock) place" where
  "cv_sync = Place cv_sync_threads cv_sync_threads_update"

definition cv_async :: "(('d, 'k, 'z) condvar_scheme, async_waiter list spinlock) place" where
  "cv_async = Place cv_async_threads cv_async_threads_update"

definition cv_spin :: "(('d, 'k, 'z) condvar_scheme, nat list spinlock) place" where
  "cv_spin = Place cv_spin_threads cv_spin_threads_update"

datatype wait_timeout_result = WaitTimeoutResult (timed_out: bool)

text \<open>\<open>Arc::new(AtomicBool::new(false))\<close>, its load and its store of \<open>true\<close>, and the id counter.\<close>

definition new_flag :: "(('d, 'k, 'z) condvar_scheme, nat) prog" where
  "new_flag = atomic (\<lambda>s.
     (s\<lparr>wake_flags := (wake_flags s)(next_flag s := False), next_flag := Suc (next_flag s)\<rparr>, next_flag s))"

definition load_flag :: "nat \<Rightarrow> (('d, 'k, 'z) condvar_scheme, bool) prog" where
  "load_flag w = atomic (\<lambda>s. (s, wake_flags s w))"

definition set_flag :: "nat \<Rightarrow> (('d, 'k, 'z) condvar_scheme, unit) prog" where
  "set_flag w = atomic (\<lambda>s. (s\<lparr>wake_flags := (wake_flags s)(w := True)\<rparr>, ()))"

definition next_waiter_id :: "(('d, 'k, 'z) condvar_scheme, u64) prog" where
  "next_waiter_id = atomic (\<lambda>s.
     (s\<lparr>async_waiter_id_counter := async_waiter_id_counter s + 1\<rparr>, async_waiter_id_counter s))"

subsection \<open>Notifying (\<open>notify.rs\<close>)\<close>

text \<open>\<open>notify_one\<close> pops from the spinning list, else from the parked list, else from the
  asynchronous list; each \<open>pop\<close> takes the newest entry.\<close>

definition notify_one_async :: "'k cont_ops \<Rightarrow> (('d, 'k, 'z) condvar_scheme, unit) prog" where
  "notify_one_async K =
     bind (with_mut cv_async (pop cv_async)) (\<lambda>waiter. case waiter of
         Some w \<Rightarrow> send_cont K (waiter_sender w)
       | None \<Rightarrow> Return ())"

definition notify_one_sync :: "'k cont_ops \<Rightarrow> (('d, 'k, 'z) condvar_scheme, unit) prog" where
  "notify_one_sync K =
     bind (with_mut cv_sync (pop cv_sync)) (\<lambda>thread. case thread of
         Some t \<Rightarrow> unpark t
       | None \<Rightarrow> notify_one_async K)"

definition notify_one :: "'k cont_ops \<Rightarrow> (('d, 'k, 'z) condvar_scheme, unit) prog" where
  "notify_one K =
     bind (with_mut cv_spin (pop cv_spin)) (\<lambda>thread. case thread of
         Some w \<Rightarrow> set_flag w
       | None \<Rightarrow> notify_one_sync K)"

definition notify_all :: "'k cont_ops \<Rightarrow> (('d, 'k, 'z) condvar_scheme, unit) prog" where
  "notify_all K =
     bind (with_mut cv_spin (mem_take cv_spin)) (\<lambda>flags. seq (for_each flags set_flag)
       (bind (with_mut cv_sync (mem_take cv_sync)) (\<lambda>threads. seq (for_each threads unpark)
         (bind (with_mut cv_async (mem_take cv_async)) (\<lambda>waiters.
            for_each waiters (\<lambda>w. send_cont K (waiter_sender w)))))))"

subsection \<open>Waiting by parking (\<open>wait_block.rs\<close>)\<close>

text \<open>Every \<open>wait\<close> takes the guard, registers, drops the guard, waits and locks the mutex again.\<close>

definition wait_block ::
  "'k cont_ops \<Rightarrow> platform \<Rightarrow> tid \<Rightarrow> guard \<Rightarrow> (('d, 'k, 'z) condvar_scheme, guard) prog" where
  "wait_block K P t guard =
     seq (with_mut cv_sync (push cv_sync t))
       (seq (guard_drop K)
         (seq (park P t)
           (lock_sync P t)))"

text \<open>
  \<open>while condition(&mut guard) { guard = wait(guard) }\<close>. The condition is user code, run with the
  guard held; should it panic, the guard is dropped.
\<close>

definition wait_while_body ::
  "'k cont_ops \<Rightarrow> (('d, 'k, 'z) condvar_scheme, bool) prog \<Rightarrow> (('d, 'k, 'z) condvar_scheme, guard) prog \<Rightarrow>
   (('d, 'k, 'z) condvar_scheme, guard option) prog" where
  "wait_while_body K condition wait =
     bind (on_unwind condition (guard_drop K)) (\<lambda>b. if b then seq wait continue else break Guard)"

definition wait_timeout_while_body ::
  "'k cont_ops \<Rightarrow> (('d, 'k, 'z) condvar_scheme, bool) prog \<Rightarrow>
   (('d, 'k, 'z) condvar_scheme, guard \<times> wait_timeout_result) prog \<Rightarrow>
   (('d, 'k, 'z) condvar_scheme, (guard \<times> wait_timeout_result) option) prog" where
  "wait_timeout_while_body K condition wait =
     bind (on_unwind condition (guard_drop K)) (\<lambda>b.
       if b then bind wait (\<lambda>(guard, result). if timed_out result then break (guard, result) else continue)
       else break (Guard, WaitTimeoutResult False))"

definition wait_block_while ::
  "'k cont_ops \<Rightarrow> platform \<Rightarrow> tid \<Rightarrow> (('d, 'k, 'z) condvar_scheme, bool) prog \<Rightarrow>
   (('d, 'k, 'z) condvar_scheme, guard) prog" where
  "wait_block_while K P t condition = loop (wait_while_body K condition (wait_block K P t Guard))"

text \<open>
  With a deadline: a thread that is no longer in the list was notified; one that is still in it
  at the deadline removes itself and has timed out. \<open>leave\<close> and \<open>not_listed\<close> are the two
  closures, the list searched by thread id.
\<close>

definition leave :: "('s, 'x list spinlock) place \<Rightarrow> ('x \<Rightarrow> bool) \<Rightarrow> ('s, bool) prog" where
  "leave L me = access L (\<lambda>threads. case position me threads of
       Some pos \<Rightarrow> (remove_at pos threads, False)
     | None \<Rightarrow> (threads, True))"

definition not_listed :: "('s, 'x list spinlock) place \<Rightarrow> ('x \<Rightarrow> bool) \<Rightarrow> ('s, bool) prog" where
  "not_listed L me = access L (\<lambda>threads. (threads, \<not> list_ex me threads))"

definition relock_sync ::
  "platform \<Rightarrow> tid \<Rightarrow> bool \<Rightarrow> (('d, 'k, 'z) condvar_scheme, (guard \<times> wait_timeout_result) option) prog"
  where
  "relock_sync P t late = bind (lock_sync P t) (\<lambda>g. break (g, WaitTimeoutResult late))"

definition wait_block_timeout_body ::
  "platform \<Rightarrow> tid \<Rightarrow> instant \<Rightarrow> (('d, 'k, 'z) condvar_scheme, (guard \<times> wait_timeout_result) option) prog"
  where
  "wait_block_timeout_body P t deadline =
     bind now (\<lambda>n.
       if deadline \<le> n then
         bind (with_mut cv_sync (leave cv_sync (\<lambda>x. x = t))) (\<lambda>notified. relock_sync P t (\<not> notified))
       else
         seq (park_timeout P t (deadline - n))
           (bind (with_mut cv_sync (not_listed cv_sync (\<lambda>x. x = t))) (\<lambda>notified.
              if notified then relock_sync P t False else continue)))"

definition wait_block_timeout ::
  "'k cont_ops \<Rightarrow> platform \<Rightarrow> tid \<Rightarrow> guard \<Rightarrow> instant \<Rightarrow>
   (('d, 'k, 'z) condvar_scheme, guard \<times> wait_timeout_result) prog" where
  "wait_block_timeout K P t guard deadline =
     seq (with_mut cv_sync (push cv_sync t))
       (seq (guard_drop K)
         (loop (wait_block_timeout_body P t deadline)))"

definition wait_block_timeout_while ::
  "'k cont_ops \<Rightarrow> platform \<Rightarrow> tid \<Rightarrow> instant \<Rightarrow> (('d, 'k, 'z) condvar_scheme, bool) prog \<Rightarrow>
   (('d, 'k, 'z) condvar_scheme, guard \<times> wait_timeout_result) prog" where
  "wait_block_timeout_while K P t deadline condition =
     loop (wait_timeout_while_body K condition (wait_block_timeout K P t Guard deadline))"

subsection \<open>Waiting by spinning (\<open>wait_spin.rs\<close>)\<close>

definition spin_until_body :: "nat \<Rightarrow> (('d, 'k, 'z) condvar_scheme, unit option) prog" where
  "spin_until_body wake = bind (load_flag wake) (\<lambda>b. if b then break () else continue)"

definition spin_until :: "nat \<Rightarrow> (('d, 'k, 'z) condvar_scheme, unit) prog" where
  "spin_until wake = loop (spin_until_body wake)"

definition wait_spin ::
  "'k cont_ops \<Rightarrow> platform \<Rightarrow> tid \<Rightarrow> guard \<Rightarrow> (('d, 'k, 'z) condvar_scheme, guard) prog" where
  "wait_spin K P t guard =
     bind new_flag (\<lambda>wake.
       seq (with_mut cv_spin (push cv_spin wake))
         (seq (guard_drop K)
           (seq (spin_until wake)
             (lock_sync P t))))"

definition wait_spin_while ::
  "'k cont_ops \<Rightarrow> platform \<Rightarrow> tid \<Rightarrow> (('d, 'k, 'z) condvar_scheme, bool) prog \<Rightarrow>
   (('d, 'k, 'z) condvar_scheme, guard) prog" where
  "wait_spin_while K P t condition = loop (wait_while_body K condition (wait_spin K P t Guard))"

definition wait_spin_timeout_body ::
  "platform \<Rightarrow> tid \<Rightarrow> nat \<Rightarrow> instant \<Rightarrow>
   (('d, 'k, 'z) condvar_scheme, (guard \<times> wait_timeout_result) option) prog" where
  "wait_spin_timeout_body P t wake deadline =
     bind (load_flag wake) (\<lambda>b.
       if b then relock_sync P t False
       else bind now (\<lambda>n.
         if deadline \<le> n then
           bind (with_mut cv_spin (leave cv_spin (\<lambda>x. x = wake))) (\<lambda>notified.
             if notified then seq (spin_until wake) (relock_sync P t False)
             else relock_sync P t True)
         else continue))"

definition wait_spin_timeout ::
  "'k cont_ops \<Rightarrow> platform \<Rightarrow> tid \<Rightarrow> guard \<Rightarrow> instant \<Rightarrow>
   (('d, 'k, 'z) condvar_scheme, guard \<times> wait_timeout_result) prog" where
  "wait_spin_timeout K P t guard deadline =
     bind new_flag (\<lambda>wake.
       seq (with_mut cv_spin (push cv_spin wake))
         (seq (guard_drop K)
           (loop (wait_spin_timeout_body P t wake deadline))))"

definition wait_spin_timeout_while ::
  "'k cont_ops \<Rightarrow> platform \<Rightarrow> tid \<Rightarrow> instant \<Rightarrow> (('d, 'k, 'z) condvar_scheme, bool) prog \<Rightarrow>
   (('d, 'k, 'z) condvar_scheme, guard \<times> wait_timeout_result) prog" where
  "wait_spin_timeout_while K P t deadline condition =
     loop (wait_timeout_while_body K condition (wait_spin_timeout K P t Guard deadline))"

subsection \<open>Waiting asynchronously (\<open>wait_async.rs\<close>)\<close>

definition join_async_list :: "'k cont_ops \<Rightarrow> (('d, 'k, 'z) condvar_scheme, cid) prog" where
  "join_async_list K =
     bind (continuation K) (\<lambda>c.
       bind next_waiter_id (\<lambda>wid.
         seq (push cv_async \<lparr>waiter_id = wid, waiter_sender = c\<rparr>) (Return c)))"

definition wait_async ::
  "'k cont_ops \<Rightarrow> guard \<Rightarrow> (('d, 'k, 'z) condvar_scheme, guard) prog" where
  "wait_async K guard =
     bind (with_mut cv_async (join_async_list K)) (\<lambda>receiver.
       seq (guard_drop K)
         (seq (await_cont K receiver)
           (lock_async K)))"

definition wait_async_while ::
  "'k cont_ops \<Rightarrow> (('d, 'k, 'z) condvar_scheme, bool) prog \<Rightarrow> (('d, 'k, 'z) condvar_scheme, guard) prog"
  where
  "wait_async_while K condition = loop (wait_while_body K condition (wait_async K Guard))"

text \<open>On a timeout the waiter looks for its own entry and completes it if it is still there.\<close>

definition drop_async_waiter :: "'k cont_ops \<Rightarrow> u64 \<Rightarrow> (('d, 'k, 'z) condvar_scheme, unit) prog" where
  "drop_async_waiter K wid =
     bind (access cv_async (\<lambda>waiters. case position (\<lambda>w. waiter_id w = wid) waiters of
         Some pos \<Rightarrow> (remove_at pos waiters, Some (waiters ! pos))
       | None \<Rightarrow> (waiters, None))) (\<lambda>removed. case removed of
         Some w \<Rightarrow> send_cont K (waiter_sender w)
       | None \<Rightarrow> Return ())"

definition wait_async_timeout ::
  "'k cont_ops \<Rightarrow> guard \<Rightarrow> instant \<Rightarrow>
   (('d, 'k, 'z) condvar_scheme, guard \<times> wait_timeout_result) prog" where
  "wait_async_timeout K guard deadline =
     bind next_waiter_id (\<lambda>wid.
     bind (continuation K) (\<lambda>notify.
     bind (continuation K) (\<lambda>timeout.
     seq (with_mut cv_async (push cv_async \<lparr>waiter_id = wid, waiter_sender = notify\<rparr>))
       (seq (spawn_timer deadline timeout)
         (seq (guard_drop K)
           (bind (race K notify timeout) (\<lambda>late.
              seq (if late then with_mut cv_async (drop_async_waiter K wid) else Return ())
                (bind (lock_async K) (\<lambda>guard.
                   Return (guard, WaitTimeoutResult late))))))))))"

definition wait_async_timeout_while ::
  "'k cont_ops \<Rightarrow> instant \<Rightarrow> (('d, 'k, 'z) condvar_scheme, bool) prog \<Rightarrow>
   (('d, 'k, 'z) condvar_scheme, guard \<times> wait_timeout_result) prog" where
  "wait_async_timeout_while K deadline condition =
     loop (wait_timeout_while_body K condition (wait_async_timeout K Guard deadline))"

subsection \<open>Waiting by platform (\<open>wait_sync.rs\<close>)\<close>

definition wait_sync ::
  "'k cont_ops \<Rightarrow> platform \<Rightarrow> tid \<Rightarrow> guard \<Rightarrow> (('d, 'k, 'z) condvar_scheme, guard) prog" where
  "wait_sync K P t guard = by_platform P (wait_block K P t guard) (wait_spin K P t guard)"

definition wait_sync_timeout ::
  "'k cont_ops \<Rightarrow> platform \<Rightarrow> tid \<Rightarrow> guard \<Rightarrow> instant \<Rightarrow>
   (('d, 'k, 'z) condvar_scheme, guard \<times> wait_timeout_result) prog" where
  "wait_sync_timeout K P t guard deadline =
     by_platform P (wait_block_timeout K P t guard deadline) (wait_spin_timeout K P t guard deadline)"

definition wait_sync_while ::
  "'k cont_ops \<Rightarrow> platform \<Rightarrow> tid \<Rightarrow> (('d, 'k, 'z) condvar_scheme, bool) prog \<Rightarrow>
   (('d, 'k, 'z) condvar_scheme, guard) prog" where
  "wait_sync_while K P t condition = by_platform P
     (loop (wait_while_body K condition (wait_block K P t Guard)))
     (loop (wait_while_body K condition (wait_spin K P t Guard)))"

definition wait_sync_timeout_while ::
  "'k cont_ops \<Rightarrow> platform \<Rightarrow> tid \<Rightarrow> instant \<Rightarrow> (('d, 'k, 'z) condvar_scheme, bool) prog \<Rightarrow>
   (('d, 'k, 'z) condvar_scheme, guard \<times> wait_timeout_result) prog" where
  "wait_sync_timeout_while K P t deadline condition = by_platform P
     (wait_block_timeout_while K P t deadline condition)
     (wait_spin_timeout_while K P t deadline condition)"

subsection \<open>Steps\<close>

lemma cv_places [simp]:
  "peek cv_sync s = cv_sync_threads s"
  "set_locked cv_sync b s = s\<lparr>cv_sync_threads := (cv_sync_threads s)\<lparr>locked := b\<rparr>\<rparr>"
  "set_data cv_sync xs s = s\<lparr>cv_sync_threads := (cv_sync_threads s)\<lparr>data := xs\<rparr>\<rparr>"
  "peek cv_async s = cv_async_threads s"
  "set_locked cv_async b s = s\<lparr>cv_async_threads := (cv_async_threads s)\<lparr>locked := b\<rparr>\<rparr>"
  "set_data cv_async ws s = s\<lparr>cv_async_threads := (cv_async_threads s)\<lparr>data := ws\<rparr>\<rparr>"
  "peek cv_spin s = cv_spin_threads s"
  "set_locked cv_spin b s = s\<lparr>cv_spin_threads := (cv_spin_threads s)\<lparr>locked := b\<rparr>\<rparr>"
  "set_data cv_spin fs s = s\<lparr>cv_spin_threads := (cv_spin_threads s)\<lparr>data := fs\<rparr>\<rparr>"
  by (simp_all add: cv_sync_def cv_async_def cv_spin_def set_locked_def set_data_def)

lemma cv_pokes [simp]:
  "poke cv_sync f s = s\<lparr>cv_sync_threads := f (cv_sync_threads s)\<rparr>"
  "poke cv_async g s = s\<lparr>cv_async_threads := g (cv_async_threads s)\<rparr>"
  "poke cv_spin h s = s\<lparr>cv_spin_threads := h (cv_spin_threads s)\<rparr>"
  by (simp_all add: cv_sync_def cv_async_def cv_spin_def)

interpretation cv_sync: spin_place cv_sync by unfold_locales simp_all

interpretation cv_async: spin_place cv_async by unfold_locales simp_all

interpretation cv_spin: spin_place cv_spin by unfold_locales simp_all

lemma cv_simple_steps [simp]:
  "running new_flag" "running (load_flag w)" "running (set_flag w)" "running next_waiter_id"
  "resume new_flag s = Some (s\<lparr>wake_flags := (wake_flags s)(next_flag s := False),
     next_flag := Suc (next_flag s)\<rparr>, Return (next_flag s))"
  "resume (load_flag w) s = Some (s, Return (wake_flags s w))"
  "resume (set_flag w) s = Some (s\<lparr>wake_flags := (wake_flags s)(w := True)\<rparr>, Return ())"
  "resume next_waiter_id s =
     Some (s\<lparr>async_waiter_id_counter := async_waiter_id_counter s + 1\<rparr>, Return (async_waiter_id_counter s))"
  by (simp_all add: new_flag_def load_flag_def set_flag_def next_waiter_id_def)

lemma cv_running [simp]:
  "running (leave L me)" "running (not_listed L me)" "running (relock_sync P t b)"
  "running (wait_block_timeout_body P t d)" "running (spin_until_body w)" "running (spin_until w)"
  "running (wait_spin_timeout_body P t w d)" "running (join_async_list K)"
  "running (drop_async_waiter K wid)" "running (notify_one_async K)" "running (notify_one_sync K)"
  "running (notify_one K)" "running (notify_all K)" "running (wait_block K P t g)"
  "running (wait_spin K P t g)" "running (wait_async K g)" "running (wait_sync K P t g)"
  by (simp_all add: leave_def not_listed_def relock_sync_def lock_sync_def wait_block_timeout_body_def
      spin_until_body_def spin_until_def wait_spin_timeout_body_def join_async_list_def
      drop_async_waiter_def notify_one_async_def notify_one_sync_def notify_one_def notify_all_def
      wait_block_def wait_spin_def wait_async_def wait_sync_def)

lemma cv_list_steps [simp]:
  "resume (leave L me) s = Some (case position me (data (peek L s)) of
      Some pos \<Rightarrow> (set_data L (remove_at pos (data (peek L s))) s, Return False)
    | None \<Rightarrow> (set_data L (data (peek L s)) s, Return True))"
  "resume (not_listed L me) s =
     Some (set_data L (data (peek L s)) s, Return (\<not> list_ex me (data (peek L s))))"
  by (simp_all add: leave_def not_listed_def split: option.splits)

lemma cv_loops [simp]: "loop (spin_until_body w) = spin_until w"
  by (simp add: spin_until_def)

lemma spin_until_step [simp]:
  "resume (spin_until w) s =
     Some (s, if wake_flags s w then Return () else loop_from (spin_until_body w) continue)"
  by (simp add: spin_until_def spin_until_body_def)

end
