(* ===== verification/Mpsc.thy ===== *)
theory Mpsc
  imports Condvar
begin

section \<open>The channel (\<open>src/mpsc.rs\<close>)\<close>

text \<open>
  A queue under the mutex, the condition variable, the number of senders and the receiver's flag.
  A \<open>Sender\<close> and a \<open>Receiver\<close> are references to this state, so their methods and destructors
  are programs over it. \<open>usize\<close> is a word of any width (32 bits on wasm32).
\<close>

record (overloaded) ('a, 'k, 'w) channel = "('a list, 'k) condvar" +
  sender_count :: "'w::len word"
  receiver_active :: bool

datatype try_recv_error = Empty | TryDisconnected
datatype recv_timeout_error = Timeout | TimeoutDisconnected
datatype recv_error = Disconnected
datatype 'a send_error = SendError 'a

fun try_recv_error_fmt :: "try_recv_error \<Rightarrow> string" where
  "try_recv_error_fmt Empty = ''receiving on an empty channel''"
| "try_recv_error_fmt TryDisconnected = ''receiving on a closed channel''"

fun recv_timeout_error_fmt :: "recv_timeout_error \<Rightarrow> string" where
  "recv_timeout_error_fmt Timeout = ''timed out waiting on channel''"
| "recv_timeout_error_fmt TimeoutDisconnected = ''channel is empty and disconnected''"

fun recv_error_fmt :: "recv_error \<Rightarrow> string" where
  "recv_error_fmt Disconnected = ''receiving on a closed channel''"

fun send_error_fmt :: "'a send_error \<Rightarrow> string" where
  "send_error_fmt (SendError t) = ''sending on a closed channel''"

definition channel_new :: "'k runtime \<Rightarrow> u64 \<Rightarrow> ('a, 'k, 'w::len) channel" where
  "channel_new r ids = condvar.extend (condvar_new r [] ids) \<lparr>sender_count = 1, receiver_active = True\<rparr>"

subsection \<open>Single accesses\<close>

definition load_active :: "(('a, 'k, 'w::len, 'z) channel_scheme, bool) prog" where
  "load_active = atomic (\<lambda>s. (s, receiver_active s))"

definition load_count :: "(('a, 'k, 'w::len, 'z) channel_scheme, 'w word) prog" where
  "load_count = atomic (\<lambda>s. (s, sender_count s))"

definition add_sender :: "(('a, 'k, 'w::len, 'z) channel_scheme, 'w word) prog" where
  "add_sender = atomic (\<lambda>s. (s\<lparr>sender_count := sender_count s + 1\<rparr>, sender_count s))"

definition sub_sender :: "(('a, 'k, 'w::len, 'z) channel_scheme, 'w word) prog" where
  "sub_sender = atomic (\<lambda>s. (s\<lparr>sender_count := sender_count s - 1\<rparr>, sender_count s))"

definition store_inactive :: "(('a, 'k, 'w::len, 'z) channel_scheme, unit) prog" where
  "store_inactive = atomic (\<lambda>s. (s\<lparr>receiver_active := False\<rparr>, ()))"

text \<open>\<open>queue.push_back(t)\<close> and \<open>queue.pop_front()\<close> through the guard.\<close>

definition push_back :: "'a \<Rightarrow> (('a list, 'k, 'z) mutex_scheme, unit) prog" where
  "push_back t = guard_deref_mut (\<lambda>queue. queue @ [t])"

definition pop_front :: "(('a list, 'k, 'z) mutex_scheme, 'a option) prog" where
  "pop_front = bind guard_deref (\<lambda>queue. case queue of
       [] \<Rightarrow> Return None
     | t # rest \<Rightarrow> seq (guard_write rest) (Return (Some t)))"

subsection \<open>The handles\<close>

definition sender_clone :: "(('a, 'k, 'w::len, 'z) channel_scheme, unit) prog" where
  "sender_clone = seq add_sender (Return ())"

definition sender_drop :: "'k cont_ops \<Rightarrow> (('a, 'k, 'w::len, 'z) channel_scheme, unit) prog" where
  "sender_drop K = bind sub_sender (\<lambda>old_count. if old_count = 1 then notify_all K else Return ())"

definition receiver_drop :: "'k cont_ops \<Rightarrow> (('a, 'k, 'w::len, 'z) channel_scheme, unit) prog" where
  "receiver_drop K = seq store_inactive (notify_all K)"

subsection \<open>Sending\<close>

text \<open>The four \<open>send_*\<close> methods have the same body and differ in how they lock the queue.\<close>

definition send_locked ::
  "'k cont_ops \<Rightarrow> 'a \<Rightarrow> (('a, 'k, 'w::len, 'z) channel_scheme, 'a send_error + unit) prog" where
  "send_locked K t =
     bind load_active (\<lambda>active.
       if \<not> active then seq (guard_drop K) (Return (Inl (SendError t)))
       else seq (push_back t) (seq (guard_drop K) (seq (notify_one K) (Return (Inr ())))))"

definition send_with ::
  "'k cont_ops \<Rightarrow> (('a, 'k, 'w::len, 'z) channel_scheme, guard) prog \<Rightarrow> 'a \<Rightarrow>
   (('a, 'k, 'w, 'z) channel_scheme, 'a send_error + unit) prog" where
  "send_with K lock t =
     bind load_active (\<lambda>active.
       if \<not> active then Return (Inl (SendError t)) else bind lock (\<lambda>queue. send_locked K t))"

definition send_spin ::
  "'k cont_ops \<Rightarrow> 'a \<Rightarrow> (('a, 'k, 'w::len, 'z) channel_scheme, 'a send_error + unit) prog" where
  "send_spin K t = send_with K lock_spin t"

definition send_block ::
  "'k cont_ops \<Rightarrow> platform \<Rightarrow> tid \<Rightarrow> 'a \<Rightarrow>
   (('a, 'k, 'w::len, 'z) channel_scheme, 'a send_error + unit) prog" where
  "send_block K P me t = send_with K (lock_block P me) t"

definition send_sync ::
  "'k cont_ops \<Rightarrow> platform \<Rightarrow> tid \<Rightarrow> 'a \<Rightarrow>
   (('a, 'k, 'w::len, 'z) channel_scheme, 'a send_error + unit) prog" where
  "send_sync K P me t = send_with K (lock_sync P me) t"

definition send_async ::
  "'k cont_ops \<Rightarrow> 'a \<Rightarrow> (('a, 'k, 'w::len, 'z) channel_scheme, 'a send_error + unit) prog" where
  "send_async K t = send_with K (lock_async K) t"

subsection \<open>Receiving\<close>

definition try_recv :: "'k cont_ops \<Rightarrow> (('a, 'k, 'w::len, 'z) channel_scheme, try_recv_error + 'a) prog" where
  "try_recv K =
     bind try_lock (\<lambda>r. case r of
         Inl _ \<Rightarrow> Return (Inl Empty)
       | Inr queue \<Rightarrow> bind pop_front (\<lambda>popped. case popped of
           Some t \<Rightarrow> seq (guard_drop K) (Return (Inr t))
         | None \<Rightarrow> bind load_count (\<lambda>n.
             seq (guard_drop K) (Return (Inl (if n = 0 then TryDisconnected else Empty))))))"

text \<open>The loop of every \<open>recv_*\<close>: with the queue locked, take a value, or see that no sender is left,
  or wait on the condition variable.\<close>

definition recv_body ::
  "'k cont_ops \<Rightarrow> (('a, 'k, 'w::len, 'z) channel_scheme, guard) prog \<Rightarrow>
   (('a, 'k, 'w, 'z) channel_scheme, (recv_error + 'a) option) prog" where
  "recv_body K wait =
     bind pop_front (\<lambda>popped. case popped of
         Some t \<Rightarrow> seq (guard_drop K) (break (Inr t))
       | None \<Rightarrow> bind load_count (\<lambda>n.
           if n = 0 then seq (guard_drop K) (break (Inl Disconnected)) else seq wait continue))"

definition recv_with ::
  "'k cont_ops \<Rightarrow> (('a, 'k, 'w::len, 'z) channel_scheme, guard) prog \<Rightarrow>
   (('a, 'k, 'w, 'z) channel_scheme, guard) prog \<Rightarrow>
   (('a, 'k, 'w, 'z) channel_scheme, recv_error + 'a) prog" where
  "recv_with K lock wait = bind lock (\<lambda>queue. loop (recv_body K wait))"

definition recv_timeout_body ::
  "'k cont_ops \<Rightarrow> (('a, 'k, 'w::len, 'z) channel_scheme, guard \<times> wait_timeout_result) prog \<Rightarrow>
   (('a, 'k, 'w, 'z) channel_scheme, (recv_timeout_error + 'a) option) prog" where
  "recv_timeout_body K wait =
     bind pop_front (\<lambda>popped. case popped of
         Some t \<Rightarrow> seq (guard_drop K) (break (Inr t))
       | None \<Rightarrow> bind load_count (\<lambda>n.
           if n = 0 then seq (guard_drop K) (break (Inl TimeoutDisconnected))
           else bind wait (\<lambda>(queue, result).
             if timed_out result then seq (guard_drop K) (break (Inl Timeout)) else continue)))"

definition recv_timeout_with ::
  "'k cont_ops \<Rightarrow> (('a, 'k, 'w::len, 'z) channel_scheme, guard option) prog \<Rightarrow>
   (('a, 'k, 'w, 'z) channel_scheme, guard \<times> wait_timeout_result) prog \<Rightarrow>
   (('a, 'k, 'w, 'z) channel_scheme, recv_timeout_error + 'a) prog" where
  "recv_timeout_with K lock wait =
     bind lock (\<lambda>r. case r of
         None \<Rightarrow> Return (Inl Timeout)
       | Some queue \<Rightarrow> loop (recv_timeout_body K wait))"

definition recv_spin ::
  "'k cont_ops \<Rightarrow> platform \<Rightarrow> tid \<Rightarrow> (('a, 'k, 'w::len, 'z) channel_scheme, recv_error + 'a) prog" where
  "recv_spin K P me = recv_with K lock_spin (wait_spin K P me Guard)"

definition recv_block ::
  "'k cont_ops \<Rightarrow> platform \<Rightarrow> tid \<Rightarrow> (('a, 'k, 'w::len, 'z) channel_scheme, recv_error + 'a) prog" where
  "recv_block K P me = recv_with K (lock_block P me) (wait_block K P me Guard)"

definition recv_sync ::
  "'k cont_ops \<Rightarrow> platform \<Rightarrow> tid \<Rightarrow> (('a, 'k, 'w::len, 'z) channel_scheme, recv_error + 'a) prog" where
  "recv_sync K P me = recv_with K (lock_sync P me) (wait_sync K P me Guard)"

definition recv_async :: "'k cont_ops \<Rightarrow> (('a, 'k, 'w::len, 'z) channel_scheme, recv_error + 'a) prog" where
  "recv_async K = recv_with K (lock_async K) (wait_async K Guard)"

definition recv_spin_timeout ::
  "'k cont_ops \<Rightarrow> platform \<Rightarrow> tid \<Rightarrow> instant \<Rightarrow>
   (('a, 'k, 'w::len, 'z) channel_scheme, recv_timeout_error + 'a) prog" where
  "recv_spin_timeout K P me deadline =
     recv_timeout_with K (lock_spin_timeout deadline) (wait_spin_timeout K P me Guard deadline)"

definition recv_block_timeout ::
  "'k cont_ops \<Rightarrow> platform \<Rightarrow> tid \<Rightarrow> instant \<Rightarrow>
   (('a, 'k, 'w::len, 'z) channel_scheme, recv_timeout_error + 'a) prog" where
  "recv_block_timeout K P me deadline =
     recv_timeout_with K (lock_block_timeout P me deadline) (wait_block_timeout K P me Guard deadline)"

definition recv_sync_timeout ::
  "'k cont_ops \<Rightarrow> platform \<Rightarrow> tid \<Rightarrow> instant \<Rightarrow>
   (('a, 'k, 'w::len, 'z) channel_scheme, recv_timeout_error + 'a) prog" where
  "recv_sync_timeout K P me deadline =
     recv_timeout_with K (lock_sync_timeout P me deadline) (wait_sync_timeout K P me Guard deadline)"

definition recv_async_timeout ::
  "'k cont_ops \<Rightarrow> instant \<Rightarrow> (('a, 'k, 'w::len, 'z) channel_scheme, recv_timeout_error + 'a) prog" where
  "recv_async_timeout K deadline =
     recv_timeout_with K (lock_async_timeout K deadline) (wait_async_timeout K Guard deadline)"

text \<open>\<open>IntoIter::next\<close>: \<open>recv_sync().ok()\<close>.\<close>

definition iter_next ::
  "'k cont_ops \<Rightarrow> platform \<Rightarrow> tid \<Rightarrow> (('a, 'k, 'w::len, 'z) channel_scheme, 'a option) prog" where
  "iter_next K P me = bind (recv_sync K P me) (\<lambda>r. case r of Inr t \<Rightarrow> Return (Some t) | Inl _ \<Rightarrow> Return None)"

subsection \<open>Steps\<close>

lemma channel_simple_steps [simp]:
  "running load_active" "running load_count" "running add_sender" "running sub_sender" "running store_inactive"
  "running (push_back v)" "running pop_front"
  "resume load_active s = Some (s, Return (receiver_active s))"
  "resume load_count s = Some (s, Return (sender_count s))"
  "resume add_sender s = Some (s\<lparr>sender_count := sender_count s + 1\<rparr>, Return (sender_count s))"
  "resume sub_sender s = Some (s\<lparr>sender_count := sender_count s - 1\<rparr>, Return (sender_count s))"
  "resume store_inactive s = Some (s\<lparr>receiver_active := False\<rparr>, Return ())"
  by (simp_all add: load_active_def load_count_def add_sender_def sub_sender_def store_inactive_def
      push_back_def pop_front_def)

lemma queue_steps [simp]:
  "resume (push_back v) s = Some (s, guard_write (inner s @ [v]))"
  "resume pop_front s = Some (s, case inner s of [] \<Rightarrow> Return None
     | t # rest \<Rightarrow> seq (guard_write rest) (Return (Some t)))"
  by (simp_all add: push_back_def pop_front_def)

lemma channel_running [simp]:
  "running (send_with K l v)" "running (send_locked K v)" "running (try_recv K)"
  "running (recv_body K w)" "running (recv_timeout_body K w')" "running (sender_drop K)"
  "running (receiver_drop K)" "running sender_clone"
  by (simp_all add: send_with_def send_locked_def try_recv_def recv_body_def recv_timeout_body_def
      sender_drop_def receiver_drop_def sender_clone_def)

end
