(* ===== verification/Mutex_Machine.thy ===== *)
theory Mutex_Machine
  imports Mutex
begin

section \<open>Threads that share one mutex\<close>

text \<open>
  Any number of threads and tasks, each running any list of operations: acquire the mutex by
  any of the crate's strategies, change the data through the guard, drop the guard. This theory
  gives the control points of such a client and shows that they are the points of the program.
\<close>

datatype acquisition =
    TryLock
  | LockSpin
  | LockSpinTimeout instant
  | LockBlock
  | LockBlockTimeout instant
  | LockAsync
  | LockAsyncTimeout instant
  | LockSync

datatype 'd mutex_op = Op acquisition "'d \<Rightarrow> 'd"

definition some_guard ::
  "(('d, 'k, 'z) mutex_scheme, guard) prog \<Rightarrow> (('d, 'k, 'z) mutex_scheme, guard option) prog" where
  "some_guard p = bind p (\<lambda>g. Return (Some g))"

fun acquire ::
  "'k cont_ops \<Rightarrow> platform \<Rightarrow> tid \<Rightarrow> acquisition \<Rightarrow>
   (('d, 'k, 'z) mutex_scheme, guard option) prog" where
  "acquire K P t TryLock =
     bind try_lock (\<lambda>r. case r of Inr g \<Rightarrow> Return (Some g) | Inl _ \<Rightarrow> Return None)"
| "acquire K P t LockSpin = some_guard lock_spin"
| "acquire K P t (LockSpinTimeout d) = lock_spin_timeout d"
| "acquire K P t LockBlock = some_guard (lock_block P t)"
| "acquire K P t (LockBlockTimeout d) = lock_block_timeout P t d"
| "acquire K P t LockAsync = some_guard (lock_async K)"
| "acquire K P t (LockAsyncTimeout d) = lock_async_timeout K d"
| "acquire K P t LockSync = some_guard (lock_sync P t)"

definition critical ::
  "'k cont_ops \<Rightarrow> ('d \<Rightarrow> 'd) \<Rightarrow> guard option \<Rightarrow> (('d, 'k, 'z) mutex_scheme, unit) prog" where
  "critical K f g = (case g of
       None \<Rightarrow> Return ()
     | Some _ \<Rightarrow> seq (guard_deref_mut f) (guard_drop K))"

fun mutex_client ::
  "'k cont_ops \<Rightarrow> platform \<Rightarrow> tid \<Rightarrow> 'd mutex_op list \<Rightarrow> (('d, 'k, 'z) mutex_scheme, unit) prog" where
  "mutex_client K P t [] = Return ()"
| "mutex_client K P t (Op a f # ops) =
     seq skip (seq (bind (acquire K P t a) (critical K f)) (mutex_client K P t ops))"

subsection \<open>Control points\<close>

text \<open>
  One data type for the points of each group of calls: \<open>try_lock\<close> and the spinning pair, the
  blocking pair, the asynchronous pair, and the critical section with the drop of the guard.
  The points of an acquisition carry its deadline, \<open>None\<close> for the calls without one.
\<close>

datatype spoint = TryNow | SSwap "instant option" | SNow instant | SHint "instant option"

datatype bpoint =
    BNow instant | BLast instant | BSwap "instant option" | BHint "instant option"
  | BTry "instant option" | BPush "instant option" | BGot "instant option" | BFail "instant option"
  | BPark | BRem instant | BTime instant nat | BUntil instant instant | BBack "instant option"

datatype apoint =
    ANow instant | ALast instant | ASwap "instant option" | AHint "instant option"
  | ATry "instant option" | ANew "instant option" | APush "instant option" cid
  | AGot "instant option" | AFail "instant option" cid
  | AAwait cid | ATimer instant cid | ASpawn instant cid cid | ARace instant cid cid
  | ABack "instant option"

datatype 'd dpoint =
    Read | Write 'd | DStore
  | DSSwap | DSHint | DSTake | DSRel "tid list" | DWake tid "tid list"
  | DASwap | DAHint | DATake | DARel "cid list" | DSend cid "cid list"

datatype 'd point = S spoint | B bpoint | A apoint | D "'d dpoint" | Dead

datatype 'd mthread = Idle "'d mutex_op list" | At "'d point" "'d \<Rightarrow> 'd" "'d mutex_op list"

fun start_point :: "platform \<Rightarrow> acquisition \<Rightarrow> 'd point" where
  "start_point P TryLock = S TryNow"
| "start_point P LockSpin = S (SSwap None)"
| "start_point P (LockSpinTimeout d) = S (SSwap (Some d))"
| "start_point P LockBlock = B (BSwap None)"
| "start_point P (LockBlockTimeout d) = B (BNow d)"
| "start_point P LockAsync = A (ASwap None)"
| "start_point P (LockAsyncTimeout d) = A (ANow d)"
| "start_point P LockSync = (if can_block P then B (BSwap None) else S (SSwap None))"

subsection \<open>The rest of the program at each point\<close>

fun spin_point_code ::
  "'k cont_ops \<Rightarrow> platform \<Rightarrow> tid \<Rightarrow> spoint \<Rightarrow> (('d, 'k, 'z) mutex_scheme, guard option) prog" where
  "spin_point_code K P t TryNow = acquire K P t TryLock"
| "spin_point_code K P t (SSwap dl) =
     (case dl of None \<Rightarrow> some_guard lock_spin | Some d \<Rightarrow> lock_spin_timeout d)"
| "spin_point_code K P t (SNow d) = loop_from (lock_spin_timeout_body d)
     (bind now (\<lambda>n. if d \<le> n then break None else continue))"
| "spin_point_code K P t (SHint dl) =
     (case dl of
        None \<Rightarrow> some_guard (loop_from lock_spin_body continue)
      | Some d \<Rightarrow> loop_from (lock_spin_timeout_body d) continue)"

definition block_code ::
  "platform \<Rightarrow> tid \<Rightarrow> instant option \<Rightarrow> (('d, 'k, 'z) mutex_scheme, not_available + guard) prog \<Rightarrow>
   (('d, 'k, 'z) mutex_scheme, guard option) prog" where
  "block_code P t dl p = (case dl of
       None \<Rightarrow> some_guard (loop_from (lock_block_body P t) (bind p (lock_block_after P t)))
     | Some d \<Rightarrow>
         loop_from (lock_block_timeout_body P t d) (bind p (lock_block_timeout_after P t d)))"

definition async_code ::
  "'k cont_ops \<Rightarrow> instant option \<Rightarrow> (('d, 'k, 'z) mutex_scheme, cid + guard) prog \<Rightarrow>
   (('d, 'k, 'z) mutex_scheme, guard option) prog" where
  "async_code K dl p = (case dl of
       None \<Rightarrow> some_guard (loop_from (lock_async_body K) (bind p (lock_async_after K)))
     | Some d \<Rightarrow>
         loop_from (lock_async_timeout_body K d) (bind p (lock_async_timeout_after K d)))"

abbreviation "push_then_fail t \<equiv> seq (push sync_list t) (Return (Inl NotAvailable))"
abbreviation "push_then_wait c \<equiv> seq (push async_list c) (Return (Inl c))"

fun block_point_code ::
  "platform \<Rightarrow> tid \<Rightarrow> bpoint \<Rightarrow> (('d, 'k, 'z) mutex_scheme, guard option) prog" where
  "block_point_code P t (BNow d) = lock_block_timeout P t d"
| "block_point_code P t (BLast d) = loop_from (lock_block_timeout_body P t d) last_try"
| "block_point_code P t (BSwap dl) = block_code P t dl (with_mut sync_list (block_attempt t))"
| "block_point_code P t (BHint dl) = block_code P t dl (spin_hint sync_list (block_attempt t))"
| "block_point_code P t (BTry dl) = block_code P t dl (section_of sync_list (block_attempt t))"
| "block_point_code P t (BPush dl) = block_code P t dl (section_of sync_list (push_then_fail t))"
| "block_point_code P t (BGot dl) = block_code P t dl (unlocking sync_list (Inr Guard))"
| "block_point_code P t (BFail dl) = block_code P t dl (unlocking sync_list (Inl NotAvailable))"
| "block_point_code P t BPark =
     some_guard (loop_from (lock_block_body P t) (seq (park P t) continue))"
| "block_point_code P t (BRem d) = loop_from (lock_block_timeout_body P t d)
     (seq (bind now (\<lambda>n. park_timeout P t (d - n))) continue)"
| "block_point_code P t (BTime d n) = loop_from (lock_block_timeout_body P t d)
     (seq (park_timeout P t n) continue)"
| "block_point_code P t (BUntil d w) = loop_from (lock_block_timeout_body P t d)
     (seq (park_until P t w) continue)"
| "block_point_code P t (BBack dl) =
     (case dl of
        None \<Rightarrow> some_guard (loop_from (lock_block_body P t) continue)
      | Some d \<Rightarrow> loop_from (lock_block_timeout_body P t d) continue)"

fun async_point_code ::
  "'k cont_ops \<Rightarrow> apoint \<Rightarrow> (('d, 'k, 'z) mutex_scheme, guard option) prog" where
  "async_point_code K (ANow d) = lock_async_timeout K d"
| "async_point_code K (ALast d) = loop_from (lock_async_timeout_body K d) last_try"
| "async_point_code K (ASwap dl) = async_code K dl (with_mut async_list (async_attempt K))"
| "async_point_code K (AHint dl) = async_code K dl (spin_hint async_list (async_attempt K))"
| "async_point_code K (ATry dl) = async_code K dl (section_of async_list (async_attempt K))"
| "async_point_code K (ANew dl) =
     async_code K dl (section_of async_list (bind (continuation K) (\<lambda>c. push_then_wait c)))"
| "async_point_code K (APush dl c) = async_code K dl (section_of async_list (push_then_wait c))"
| "async_point_code K (AGot dl) = async_code K dl (unlocking async_list (Inr Guard))"
| "async_point_code K (AFail dl c) = async_code K dl (unlocking async_list (Inl c))"
| "async_point_code K (AAwait c) =
     some_guard (loop_from (lock_async_body K) (seq (await_cont K c) continue))"
| "async_point_code K (ATimer d c) =
     loop_from (lock_async_timeout_body K d) (lock_async_timeout_after K d (Inl c))"
| "async_point_code K (ASpawn d c ct) = loop_from (lock_async_timeout_body K d)
     (seq (spawn_timer d ct)
        (bind (race K c ct) (\<lambda>timed_out. if timed_out then break None else continue)))"
| "async_point_code K (ARace d c ct) = loop_from (lock_async_timeout_body K d)
     (bind (race K c ct) (\<lambda>timed_out. if timed_out then break None else continue))"
| "async_point_code K (ABack dl) =
     (case dl of
        None \<Rightarrow> some_guard (loop_from (lock_async_body K) continue)
      | Some d \<Rightarrow> loop_from (lock_async_timeout_body K d) continue)"

fun drop_point_code ::
  "'k cont_ops \<Rightarrow> ('d \<Rightarrow> 'd) \<Rightarrow> 'd dpoint \<Rightarrow> (('d, 'k, 'z) mutex_scheme, unit) prog" where
  "drop_point_code K f Read = seq (guard_deref_mut f) (guard_drop K)"
| "drop_point_code K f (Write v) = seq (guard_write (f v)) (guard_drop K)"
| "drop_point_code K f DStore = guard_drop K"
| "drop_point_code K f DSSwap = did_unlock K"
| "drop_point_code K f DSHint =
     bind (spin_hint sync_list (mem_take sync_list)) (wake_sync_then_async K)"
| "drop_point_code K f DSTake =
     bind (section_of sync_list (mem_take sync_list)) (wake_sync_then_async K)"
| "drop_point_code K f (DSRel ts) = bind (unlocking sync_list ts) (wake_sync_then_async K)"
| "drop_point_code K f (DWake u ts) = wake_sync_then_async K (u # ts)"
| "drop_point_code K f DASwap = wake_async K"
| "drop_point_code K f DAHint =
     bind (spin_hint async_list (mem_take async_list)) (\<lambda>cs. for_each cs (send_cont K))"
| "drop_point_code K f DATake =
     bind (section_of async_list (mem_take async_list)) (\<lambda>cs. for_each cs (send_cont K))"
| "drop_point_code K f (DARel cs) =
     bind (unlocking async_list cs) (\<lambda>cs. for_each cs (send_cont K))"
| "drop_point_code K f (DSend c cs) = for_each (c # cs) (send_cont K)"

fun point_code ::
  "'k cont_ops \<Rightarrow> platform \<Rightarrow> tid \<Rightarrow> ('d \<Rightarrow> 'd) \<Rightarrow> 'd point \<Rightarrow>
   (('d, 'k, 'z) mutex_scheme, unit) prog" where
  "point_code K P t f (S p) = bind (spin_point_code K P t p) (critical K f)"
| "point_code K P t f (B p) = bind (block_point_code P t p) (critical K f)"
| "point_code K P t f (A p) = bind (async_point_code K p) (critical K f)"
| "point_code K P t f (D p) = drop_point_code K f p"
| "point_code K P t f Dead = Panic park_blocked_msg"

fun mutex_code ::
  "'k cont_ops \<Rightarrow> platform \<Rightarrow> tid \<Rightarrow> 'd mthread \<Rightarrow> (('d, 'k, 'z) mutex_scheme, unit) prog" where
  "mutex_code K P t (Idle ops) = mutex_client K P t ops"
| "mutex_code K P t (At p f ops) = seq (point_code K P t f p) (mutex_client K P t ops)"

subsection \<open>The access made from each point\<close>

text \<open>The result is the new state and the next point, \<open>None\<close> when the operation is over.\<close>

definition wake_point :: "tid list \<Rightarrow> 'd point option" where
  "wake_point ts = Some (D (case ts of [] \<Rightarrow> DASwap | u # us \<Rightarrow> DWake u us))"

definition send_point :: "cid list \<Rightarrow> 'd point option" where
  "send_point cs = (case cs of [] \<Rightarrow> None | c # cs \<Rightarrow> Some (D (DSend c cs)))"

abbreviation "lock_sync_list b s \<equiv>
  s\<lparr>waiting_sync_threads := (waiting_sync_threads s)\<lparr>locked := b\<rparr>\<rparr>"
abbreviation "lock_async_list b s \<equiv>
  s\<lparr>waiting_async_threads := (waiting_async_threads s)\<lparr>locked := b\<rparr>\<rparr>"
abbreviation "set_sync_list xs s \<equiv>
  s\<lparr>waiting_sync_threads := (waiting_sync_threads s)\<lparr>data := xs\<rparr>\<rparr>"
abbreviation "set_async_list xs s \<equiv>
  s\<lparr>waiting_async_threads := (waiting_async_threads s)\<lparr>data := xs\<rparr>\<rparr>"

fun spin_point_step ::
  "spoint \<Rightarrow> ('d, 'k, 'z) mutex_scheme \<Rightarrow> (('d, 'k, 'z) mutex_scheme \<times> 'd point option) option" where
  "spin_point_step TryNow s =
     Some (if data_lock s then (s, None) else (s\<lparr>data_lock := True\<rparr>, Some (D Read)))"
| "spin_point_step (SSwap dl) s = Some (s\<lparr>data_lock := True\<rparr>,
     Some (if data_lock s then S (case dl of None \<Rightarrow> SHint None | Some d \<Rightarrow> SNow d) else D Read))"
| "spin_point_step (SNow d) s =
     Some (s, if d \<le> clock s then None else Some (S (SHint (Some d))))"
| "spin_point_step (SHint dl) s = Some (s, Some (S (SSwap dl)))"

fun block_point_step ::
  "platform \<Rightarrow> tid \<Rightarrow> bpoint \<Rightarrow> ('d, 'k, 'z) mutex_scheme \<Rightarrow>
   (('d, 'k, 'z) mutex_scheme \<times> 'd point option) option" where
  "block_point_step P t (BNow d) s =
     Some (s, Some (B (if d \<le> clock s then BLast d else BSwap (Some d))))"
| "block_point_step P t (BLast d) s =
     Some (if data_lock s then (s, None) else (s\<lparr>data_lock := True\<rparr>, Some (D Read)))"
| "block_point_step P t (BSwap dl) s = Some (lock_sync_list True s,
     Some (B (if locked (waiting_sync_threads s) then BHint dl else BTry dl)))"
| "block_point_step P t (BHint dl) s = Some (s, Some (B (BSwap dl)))"
| "block_point_step P t (BTry dl) s =
     Some (if data_lock s then (s, Some (B (BPush dl)))
           else (s\<lparr>data_lock := True\<rparr>, Some (B (BGot dl))))"
| "block_point_step P t (BPush dl) s =
     Some (set_sync_list (data (waiting_sync_threads s) @ [t]) s, Some (B (BFail dl)))"
| "block_point_step P t (BGot dl) s = Some (lock_sync_list False s, Some (D Read))"
| "block_point_step P t (BFail dl) s = Some (lock_sync_list False s,
     Some (B (case dl of None \<Rightarrow> BPark | Some d \<Rightarrow> BRem d)))"
| "block_point_step P t BPark s =
     (if token s t then Some (take_token t s, Some (B (BBack None)))
      else if can_block P then None else Some (s, Some Dead))"
| "block_point_step P t (BRem d) s = Some (s, Some (B (BTime d (d - clock s))))"
| "block_point_step P t (BTime d n) s = Some (s, Some (B (BUntil d (clock s + n))))"
| "block_point_step P t (BUntil d w) s =
     (if token s t then Some (take_token t s, Some (B (BBack (Some d))))
      else if \<not> can_block P then Some (s, Some Dead)
      else if w \<le> clock s then Some (s, Some (B (BBack (Some d)))) else None)"
| "block_point_step P t (BBack dl) s =
     Some (s, Some (B (case dl of None \<Rightarrow> BSwap None | Some d \<Rightarrow> BNow d)))"

fun async_point_step ::
  "'k cont_ops \<Rightarrow> apoint \<Rightarrow> ('d, 'k, 'z) mutex_scheme \<Rightarrow>
   (('d, 'k, 'z) mutex_scheme \<times> 'd point option) option" where
  "async_point_step K (ANow d) s =
     Some (s, Some (A (if d \<le> clock s then ALast d else ASwap (Some d))))"
| "async_point_step K (ALast d) s =
     Some (if data_lock s then (s, None) else (s\<lparr>data_lock := True\<rparr>, Some (D Read)))"
| "async_point_step K (ASwap dl) s = Some (lock_async_list True s,
     Some (A (if locked (waiting_async_threads s) then AHint dl else ATry dl)))"
| "async_point_step K (AHint dl) s = Some (s, Some (A (ASwap dl)))"
| "async_point_step K (ATry dl) s =
     Some (if data_lock s then (s, Some (A (ANew dl)))
           else (s\<lparr>data_lock := True\<rparr>, Some (A (AGot dl))))"
| "async_point_step K (ANew dl) s =
     Some (s\<lparr>conts := snd (k_new K (conts s))\<rparr>, Some (A (APush dl (fst (k_new K (conts s))))))"
| "async_point_step K (APush dl c) s =
     Some (set_async_list (data (waiting_async_threads s) @ [c]) s, Some (A (AFail dl c)))"
| "async_point_step K (AGot dl) s = Some (lock_async_list False s, Some (D Read))"
| "async_point_step K (AFail dl c) s = Some (lock_async_list False s,
     Some (A (case dl of None \<Rightarrow> AAwait c | Some d \<Rightarrow> ATimer d c)))"
| "async_point_step K (AAwait c) s =
     (if k_ready K c (conts s) then Some (s, Some (A (ABack None))) else None)"
| "async_point_step K (ATimer d c) s =
     Some (s\<lparr>conts := snd (k_new K (conts s))\<rparr>, Some (A (ASpawn d c (fst (k_new K (conts s))))))"
| "async_point_step K (ASpawn d c ct) s =
     Some (s\<lparr>timers := (d, ct) # timers s\<rparr>, Some (A (ARace d c ct)))"
| "async_point_step K (ARace d c ct) s =
     (if k_ready K c (conts s) then Some (s, Some (A (ABack (Some d))))
      else if k_ready K ct (conts s) then Some (s, None) else None)"
| "async_point_step K (ABack dl) s =
     Some (s, Some (A (case dl of None \<Rightarrow> ASwap None | Some d \<Rightarrow> ANow d)))"

fun drop_point_step ::
  "'k cont_ops \<Rightarrow> ('d \<Rightarrow> 'd) \<Rightarrow> 'd dpoint \<Rightarrow> ('d, 'k, 'z) mutex_scheme \<Rightarrow>
   (('d, 'k, 'z) mutex_scheme \<times> 'd point option) option" where
  "drop_point_step K f Read s = Some (s, Some (D (Write (inner s))))"
| "drop_point_step K f (Write v) s = Some (s\<lparr>inner := f v\<rparr>, Some (D DStore))"
| "drop_point_step K f DStore s = Some (s\<lparr>data_lock := False\<rparr>, Some (D DSSwap))"
| "drop_point_step K f DSSwap s = Some (lock_sync_list True s,
     Some (D (if locked (waiting_sync_threads s) then DSHint else DSTake)))"
| "drop_point_step K f DSHint s = Some (s, Some (D DSSwap))"
| "drop_point_step K f DSTake s =
     Some (set_sync_list [] s, Some (D (DSRel (data (waiting_sync_threads s)))))"
| "drop_point_step K f (DSRel ts) s = Some (lock_sync_list False s, wake_point ts)"
| "drop_point_step K f (DWake u ts) s = Some (set_token u s, wake_point ts)"
| "drop_point_step K f DASwap s = Some (lock_async_list True s,
     Some (D (if locked (waiting_async_threads s) then DAHint else DATake)))"
| "drop_point_step K f DAHint s = Some (s, Some (D DASwap))"
| "drop_point_step K f DATake s =
     Some (set_async_list [] s, Some (D (DARel (data (waiting_async_threads s)))))"
| "drop_point_step K f (DARel cs) s = Some (lock_async_list False s, send_point cs)"
| "drop_point_step K f (DSend c cs) s =
     Some (s\<lparr>conts := k_send K c (conts s)\<rparr>, send_point cs)"

fun point_step ::
  "'k cont_ops \<Rightarrow> platform \<Rightarrow> tid \<Rightarrow> ('d \<Rightarrow> 'd) \<Rightarrow> 'd point \<Rightarrow> ('d, 'k, 'z) mutex_scheme \<Rightarrow>
   (('d, 'k, 'z) mutex_scheme \<times> 'd point option) option" where
  "point_step K P t f (S p) s = spin_point_step p s"
| "point_step K P t f (B p) s = block_point_step P t p s"
| "point_step K P t f (A p) s = async_point_step K p s"
| "point_step K P t f (D p) s = drop_point_step K f p s"
| "point_step K P t f Dead s = None"

definition next_thread :: "('d \<Rightarrow> 'd) \<Rightarrow> 'd mutex_op list \<Rightarrow> 'd point option \<Rightarrow> 'd mthread" where
  "next_thread f ops p = (case p of None \<Rightarrow> Idle ops | Some p \<Rightarrow> At p f ops)"

fun mutex_pstep ::
  "'k cont_ops \<Rightarrow> platform \<Rightarrow> tid \<Rightarrow> 'd mthread \<Rightarrow> ('d, 'k, 'z) mutex_scheme \<Rightarrow>
   (('d, 'k, 'z) mutex_scheme \<times> 'd mthread) option" where
  "mutex_pstep K P t (Idle []) s = None"
| "mutex_pstep K P t (Idle (Op a f # ops)) s = Some (s, At (start_point P a) f ops)"
| "mutex_pstep K P t (At p f ops) s =
     map_option (map_prod id (next_thread f ops)) (point_step K P t f p s)"

subsection \<open>The points are the points of the program\<close>

lemma point_code_simps [simp]:
  "running (some_guard p) = running p"
  "running p \<Longrightarrow> resume (some_guard p) s = map_option (map_prod id some_guard) (resume p s)"
  "some_guard (Return g) = Return (Some g)"
  "some_guard (Panic m) = Panic m"
  "critical K f None = Return ()"
  "critical K f (Some g) = seq (guard_deref_mut f) (guard_drop K)"
  by (cases p; simp add: some_guard_def [abs_def] critical_def bind_Act)+

lemma spin_point_code_step:
  "resume (bind (spin_point_code K P t p) (critical K f)) s =
     map_option (map_prod id (\<lambda>q. case q of None \<Rightarrow> Return () | Some p \<Rightarrow> point_code K P t f p))
       (spin_point_step p s)"
  by (cases p) (simp_all split: option.splits)

lemma block_point_code_step:
  "resume (bind (block_point_code P t p) (critical K f)) s =
     map_option (map_prod id (\<lambda>q. case q of None \<Rightarrow> Return () | Some p \<Rightarrow> point_code K P t f p))
       (block_point_step P t p s)"
  by (cases p) (simp_all add: block_code_def split: option.splits)

lemma async_point_code_step:
  "resume (bind (async_point_code K p) (critical K f)) s =
     map_option (map_prod id (\<lambda>q. case q of None \<Rightarrow> Return () | Some p \<Rightarrow> point_code K P t f p))
       (async_point_step K p s)"
  by (cases p) (simp_all add: async_code_def split: option.splits)

lemma wake_rest [simp]:
  "(case wake_point ts of None \<Rightarrow> Return () | Some p \<Rightarrow> point_code K P t f p) =
     wake_sync_then_async K ts"
  "(case send_point cs of None \<Rightarrow> Return () | Some p \<Rightarrow> point_code K P t f p) =
     for_each cs (send_cont K)"
  by (cases ts; cases cs; simp add: wake_point_def send_point_def)+

lemma wake_sync_step [simp]:
  "running (wake_sync_then_async K (u # ts))"
  "resume (wake_sync_then_async K (u # ts)) s = Some (set_token u s, wake_sync_then_async K ts)"
  by (simp_all add: wake_sync_then_async_def)

lemma drop_point_code_step:
  "resume (drop_point_code K f p) s =
     map_option (map_prod id (\<lambda>q. case q of None \<Rightarrow> Return () | Some p \<Rightarrow> point_code K P t f p))
       (drop_point_step K f p s)"
  by (cases p) simp_all

lemma point_code_step:
  "resume (point_code K P t f p) s =
     map_option (map_prod id (\<lambda>q. case q of None \<Rightarrow> Return () | Some p \<Rightarrow> point_code K P t f p))
       (point_step K P t f p s)"
  by (cases p)
    (simp_all add: spin_point_code_step block_point_code_step async_point_code_step
      drop_point_code_step del: resume_bind)

lemma start_point_code [simp]:
  "point_code K P t f (start_point P a) = bind (acquire K P t a) (critical K f)"
  by (cases a)
    (simp_all add: lock_sync_def block_code_def async_code_def)

lemma point_code_running: "p \<noteq> Dead \<Longrightarrow> running (point_code K P t f p)"
proof (cases p)
  case (S q) then show ?thesis by (cases q) (simp_all split: option.splits)
next
  case (B q) then show ?thesis by (cases q) (simp_all add: block_code_def split: option.splits)
next
  case (A q) then show ?thesis by (cases q) (simp_all add: async_code_def split: option.splits)
next
  case (D q) then show ?thesis by (cases q) simp_all
qed simp

lemma next_thread_code:
  "mutex_code K P t (next_thread f ops q) =
     seq (case q of None \<Rightarrow> Return () | Some p \<Rightarrow> point_code K P t f p) (mutex_client K P t ops)"
  by (simp add: next_thread_def split: option.splits)

lemma mutex_code_step:
  "resume (mutex_code K P t pc) s = map_option (map_prod id (mutex_code K P t)) (mutex_pstep K P t pc s)"
proof (cases "(K, P, t, pc, s)" rule: mutex_pstep.cases)
  case (3 K' P' t' p f ops s')
  show ?thesis
  proof (cases "p = Dead")
    case False
    with 3 show ?thesis
      by (cases "point_step K P t f p s")
        (auto simp: point_code_running point_code_step next_thread_code)
  qed (use 3 in simp)
qed simp_all

interpretation mutex_points: pc_program "mutex_code K P" "mutex_pstep K P" for K P
  by unfold_locales (rule mutex_code_step)

end
