(* ===== verification/Mutex_Safety.thy ===== *)
theory Mutex_Safety
  imports Mutex_Machine Waiting
begin

section \<open>Mutual exclusion and wakeups of the mutex\<close>

fun holds_point :: "'d point \<Rightarrow> bool" where
  "holds_point (B (BGot dl)) = True"
| "holds_point (A (AGot dl)) = True"
| "holds_point (D p) = (case p of Read \<Rightarrow> True | Write v \<Rightarrow> True | DStore \<Rightarrow> True | _ \<Rightarrow> False)"
| "holds_point _ = False"

text \<open>Which points are where in the protocol of the two waiting lists.\<close>

fun in_sync_point :: "'d point \<Rightarrow> bool" where
  "in_sync_point (B p) =
     (case p of BTry dl \<Rightarrow> True | BPush dl \<Rightarrow> True | BGot dl \<Rightarrow> True | BFail dl \<Rightarrow> True | _ \<Rightarrow> False)"
| "in_sync_point (D p) = (case p of DSTake \<Rightarrow> True | DSRel ts \<Rightarrow> True | _ \<Rightarrow> False)"
| "in_sync_point _ = False"

fun in_async_point :: "'d point \<Rightarrow> bool" where
  "in_async_point (A p) =
     (case p of ATry dl \<Rightarrow> True | ANew dl \<Rightarrow> True | APush dl c \<Rightarrow> True | AGot dl \<Rightarrow> True
      | AFail dl c \<Rightarrow> True | _ \<Rightarrow> False)"
| "in_async_point (D p) = (case p of DATake \<Rightarrow> True | DARel cs \<Rightarrow> True | _ \<Rightarrow> False)"
| "in_async_point _ = False"

fun sync_waits_point :: "'d point \<Rightarrow> bool" where
  "sync_waits_point (B p) =
     (case p of BFail dl \<Rightarrow> True | BPark \<Rightarrow> True | BRem d \<Rightarrow> True | BTime d n \<Rightarrow> True
      | BUntil d w \<Rightarrow> True | _ \<Rightarrow> False)"
| "sync_waits_point _ = False"

fun async_waits_point :: "'d point \<Rightarrow> cid \<Rightarrow> bool" where
  "async_waits_point (A p) c =
     (case p of AFail dl c' \<Rightarrow> c' = c | AAwait c' \<Rightarrow> c' = c | ATimer d c' \<Rightarrow> c' = c
      | ASpawn d c' ct \<Rightarrow> c' = c | ARace d c' ct \<Rightarrow> c' = c | _ \<Rightarrow> False)"
| "async_waits_point _ c = False"

fun sync_push_point :: "'d point \<Rightarrow> bool" where
  "sync_push_point (B p) = (case p of BPush dl \<Rightarrow> True | _ \<Rightarrow> False)"
| "sync_push_point _ = False"

fun async_push_point :: "'d point \<Rightarrow> bool" where
  "async_push_point (A p) = (case p of ANew dl \<Rightarrow> True | APush dl c \<Rightarrow> True | _ \<Rightarrow> False)"
| "async_push_point _ = False"

fun sync_take_point :: "'d point \<Rightarrow> bool" where
  "sync_take_point (D p) = (case p of DSSwap \<Rightarrow> True | DSHint \<Rightarrow> True | DSTake \<Rightarrow> True | _ \<Rightarrow> False)"
| "sync_take_point _ = False"

fun async_take_point :: "'d point \<Rightarrow> bool" where
  "async_take_point (D p) =
     (case p of DSSwap \<Rightarrow> True | DSHint \<Rightarrow> True | DSTake \<Rightarrow> True | DSRel ts \<Rightarrow> True
      | DWake u ts \<Rightarrow> True | DASwap \<Rightarrow> True | DAHint \<Rightarrow> True | DATake \<Rightarrow> True | _ \<Rightarrow> False)"
| "async_take_point _ = False"

fun to_wake_point :: "'d point \<Rightarrow> tid set" where
  "to_wake_point (D p) = (case p of DSRel ts \<Rightarrow> set ts | DWake u ts \<Rightarrow> set (u # ts) | _ \<Rightarrow> {})"
| "to_wake_point _ = {}"

fun to_send_point :: "'d point \<Rightarrow> cid set" where
  "to_send_point (D p) = (case p of DARel cs \<Rightarrow> set cs | DSend c cs \<Rightarrow> set (c # cs) | _ \<Rightarrow> {})"
| "to_send_point _ = {}"

fun at_point :: "('d point \<Rightarrow> bool) \<Rightarrow> 'd mthread \<Rightarrow> bool" where
  "at_point Q (Idle ops) = False"
| "at_point Q (At p f ops) = Q p"

fun of_point :: "('d point \<Rightarrow> 'x set) \<Rightarrow> 'd mthread \<Rightarrow> 'x set" where
  "of_point Q (Idle ops) = {}"
| "of_point Q (At p f ops) = Q p"

text \<open>Case analysis on the point a thread moves from.\<close>

lemma start_point_classes [simp]:
  "\<not> holds_point (start_point P a)" "\<not> in_sync_point (start_point P a)"
  "\<not> in_async_point (start_point P a)" "\<not> sync_waits_point (start_point P a)"
  "\<not> async_waits_point (start_point P a) c" "\<not> sync_push_point (start_point P a)"
  "\<not> async_push_point (start_point P a)" "\<not> sync_take_point (start_point P a)"
  "\<not> async_take_point (start_point P a)" "to_wake_point (start_point P a) = {}"
  "to_send_point (start_point P a) = {}"
  by (cases a; simp)+

lemma wake_point_at:
  "next_thread f ops (wake_point ts) = At (D (case ts of [] \<Rightarrow> DASwap | u # us \<Rightarrow> DWake u us)) f ops"
  by (simp add: next_thread_def wake_point_def)

lemma send_point_at:
  "next_thread f ops (send_point cs) = (case cs of [] \<Rightarrow> Idle ops | c # cs \<Rightarrow> At (D (DSend c cs)) f ops)"
  by (simp add: next_thread_def send_point_def split: list.splits)

lemma next_thread_simps [simp]:
  "next_thread f ops None = Idle ops"
  "next_thread f ops (Some p) = At p f ops"
  by (simp_all add: next_thread_def)

lemma mutex_pstep_cases:
  assumes "mutex_pstep K P i pc s = Some (s', pc')"
  obtains (start) a f ops where "pc = Idle (Op a f # ops)" "s' = s" "pc' = At (start_point P a) f ops"
  | (spin) p f ops q where "pc = At (S p) f ops" "spin_point_step p s = Some (s', q)"
      "pc' = next_thread f ops q"
  | (block) p f ops q where "pc = At (B p) f ops" "block_point_step P i p s = Some (s', q)"
      "pc' = next_thread f ops q"
  | (async) p f ops q where "pc = At (A p) f ops" "async_point_step K p s = Some (s', q)"
      "pc' = next_thread f ops q"
  | (drop) p f ops q where "pc = At (D p) f ops" "drop_point_step K f p s = Some (s', q)"
      "pc' = next_thread f ops q"
  using assms
proof (cases "(K, P, i, pc, s)" rule: mutex_pstep.cases)
  case (3 K' P' t' p f ops s1)
  with assms that show ?thesis by (cases p) (auto simp: id_def)
qed (use assms that in auto)

text \<open>One step and the three flags: the lock itself and the spinlocks of its two lists.\<close>

lemma mutex_flags:
  assumes "mutex_pstep K P i pc s = Some (s', pc')"
  shows "flag_step (data_lock s) (data_lock s') (at_point holds_point) pc pc' \<and>
    flag_step (locked (waiting_sync_threads s)) (locked (waiting_sync_threads s'))
      (at_point in_sync_point) pc pc' \<and>
    flag_step (locked (waiting_async_threads s)) (locked (waiting_async_threads s'))
      (at_point in_async_point) pc pc'"
  using assms
proof (cases rule: mutex_pstep_cases)
  case start
  then show ?thesis by (simp add: flag_step_def)
next
  case (spin p f ops q)
  then show ?thesis by (cases p) (auto simp: flag_step_def split: if_splits option.splits)
next
  case (block p f ops q)
  then show ?thesis
    by (cases p) (auto simp: flag_step_def take_token_def split: if_splits option.splits)
next
  case (async p f ops q)
  then show ?thesis by (cases p) (auto simp: flag_step_def split: if_splits option.splits)
next
  case (drop p f ops q)
  then show ?thesis
    by (cases p) (auto simp: flag_step_def wake_point_at send_point_at set_token_def
        split: if_splits option.splits list.splits)
qed

text \<open>One step and the waiting list of threads.\<close>

definition sync_listed :: "('d, 'k, 'z) mutex_scheme \<Rightarrow> tid set" where
  "sync_listed s = set (data (waiting_sync_threads s))"

definition sync_waits :: "'d mthread \<Rightarrow> tid \<Rightarrow> tid \<Rightarrow> bool" where
  "sync_waits pc t c \<longleftrightarrow> at_point sync_waits_point pc \<and> c = t"

lemma sync_effect:
  assumes "mutex_pstep K P i pc s = Some (s', pc')"
  shows "(\<forall>c. token s c \<longrightarrow> token s' c \<or> sync_waits pc i c \<and> \<not> sync_waits pc' i c) \<and>
    sync_listed s \<subseteq> sync_listed s' \<union> of_point to_wake_point pc' \<and>
    (\<forall>c\<in>of_point to_wake_point pc. c \<in> of_point to_wake_point pc' \<or> token s' c) \<and>
    (at_point sync_waits_point pc' \<longrightarrow> at_point sync_waits_point pc \<or> i \<in> sync_listed s') \<and>
    (data_lock s \<and> \<not> data_lock s' \<longrightarrow> at_point sync_take_point pc') \<and>
    (sync_listed s = {} \<and> sync_listed s' \<noteq> {} \<longrightarrow> at_point sync_push_point pc) \<and>
    (at_point sync_push_point pc' \<longrightarrow> at_point sync_push_point pc \<or> data_lock s') \<and>
    (at_point sync_take_point pc \<longrightarrow> at_point sync_take_point pc' \<or>
       sync_listed s' = {} \<and> at_point in_sync_point pc \<and> \<not> at_point sync_push_point pc')"
  using assms
proof (cases rule: mutex_pstep_cases)
  case start
  then show ?thesis by (simp add: sync_waits_def)
next
  case (spin p f ops q)
  then show ?thesis
    by (cases p) (auto simp: sync_waits_def sync_listed_def split: if_splits option.splits)
next
  case (block p f ops q)
  then show ?thesis
    by (cases p) (auto simp: sync_waits_def sync_listed_def take_token_def split: if_splits option.splits)
next
  case (async p f ops q)
  then show ?thesis
    by (cases p) (auto simp: sync_waits_def sync_listed_def split: if_splits option.splits)
next
  case (drop p f ops q)
  then show ?thesis
    by (cases p) (auto simp: sync_waits_def sync_listed_def wake_point_at send_point_at set_token_def
        split: if_splits option.splits list.splits)
qed

text \<open>How the points of one waiting list relate to its spinlock.\<close>

lemma sync_push_point_facts:
  "sync_push_point p \<Longrightarrow> in_sync_point p \<and> \<not> sync_take_point p"
proof (cases p)
  case (B q) then show "sync_push_point p \<Longrightarrow> ?thesis" by (cases q) simp_all
qed simp_all

lemma at_sync_push:
  assumes "at_point sync_push_point pc"
  shows "at_point in_sync_point pc" and "\<not> at_point sync_take_point pc"
  using assms sync_push_point_facts by (cases pc; auto)+

interpretation sync_waiting: waiting_list
  "mutex_pstep (K :: 'k cont_ops) P :: tid \<Rightarrow> 'd mthread \<Rightarrow> ('d, 'k, 'z) mutex_scheme \<Rightarrow> _" data_lock sync_listed token sync_waits
  "at_point in_sync_point" "at_point sync_push_point" "at_point sync_take_point"
  "of_point to_wake_point" for K P
proof unfold_locales
  fix i pc and s s' :: "('d, 'k, 'z) mutex_scheme" and pc' c
  assume st: "mutex_pstep K P i pc s = Some (s', pc')"
  note e = sync_effect [OF st]
  show "token s' c" if "token s c" "sync_waits pc' i c"
    using e that by blast
  show "token s' c" if "token s c" "t \<noteq> i" "sync_waits pc2 t c" for t pc2
    using e that unfolding sync_waits_def by blast
  show "c \<in> sync_listed s' \<or> c \<in> of_point to_wake_point pc'" if "c \<in> sync_listed s"
    using e that by blast
  show "c \<in> of_point to_wake_point pc' \<or> token s' c" if "c \<in> of_point to_wake_point pc"
    using e that by blast
  show "sync_waits pc i c \<or> c \<in> sync_listed s'" if "sync_waits pc' i c"
    using e that unfolding sync_waits_def by blast
  show "at_point sync_take_point pc'" if "data_lock s" "\<not> data_lock s'"
    using e that by blast
  show "at_point sync_push_point pc" if "sync_listed s = {}" "sync_listed s' \<noteq> {}"
    using e that by blast
  show "at_point sync_push_point pc \<or> data_lock s'" if "at_point sync_push_point pc'"
    using e that by blast
  show "at_point sync_take_point pc' \<or> sync_listed s' = {} \<and> at_point in_sync_point pc \<and>
    \<not> at_point sync_push_point pc'" if "at_point sync_take_point pc"
    using e that by blast
qed (auto dest: at_sync_push)

text \<open>One step and the waiting list of continuations.\<close>

definition async_listed :: "('d, 'k, 'z) mutex_scheme \<Rightarrow> cid set" where
  "async_listed s = set (data (waiting_async_threads s))"

lemma signalled_same [simp]:
  "signalled K (s\<lparr>data_lock := b\<rparr>) c = signalled K s c"
  "signalled K (s\<lparr>inner := v\<rparr>) c = signalled K s c"
  "signalled K (s\<lparr>token := tk\<rparr>) c = signalled K s c"
  "signalled K (s\<lparr>clock := n\<rparr>) c = signalled K s c"
  "signalled K (s\<lparr>timers := ts\<rparr>) c = signalled K s c"
  "signalled K (s\<lparr>waiting_sync_threads := l\<rparr>) c = signalled K s c"
  "signalled K (s\<lparr>waiting_async_threads := la\<rparr>) c = signalled K s c"
  for s :: "('d, 'k, 'z) mutex_scheme"
  by (simp_all add: signalled_def)

definition async_waits :: "'d mthread \<Rightarrow> tid \<Rightarrow> cid \<Rightarrow> bool" where
  "async_waits pc t c \<longleftrightarrow> at_point (\<lambda>p. async_waits_point p c) pc"

lemma async_effect:
  assumes "mutex_pstep K P i pc s = Some (s', pc')"
  shows "(\<forall>c. signalled K s c \<longrightarrow> signalled K s' c) \<and>
    async_listed s \<subseteq> async_listed s' \<union> of_point to_send_point pc' \<and>
    (\<forall>c\<in>of_point to_send_point pc. c \<in> of_point to_send_point pc' \<or> signalled K s' c) \<and>
    (\<forall>c. async_waits pc' i c \<longrightarrow> async_waits pc i c \<or> c \<in> async_listed s') \<and>
    (data_lock s \<and> \<not> data_lock s' \<longrightarrow> at_point async_take_point pc') \<and>
    (async_listed s = {} \<and> async_listed s' \<noteq> {} \<longrightarrow> at_point async_push_point pc) \<and>
    (at_point async_push_point pc' \<longrightarrow> at_point async_push_point pc \<or> data_lock s') \<and>
    (at_point async_take_point pc \<longrightarrow> at_point async_take_point pc' \<or>
       async_listed s' = {} \<and> at_point in_async_point pc \<and> \<not> at_point async_push_point pc')"
  using assms
proof (cases rule: mutex_pstep_cases)
  case start
  then show ?thesis by (simp add: async_waits_def)
next
  case (spin p f ops q)
  then show ?thesis
    by (cases p) (auto simp: async_waits_def async_listed_def split: if_splits option.splits)
next
  case (block p f ops q)
  then show ?thesis
    by (cases p) (auto simp: async_waits_def async_listed_def take_token_def
        split: if_splits option.splits)
next
  case (async p f ops q)
  then show ?thesis
    by (cases p) (auto simp: async_waits_def async_listed_def split: if_splits option.splits)
next
  case (drop p f ops q)
  then show ?thesis
    by (cases p) (auto simp: async_waits_def async_listed_def
        wake_point_at send_point_at set_token_def split: if_splits option.splits list.splits)
qed

lemma async_push_point_facts:
  "async_push_point p \<Longrightarrow> in_async_point p \<and> \<not> async_take_point p"
proof (cases p)
  case (A q) then show "async_push_point p \<Longrightarrow> ?thesis" by (cases q) simp_all
qed simp_all

lemma at_async_push:
  assumes "at_point async_push_point pc"
  shows "at_point in_async_point pc" and "\<not> at_point async_take_point pc"
  using assms async_push_point_facts by (cases pc; auto)+

interpretation async_waiting: waiting_list
  "mutex_pstep (K :: 'k cont_ops) P :: tid \<Rightarrow> 'd mthread \<Rightarrow> ('d, 'k, 'z) mutex_scheme \<Rightarrow> _" data_lock
  async_listed "signalled K" async_waits "at_point in_async_point" "at_point async_push_point"
  "at_point async_take_point" "of_point to_send_point" for K P
proof unfold_locales
  fix i pc and s s' :: "('d, 'k, 'z) mutex_scheme" and pc' c
  assume st: "mutex_pstep K P i pc s = Some (s', pc')"
  note e = async_effect [OF st]
  show "signalled K s' c" if "signalled K s c"
    using e that by blast
  then show "signalled K s' c" if "signalled K s c"
    using that by blast
  show "c \<in> async_listed s' \<or> c \<in> of_point to_send_point pc'" if "c \<in> async_listed s"
    using e that by blast
  show "c \<in> of_point to_send_point pc' \<or> signalled K s' c" if "c \<in> of_point to_send_point pc"
    using e that by blast
  show "async_waits pc i c \<or> c \<in> async_listed s'" if "async_waits pc' i c"
    using e that by blast
  show "at_point async_take_point pc'" if "data_lock s" "\<not> data_lock s'"
    using e that by blast
  show "at_point async_push_point pc" if "async_listed s = {}" "async_listed s' \<noteq> {}"
    using e that by blast
  show "at_point async_push_point pc \<or> data_lock s'" if "at_point async_push_point pc'"
    using e that by blast
  show "at_point async_take_point pc' \<or> async_listed s' = {} \<and> at_point in_async_point pc \<and>
    \<not> at_point async_push_point pc'" if "at_point async_take_point pc"
    using e that by blast
qed (auto dest: at_async_push)

end
