(* ===== verification/Mutex_Protocol.thy ===== *)
theory Mutex_Protocol
  imports Mutex_Safety "HOL-Library.Sublist"
begin

section \<open>The invariant of the mutex\<close>

text \<open>
  The invariant of any number of threads and tasks that share one mutex, in three parts: each of
  the three locks is held by exactly the thread at a holding point; no waiting call is
  forgotten; and the data is what a log of complete updates gives, to which each thread has
  contributed its own updates in its own order.
\<close>

subsection \<open>Locks and waiting lists\<close>

definition lists_inv :: "'k cont_ops \<Rightarrow> ('d, 'k, 'z) mutex_scheme \<Rightarrow> (tid \<Rightarrow> 'd mthread) \<Rightarrow> bool" where
  "lists_inv K s pcs \<longleftrightarrow>
     excl (data_lock s) (at_point holds_point) pcs \<and>
     excl (locked (waiting_sync_threads s)) (at_point in_sync_point) pcs \<and>
     excl (locked (waiting_async_threads s)) (at_point in_async_point) pcs \<and>
     covered sync_listed token sync_waits (of_point to_wake_point) s pcs \<and>
     promised data_lock sync_listed (at_point sync_push_point) (at_point sync_take_point) s pcs \<and>
     covered async_listed (signalled K) async_waits (of_point to_send_point) s pcs \<and>
     promised data_lock async_listed (at_point async_push_point) (at_point async_take_point) s pcs"

lemma lists_inv_step:
  assumes "lists_inv K s pcs" and "mutex_pstep K P i (pcs i) s = Some (s', pc')"
  shows "lists_inv K s' (pcs(i := pc'))"
  using assms mutex_flags [OF assms(2)]
  unfolding lists_inv_def
  by (meson excl_step sync_waiting.covered_step sync_waiting.promised_step
      async_waiting.covered_step async_waiting.promised_step)

lemma lists_inv_mono:
  assumes "lists_inv K s pcs" and "data_lock s' = data_lock s"
    and "waiting_sync_threads s' = waiting_sync_threads s"
    and "waiting_async_threads s' = waiting_async_threads s"
    and "\<And>t. token s t \<Longrightarrow> at_point sync_waits_point (pcs t) \<Longrightarrow> token s' t"
    and "\<And>c. signalled K s c \<Longrightarrow> signalled K s' c"
  shows "lists_inv K s' pcs"
proof -
  have "covered sync_listed token sync_waits (of_point to_wake_point) s' pcs"
    and "covered async_listed (signalled K) async_waits (of_point to_send_point) s' pcs"
    using assms unfolding lists_inv_def covered_def sync_listed_def async_listed_def sync_waits_def by metis+
  with assms show ?thesis
    unfolding lists_inv_def promised_def sync_listed_def async_listed_def by simp
qed

lemma lists_inv_env:
  assumes "lists_inv K s pcs" and "runtime_env K s s'"
  shows "lists_inv K s' pcs"
  using assms(1)
proof (rule lists_inv_mono)
  show "token s' t" if "token s t" for t
    using assms(2) that by cases (auto simp: set_token_def)
  show "signalled K s' c" if "signalled K s c" for c
    using assms(2) that by cases (auto simp: signalled_def set_token_def cont_lawsD)
qed (use assms(2) in \<open>cases, simp_all add: set_token_def\<close>)+

text \<open>Only a thread's role in the protocol matters: whether it holds the lock, is inside a list's
  spinlock, waits, is about to join or to empty a list, and whom it still has to wake.\<close>

definition same_role :: "'d mthread \<Rightarrow> 'd mthread \<Rightarrow> bool" where
  "same_role pc pc' \<longleftrightarrow>
     (\<forall>Q \<in> {holds_point, in_sync_point, in_async_point, sync_waits_point, sync_push_point,
         async_push_point, sync_take_point, async_take_point}. at_point Q pc = at_point Q pc') \<and>
     (\<forall>t. async_waits pc t = async_waits pc' t) \<and>
     of_point to_wake_point pc = of_point to_wake_point pc' \<and>
     of_point to_send_point pc = of_point to_send_point pc'"

lemma lists_inv_relabel:
  assumes "lists_inv K s pcs" and "same_role (pcs i) pc'"
  shows "lists_inv K s (pcs(i := pc'))"
proof -
  have "at_point Q ((pcs(i := pc')) t) = at_point Q (pcs t)"
    if "Q \<in> {holds_point, in_sync_point, in_async_point, sync_waits_point, sync_push_point,
         async_push_point, sync_take_point, async_take_point}" for Q t
    using that assms(2) by (auto simp: same_role_def)
  moreover have "async_waits ((pcs(i := pc')) t) u = async_waits (pcs t) u"
    "of_point to_wake_point ((pcs(i := pc')) t) = of_point to_wake_point (pcs t)"
    "of_point to_send_point ((pcs(i := pc')) t) = of_point to_send_point (pcs t)" for t u
    using assms(2) by (auto simp: same_role_def)
  ultimately show ?thesis
    using assms(1) by (simp add: lists_inv_def excl_def covered_def promised_def sync_waits_def del: fun_upd_apply)
qed

subsection \<open>The data\<close>

fun op_update :: "'d mutex_op \<Rightarrow> 'd \<Rightarrow> 'd" where
  "op_update (Op a f) = f"

text \<open>The updates a thread still has to make, the one of the current operation first.\<close>

fun updated_point :: "'d point \<Rightarrow> bool" where
  "updated_point (D p) = (case p of Read \<Rightarrow> False | Write v \<Rightarrow> False | _ \<Rightarrow> True)"
| "updated_point _ = False"

fun updates_left :: "'d mthread \<Rightarrow> ('d \<Rightarrow> 'd) list" where
  "updates_left (Idle ops) = map op_update ops"
| "updates_left (At p f ops) = (if updated_point p then [] else [f]) @ map op_update ops"

fun read_value :: "'d mthread \<Rightarrow> 'd option" where
  "read_value (At (D (Write v)) f ops) = Some v"
| "read_value _ = None"

text \<open>Operations that do not return without the lock: no \<open>try_lock\<close> and no timeout.\<close>

fun unconditional :: "'d mutex_op \<Rightarrow> bool" where
  "unconditional (Op a f) = (a \<in> {LockSpin, LockBlock, LockAsync, LockSync})"

fun unconditional_point :: "'d point \<Rightarrow> bool" where
  "unconditional_point (S p) = (case p of SSwap dl \<Rightarrow> dl = None | SHint dl \<Rightarrow> dl = None | _ \<Rightarrow> False)"
| "unconditional_point (B p) =
     (case p of BSwap dl \<Rightarrow> dl = None | BHint dl \<Rightarrow> dl = None | BTry dl \<Rightarrow> dl = None
      | BPush dl \<Rightarrow> dl = None | BGot dl \<Rightarrow> dl = None | BFail dl \<Rightarrow> dl = None | BPark \<Rightarrow> True
      | BBack dl \<Rightarrow> dl = None | _ \<Rightarrow> False)"
| "unconditional_point (A p) =
     (case p of ASwap dl \<Rightarrow> dl = None | AHint dl \<Rightarrow> dl = None | ATry dl \<Rightarrow> dl = None
      | ANew dl \<Rightarrow> dl = None | APush dl c \<Rightarrow> dl = None | AGot dl \<Rightarrow> dl = None
      | AFail dl c \<Rightarrow> dl = None | AAwait c \<Rightarrow> True | ABack dl \<Rightarrow> dl = None | _ \<Rightarrow> False)"
| "unconditional_point _ = True"

fun unconditional_thread :: "'d mthread \<Rightarrow> bool" where
  "unconditional_thread (Idle ops) = (\<forall>p\<in>set ops. unconditional p)"
| "unconditional_thread (At p f ops) = (unconditional_point p \<and> (\<forall>p\<in>set ops. unconditional p))"

text \<open>
  One step and the data: the step that writes applies the update to the value it read; any other
  step leaves the data, and drops an update only when the operation gave up.
\<close>

lemma data_effect:
  assumes "mutex_pstep K P i pc s = Some (s', pc')"
  shows "(case read_value pc of
      Some v \<Rightarrow> (\<exists>f ops. updates_left pc = f # ops \<and> updates_left pc' = ops \<and> inner s' = f v)
    | None \<Rightarrow> inner s' = inner s \<and>
        (updates_left pc' = updates_left pc \<or>
         \<not> unconditional_thread pc \<and> updates_left pc' = tl (updates_left pc))) \<and>
    (unconditional_thread pc \<longrightarrow> unconditional_thread pc') \<and>
    (\<forall>v. read_value pc' = Some v \<longrightarrow> v = inner s') \<and>
    (read_value pc \<noteq> None \<longrightarrow> at_point holds_point pc) \<and>
    (inner s' \<noteq> inner s \<longrightarrow> at_point holds_point pc)"
  using assms
proof (cases rule: mutex_pstep_cases)
  case (start a f ops)
  then show ?thesis by (cases a) simp_all
next
  case (spin p f ops q)
  then show ?thesis by (cases p) (auto split: if_splits option.splits)
next
  case (block p f ops q)
  then show ?thesis
    by (cases p) (auto simp: take_token_def split: if_splits option.splits)
next
  case (async p f ops q)
  then show ?thesis by (cases p) (auto split: if_splits option.splits)
next
  case (drop p f ops q)
  then show ?thesis
    by (cases p) (auto simp: wake_point_at send_point_at set_token_def
        split: if_splits option.splits list.splits)
qed

lemma read_value_holds: "read_value pc = Some v \<Longrightarrow> at_point holds_point pc"
  by (induction pc rule: read_value.induct) auto

definition log_of ::
  "(tid \<Rightarrow> 'd mutex_op list) \<Rightarrow> (tid \<Rightarrow> 'd mthread) \<Rightarrow> 'd log \<Rightarrow> bool" where
  "log_of ops pcs log \<longleftrightarrow>
     (\<forall>t. subseq (by_thread t log @ updates_left (pcs t)) (map op_update (ops t)) \<and>
       ((\<forall>p\<in>set (ops t). unconditional p) \<longrightarrow>
          unconditional_thread (pcs t) \<and>
          by_thread t log @ updates_left (pcs t) = map op_update (ops t)))"

definition data_inv ::
  "'d \<Rightarrow> (tid \<Rightarrow> 'd mutex_op list) \<Rightarrow> ('d, 'k, 'z) mutex_scheme \<Rightarrow> (tid \<Rightarrow> 'd mthread) \<Rightarrow> bool" where
  "data_inv v ops s pcs \<longleftrightarrow>
     (\<forall>t w. read_value (pcs t) = Some w \<longrightarrow> w = inner s) \<and>
     (\<exists>log. inner s = apply_log log v \<and> log_of ops pcs log)"

lemma subseq_append_tl: "subseq (xs @ ys) zs \<Longrightarrow> subseq (xs @ tl ys) zs"
  by (erule subseq_order.trans [rotated], rule list_emb_append_mono) (cases ys; auto)+

lemma log_of_same:
  assumes log: "log_of ops pcs log"
    and "updates_left pc' = updates_left (pcs i) \<or>
      \<not> unconditional_thread (pcs i) \<and> updates_left pc' = tl (updates_left (pcs i))"
    and "unconditional_thread (pcs i) \<longrightarrow> unconditional_thread pc'"
  shows "log_of ops (pcs(i := pc')) log"
  using assms(2,3) log [unfolded log_of_def, rule_format, of i] log subseq_append_tl
  unfolding log_of_def by (metis fun_upd_apply)

lemma log_of_append:
  assumes log: "log_of ops pcs log"
    and "updates_left (pcs i) = f # updates_left pc'"
    and "unconditional_thread (pcs i) \<longrightarrow> unconditional_thread pc'"
  shows "log_of ops (pcs(i := pc')) (log @ [(i, f)])"
proof -
  have "by_thread i (log @ [(i, f)]) @ updates_left pc' = by_thread i log @ updates_left (pcs i)"
    by (simp add: assms(2))
  then show ?thesis
    using assms(3) log unfolding log_of_def by (auto simp del: append_assoc)
qed

lemma data_inv_step:
  assumes ex: "excl (data_lock s) (at_point holds_point) pcs"
    and inv: "data_inv v ops s pcs" and st: "mutex_pstep K P i (pcs i) s = Some (s', pc')"
  shows "data_inv v ops s' (pcs(i := pc'))"
proof -
  note e = data_effect [OF st]
  from inv obtain log where log: "inner s = apply_log log v" "log_of ops pcs log"
    and rd: "\<And>t w. read_value (pcs t) = Some w \<Longrightarrow> w = inner s" unfolding data_inv_def by blast
  have "w = inner s'" if "read_value ((pcs(i := pc')) t) = Some w" for t w
  proof (cases "t = i")
    case True with that e show ?thesis by simp
  next
    case False
    with that have w: "read_value (pcs t) = Some w" by simp
    then have "\<not> at_point holds_point (pcs i)"
      using exclD(2) [OF ex read_value_holds] False by blast
    with e rd [OF w] show ?thesis by auto
  qed
  moreover have "\<exists>log. inner s' = apply_log log v \<and> log_of ops (pcs(i := pc')) log"
  proof (cases "read_value (pcs i)")
    case None
    with e log show ?thesis by (auto intro!: log_of_same)
  next
    case (Some w)
    with e rd obtain f where "updates_left (pcs i) = f # updates_left pc'" "inner s' = f (inner s)"
      by auto
    with e log show ?thesis by (intro exI [of _ "log @ [(i, f)]"]) (auto intro!: log_of_append)
  qed
  ultimately show ?thesis unfolding data_inv_def by blast
qed

lemma data_inv_env: "data_inv v ops s pcs \<Longrightarrow> runtime_env K s s' \<Longrightarrow> data_inv v ops s' pcs"
  by (auto simp: data_inv_def set_token_def elim!: runtime_env.cases)

subsection \<open>Panics\<close>

text \<open>Where blocking is impossible only the explicit blocking calls reach the parking points.\<close>

fun may_block :: "'d mutex_op \<Rightarrow> bool" where
  "may_block (Op a f) = (case a of LockBlock \<Rightarrow> True | LockBlockTimeout d \<Rightarrow> True | _ \<Rightarrow> False)"

fun blocking_point :: "'d point \<Rightarrow> bool" where
  "blocking_point (B p) = True"
| "blocking_point Dead = True"
| "blocking_point _ = False"

fun blocking_thread :: "'d mthread \<Rightarrow> bool" where
  "blocking_thread (Idle ops) = (\<exists>p\<in>set ops. may_block p)"
| "blocking_thread (At p f ops) = (blocking_point p \<or> (\<exists>p\<in>set ops. may_block p))"

fun dead_thread :: "'d mthread \<Rightarrow> bool" where
  "dead_thread (At p f ops) = (p = Dead)"
| "dead_thread _ = False"

lemma panic_effect:
  assumes "mutex_pstep K P i pc s = Some (s', pc')"
  shows "(can_block P \<longrightarrow> \<not> dead_thread pc') \<and>
    (\<not> can_block P \<and> \<not> blocking_thread pc \<longrightarrow> \<not> blocking_thread pc')"
  using assms
proof (cases rule: mutex_pstep_cases)
  case (start a f ops)
  then show ?thesis by (cases a) auto
next
  case (spin p f ops q)
  then show ?thesis by (cases p) (auto split: if_splits option.splits)
next
  case (block p f ops q)
  then show ?thesis by (cases p) (auto split: if_splits option.splits)
next
  case (async p f ops q)
  then show ?thesis by (cases p) (auto split: if_splits option.splits)
next
  case (drop p f ops q)
  then show ?thesis
    by (cases p) (auto simp: wake_point_at send_point_at split: if_splits option.splits list.splits)
qed

definition panic_inv :: "platform \<Rightarrow> (tid \<Rightarrow> 'd mutex_op list) \<Rightarrow> (tid \<Rightarrow> 'd mthread) \<Rightarrow> bool" where
  "panic_inv P ops pcs \<longleftrightarrow>
     (\<forall>t. (can_block P \<longrightarrow> \<not> dead_thread (pcs t)) \<and>
       (\<not> can_block P \<and> (\<forall>p\<in>set (ops t). \<not> may_block p) \<longrightarrow> \<not> blocking_thread (pcs t)))"

subsection \<open>The whole invariant\<close>

definition mutex_inv ::
  "'k cont_ops \<Rightarrow> platform \<Rightarrow> 'd \<Rightarrow> (tid \<Rightarrow> 'd mutex_op list) \<Rightarrow> ('d, 'k, 'z) mutex_scheme \<Rightarrow>
   (tid \<Rightarrow> 'd mthread) \<Rightarrow> bool" where
  "mutex_inv K P v ops s pcs \<longleftrightarrow> lists_inv K s pcs \<and> data_inv v ops s pcs \<and> panic_inv P ops pcs"

interpretation mutex_protocol: pc_invariant
  "mutex_code K P :: tid \<Rightarrow> 'd mthread \<Rightarrow> (('d, 'k, 'z) mutex_scheme, unit) prog"
  "mutex_pstep K P" "runtime_env K" "mutex_inv K P v ops" for K P v ops
proof unfold_locales
  fix s s' :: "('d, 'k, 'z) mutex_scheme" and pcs :: "tid \<Rightarrow> 'd mthread" and i pc'
  assume inv: "mutex_inv K P v ops s pcs" and st: "mutex_pstep K P i (pcs i) s = Some (s', pc')"
  from inv have "panic_inv P ops (pcs(i := pc'))"
    using panic_effect [OF st] unfolding mutex_inv_def panic_inv_def by auto
  with inv show "mutex_inv K P v ops s' (pcs(i := pc'))"
    using lists_inv_step [of K s pcs P i] data_inv_step [of s pcs v ops K P i] st
    unfolding mutex_inv_def lists_inv_def by blast
next
  fix s s' :: "('d, 'k, 'z) mutex_scheme" and pcs :: "tid \<Rightarrow> 'd mthread"
  assume "mutex_inv K P v ops s pcs" "runtime_env K s s'"
  then show "mutex_inv K P v ops s' pcs"
    unfolding mutex_inv_def by (blast intro: lists_inv_env data_inv_env)
qed

lemma mutex_new_simps [simp]:
  "inner (mutex_new r v) = v" "data_lock (mutex_new r v) = False"
  "waiting_sync_threads (mutex_new r v) = spinlock_new []"
  "waiting_async_threads (mutex_new r v) = spinlock_new []"
  "token (mutex_new r v) = token r" "clock (mutex_new r v) = clock r"
  "conts (mutex_new r v) = conts r" "timers (mutex_new r v) = timers r"
  by (simp_all add: mutex_new_def)

lemma mutex_inv_start: "mutex_inv K P v ops (mutex_new r v) (\<lambda>t. Idle (ops t))"
  by (auto simp: mutex_inv_def lists_inv_def data_inv_def panic_inv_def log_of_def covered_def
      promised_def sync_listed_def async_listed_def sync_waits_def async_waits_def spinlock_new_def
      intro!: excl_none exI [of _ "[]"])

definition mutex_system ::
  "'k cont_ops \<Rightarrow> platform \<Rightarrow> 'k runtime \<Rightarrow> 'd \<Rightarrow> (tid \<Rightarrow> 'd mutex_op list) \<Rightarrow>
   (('d, 'k) mutex, unit) config" where
  "mutex_system K P r v ops = (mutex_new r v, \<lambda>t. mutex_client K P t (ops t))"

lemma mutex_reach_inv:
  assumes "sys_reach (runtime_env K) (mutex_system K P r v ops) (s, ps)"
  obtains pcs where "ps = (\<lambda>t. mutex_code K P t (pcs t))" and "mutex_inv K P v ops s pcs"
proof -
  from assms have "sys_reach (runtime_env K)
      (mutex_new r v, \<lambda>t. mutex_code K P t (Idle (ops t))) (s, ps)"
    by (simp add: mutex_system_def)
  from this mutex_inv_start that show ?thesis by (rule mutex_protocol.reach_inv)
qed

end
