(* ===== verification/Mutex_Correct.thy ===== *)
theory Mutex_Correct
  imports Mutex_Protocol
begin

section \<open>What the mutex guarantees\<close>

text \<open>
  What follows from the invariant of \<open>Mutex_Protocol\<close> for any number of threads (exclusion,
  serializability, no lost wakeup, no panic), and what each call does when it runs alone.
\<close>

subsection \<open>Threads that have stopped\<close>

lemma mthread_cases:
  obtains (finished) "pc = Idle []" | (next_op) a f ops where "pc = Idle (Op a f # ops)"
  | (dead) f ops where "pc = At Dead f ops" | (at) p f ops where "pc = At p f ops" "p \<noteq> Dead"
proof (cases pc)
  case (Idle ops)
  then show ?thesis using finished next_op by (cases ops rule: list.exhaust) (auto intro: mutex_op.exhaust)
qed (use dead at in blast)

lemma mutex_code_running: "pc \<noteq> Idle [] \<Longrightarrow> \<not> dead_thread pc \<Longrightarrow> running (mutex_code K P t pc)"
  by (cases pc rule: mthread_cases) (auto simp: point_code_running)

lemma mutex_code_Return: "mutex_code K P t pc = Return () \<Longrightarrow> pc = Idle []"
  by (metis mutex_code_running dead_thread.elims(2) mutex_code.simps(2) point_code.simps(5)
      bind_simps(2) running_simps(2) prog.distinct(1))

lemma mutex_code_Panic: "mutex_code K P t pc = Panic m \<Longrightarrow> dead_thread pc"
  by (metis mutex_code_running mutex_code.simps(1) mutex_client.simps(1) running_simps(3)
      prog.distinct(1))

text \<open>A thread that cannot move has finished, has panicked, or waits for a signal that is not
  there; in no case does it hold a lock or owe a wakeup.\<close>

lemma point_blocked:
  assumes "point_step K P t f p s = None"
  shows "(p = Dead \<or> sync_waits_point p \<and> \<not> token s t \<or>
      (\<exists>c. async_waits_point p c \<and> \<not> k_ready K c (conts s))) \<and>
    \<not> holds_point p \<and> \<not> sync_take_point p \<and> \<not> async_take_point p \<and>
    to_wake_point p = {} \<and> to_send_point p = {}"
proof (cases p)
  case (S q) with assms show ?thesis by (cases q) auto
next
  case (B q) with assms show ?thesis by (cases q) (auto split: if_splits)
next
  case (A q) with assms show ?thesis by (cases q) (auto split: if_splits)
next
  case (D q) with assms show ?thesis by (cases q) auto
qed simp

lemma mutex_blocked:
  assumes "mutex_pstep K P t pc s = None"
  shows "(pc = Idle [] \<or> dead_thread pc \<or> sync_waits pc t t \<and> \<not> token s t \<or>
      (\<exists>c. async_waits pc t c \<and> \<not> k_ready K c (conts s))) \<and>
    \<not> at_point holds_point pc \<and> \<not> at_point sync_take_point pc \<and> \<not> at_point async_take_point pc \<and>
    of_point to_wake_point pc = {} \<and> of_point to_send_point pc = {}"
proof (cases pc rule: mthread_cases)
  case (at p f ops)
  with assms have "point_step K P t f p s = None" by simp
  from point_blocked [OF this] at show ?thesis by (auto simp: sync_waits_def async_waits_def)
qed (use assms in auto)

text \<open>When no thread holds the lock or has anyone to wake, every waiting thread has been signalled.\<close>

lemma nobody_forgotten:
  assumes laws: "cont_laws K" and inv: "lists_inv K s pcs"
    and none: "\<And>t. \<not> at_point holds_point (pcs t) \<and> \<not> at_point sync_take_point (pcs t) \<and>
      \<not> at_point async_take_point (pcs t) \<and> of_point to_wake_point (pcs t) = {} \<and> of_point to_send_point (pcs t) = {}"
  shows "sync_waits (pcs t) t t \<Longrightarrow> token s t" and "async_waits (pcs t) t c \<Longrightarrow> k_ready K c (conts s)"
proof -
  from inv have free: "\<not> data_lock s" using none by (auto simp: lists_inv_def dest: exclD(3))
  show "token s t" if "sync_waits (pcs t) t t"
    using sync_waiting.not_forgotten [of s pcs t t] inv that free none
    unfolding lists_inv_def by blast
  have "signalled K s c" if "async_waits (pcs t) t c"
    using async_waiting.not_forgotten [of K s pcs t c] inv that free none
    unfolding lists_inv_def by blast
  then show "k_ready K c (conts s)" if "async_waits (pcs t) t c"
    using that laws by (simp add: signalled_def)
qed

lemma mutex_stuck:
  assumes laws: "cont_laws K" and inv: "lists_inv K s pcs"
    and stuck: "\<And>t. mutex_pstep K P t (pcs t) s = None"
  shows "pcs t = Idle [] \<or> dead_thread (pcs t)"
proof -
  note none = mutex_blocked [OF stuck]
  have others: "\<not> at_point holds_point (pcs t) \<and> \<not> at_point sync_take_point (pcs t) \<and>
      \<not> at_point async_take_point (pcs t) \<and> of_point to_wake_point (pcs t) = {} \<and> of_point to_send_point (pcs t) = {}" for t
    using none by blast
  show ?thesis using none [of t] nobody_forgotten [OF laws inv others, of t] by blast
qed

subsection \<open>Guarantees for any number of threads\<close>

text \<open>C5: mutual exclusion. In every reachable state of any number of threads that use the mutex by
  any mix of the crate's calls, at most one thread is between acquiring the lock and freeing it,
  and the lock word is set exactly when there is one.\<close>

theorem mutex_exclusion:
  assumes "sys_reach (runtime_env K) (mutex_system K P r v ops) (s, ps)"
  shows "\<exists>pcs. ps = (\<lambda>t. mutex_code K P t (pcs t)) \<and>
    (\<forall>t u. at_point holds_point (pcs t) \<and> at_point holds_point (pcs u) \<longrightarrow> t = u) \<and>
    (data_lock s \<longleftrightarrow> (\<exists>t. at_point holds_point (pcs t)))"
  using assms
  by (rule mutex_reach_inv) (auto simp: mutex_inv_def lists_inv_def excl_def)

text \<open>C7: no update is lost or torn. When all threads have returned, the data is the result of
  running whole updates one after the other, each thread's updates in its own order; a thread that
  uses no \<open>try_lock\<close> and no timeout has made all of its updates; and the mutex is unlocked.\<close>

theorem mutex_serializable:
  assumes "sys_reach (runtime_env K) (mutex_system K P r v ops) (s, ps)"
    and "\<forall>t. ps t = Return ()"
  shows "(\<exists>log. inner s = apply_log log v \<and>
      (\<forall>t. subseq (by_thread t log) (map op_update (ops t)) \<and>
        ((\<forall>p\<in>set (ops t). unconditional p) \<longrightarrow> by_thread t log = map op_update (ops t)))) \<and>
    \<not> data_lock s"
  using assms(1)
proof (rule mutex_reach_inv)
  fix pcs assume ps: "ps = (\<lambda>t. mutex_code K P t (pcs t))" and inv: "mutex_inv K P v ops s pcs"
  from ps assms(2) have idle: "pcs t = Idle []" for t by (auto dest: fun_cong intro: mutex_code_Return)
  then have "\<not> data_lock s" using inv by (auto simp: mutex_inv_def lists_inv_def excl_def)
  with inv idle show ?thesis by (auto simp: mutex_inv_def data_inv_def log_of_def)
qed

text \<open>C1: no lost wakeup and no deadlock. If no thread can move any more, then every thread has
  completed all its operations: no blocking or asynchronous call is left waiting for a wakeup. The
  calls that block are assumed to be made only where the platform can block.\<close>

theorem mutex_no_deadlock:
  assumes "cont_laws K" and "can_block P \<or> (\<forall>t. \<forall>p\<in>set (ops t). \<not> may_block p)"
    and "sys_reach (runtime_env K) (mutex_system K P r v ops) (s, ps)"
    and "stuck (s, ps)"
  shows "ps t = Return ()"
  using assms(3)
proof (rule mutex_reach_inv)
  fix pcs assume ps: "ps = (\<lambda>t. mutex_code K P t (pcs t))" and inv: "mutex_inv K P v ops s pcs"
  have "mutex_pstep K P t (pcs t) s = None" for t
    using assms(4) ps mutex_code_step [of K P t "pcs t" s] by (simp add: stuck_def)
  then have "pcs t = Idle [] \<or> dead_thread (pcs t)"
    using inv assms(1) mutex_stuck [of K s pcs P t] by (auto simp: mutex_inv_def)
  moreover have "\<not> dead_thread (pcs t)"
    using inv assms(2) by (cases "pcs t" rule: dead_thread.cases)
      (auto simp: mutex_inv_def panic_inv_def dest!: spec [of _ t])
  ultimately show ?thesis using ps by simp
qed


subsection \<open>Calls that run alone\<close>

text \<open>The state after a release: the lock is free, both lists are empty, every thread that was in
  the first has its token, every continuation that was in the second was sent.\<close>

definition woken :: "'k cont_ops \<Rightarrow> ('d, 'k, 'z) mutex_scheme \<Rightarrow> ('d, 'k, 'z) mutex_scheme" where
  "woken K s = s\<lparr>
     token := (\<lambda>t. token s t \<or> t \<in> set (data (waiting_sync_threads s))),
     conts := fold (k_send K) (data (waiting_async_threads s)) (conts s),
     waiting_sync_threads := spinlock_new [], waiting_async_threads := spinlock_new []\<rparr>"

lemma ends_take_sync:
  assumes "\<not> locked (waiting_sync_threads s)"
  shows "ends (with_mut sync_list (mem_take sync_list)) s
    (Return (data (waiting_sync_threads s))) (s\<lparr>waiting_sync_threads := spinlock_new []\<rparr>)"
  using sync_place.ends_access [of s "\<lambda>xs. ([], xs)"] assms by (simp add: vec_access)

lemma ends_take_async:
  assumes "\<not> locked (waiting_async_threads s)"
  shows "ends (with_mut async_list (mem_take async_list)) s
    (Return (data (waiting_async_threads s))) (s\<lparr>waiting_async_threads := spinlock_new []\<rparr>)"
  using async_place.ends_access [of s "\<lambda>xs. ([], xs)"] assms by (simp add: vec_access)

lemma ends_wake_async:
  assumes "\<not> locked (waiting_async_threads s)"
  shows "ends (wake_async K) s (Return ())
    (s\<lparr>waiting_async_threads := spinlock_new [],
       conts := fold (k_send K) (data (waiting_async_threads s)) (conts s)\<rparr>)"
  unfolding wake_async_def
  by (rule ends_bind [OF ends_take_async [OF assms]], rule ends_state [OF ends_send_all]) simp

lemma ends_did_unlock:
  assumes "\<not> locked (waiting_sync_threads s)" and "\<not> locked (waiting_async_threads s)"
  shows "ends (did_unlock K) s (Return ()) (woken K s)"
  unfolding did_unlock_def wake_sync_then_async_def
  by (rule ends_bind [OF ends_take_sync [OF assms(1)]], rule ends_bind [OF ends_unpark_all],
      rule ends_state [OF ends_wake_async]) (simp_all add: woken_def assms(2))

lemma ends_guard_drop:
  assumes "\<not> locked (waiting_sync_threads s)" and "\<not> locked (waiting_async_threads s)"
  shows "ends (guard_drop K) s (Return ()) (woken K (s\<lparr>data_lock := False\<rparr>))"
  by (rule ends_step) (use assms ends_did_unlock [of "s\<lparr>data_lock := False\<rparr>"] in simp_all)

lemma ends_lock_spin: "\<not> data_lock s \<Longrightarrow> ends lock_spin s (Return Guard) (s\<lparr>data_lock := True\<rparr>)"
  by (rule ends_one) simp

lemma ends_lock_block:
  assumes "\<not> data_lock s" and "\<not> locked (waiting_sync_threads s)"
  shows "ends (lock_block P t) s (Return Guard) (s\<lparr>data_lock := True\<rparr>)"
proof (rule run_alone_ends)
  show "run_alone 3 (lock_block P t) s = (s\<lparr>data_lock := True\<rparr>, Return Guard)"
    using assms by (simp add: numeral_eq_Suc spinlock_relock)
qed simp

lemma ends_lock_async:
  assumes "\<not> data_lock s" and "\<not> locked (waiting_async_threads s)"
  shows "ends (lock_async K) s (Return Guard) (s\<lparr>data_lock := True\<rparr>)"
proof (rule run_alone_ends)
  show "run_alone 3 (lock_async K) s = (s\<lparr>data_lock := True\<rparr>, Return Guard)"
    using assms by (simp add: numeral_eq_Suc spinlock_relock)
qed simp

lemma ends_lock_sync:
  assumes "\<not> data_lock s" and "\<not> locked (waiting_sync_threads s)"
  shows "ends (lock_sync P t) s (Return Guard) (s\<lparr>data_lock := True\<rparr>)"
  using ends_lock_spin [of s] ends_lock_block [of s P t] assms by (simp add: lock_sync_def)

lemma ends_with_guard:
  assumes "ends f s q s1" and "\<not> locked (waiting_sync_threads s1)"
    and "\<not> locked (waiting_async_threads s1)"
  shows "ends (with_guard K f) s q (woken K (s1\<lparr>data_lock := False\<rparr>))"
proof -
  note drop = ends_guard_drop [OF assms(2,3)]
  have "\<not> running q" using assms(1) by (rule ends_stopped)
  then show ?thesis
  proof (cases q rule: running_cases)
    case (Return x)
    with assms(1) have "ends (on_unwind f (guard_drop K)) s (Return x) s1"
      by (simp add: ends_on_unwind_Return)
    then show ?thesis unfolding with_guard_def Return
      by (rule ends_bind) (rule ends_bind [OF drop ends_Return])
  next
    case (Panic m)
    with assms(1) drop have "ends (on_unwind f (guard_drop K)) s (Panic m) (woken K (s1\<lparr>data_lock := False\<rparr>))"
      by (simp add: ends_on_unwind_Panic)
    then show ?thesis unfolding with_guard_def Panic by (rule ends_bind_Panic)
  qed simp
qed

text \<open>\<open>with_mut_sync\<close>, called alone on a free mutex, runs the closure with the lock held, and
  whether the closure returns or panics the lock is free afterwards, both waiting lists are empty
  and everyone who was waiting has been woken; the closure's result or panic is passed on.\<close>

lemma with_mut_sync_releases:
  assumes "\<not> data_lock s" and "\<not> locked (waiting_sync_threads s)"
    and "ends f (s\<lparr>data_lock := True\<rparr>) q s1"
    and "\<not> locked (waiting_sync_threads s1)" and "\<not> locked (waiting_async_threads s1)"
  shows "ends (with_mut_sync K P t f) s q (woken K (s1\<lparr>data_lock := False\<rparr>))"
  unfolding with_mut_sync_def
  by (rule ends_bind [OF ends_lock_sync [OF assms(1,2)]]) (rule ends_with_guard [OF assms(3-5)])

subsection \<open>Concrete runs\<close>

text \<open>
  Two threads that each increment a shared counter with \<open>lock_sync\<close>. In the first schedule thread 1
  finds the lock taken, joins the waiting list and parks while thread 0 is inside; thread 0 then
  wakes it.
\<close>

definition increments :: "tid \<Rightarrow> nat mutex_op list" where
  "increments t = (if t < 2 then [Op LockSync Suc] else [])"

definition contended :: "tid list" where
  "contended = replicate 5 0 @ replicate 6 1 @ replicate 10 0 @ replicate 20 1 @ replicate 10 0"

definition increments_end :: "platform \<Rightarrow> ((nat, nat \<times> nat set) mutex, unit) config" where
  "increments_end P = run_schedule contended (mutex_system set_conts P fresh_runtime 0 increments)"

lemmas run_defs = mutex_system_def contended_def numeral_eq_Suc increments_def
  lock_sync_def set_token_def take_token_def mutex_new_def spinlock_new_def

lemma increments_reached:
  "sys_reach (runtime_env set_conts) (mutex_system set_conts P fresh_runtime 0 increments)
    (fst (increments_end P), snd (increments_end P))"
  unfolding increments_end_def by (simp add: run_schedule_start)

lemma increments_done_native:
  "inner (fst (increments_end Native)) = 2 \<and> snd (increments_end Native) t = Return ()"
  unfolding increments_end_def by (simp add: run_defs)

lemma increments_done_main_thread:
  "inner (fst (increments_end (Wasm32 False))) = 2 \<and>
   snd (increments_end (Wasm32 False)) t = Return ()"
  unfolding increments_end_def by (simp add: run_defs)

lemma mutex_exclusion_witness:
  "\<exists>pcs. snd (increments_end Native) = (\<lambda>t. mutex_code set_conts Native t (pcs t)) \<and>
    (\<forall>t u. at_point holds_point (pcs t) \<and> at_point holds_point (pcs u) \<longrightarrow> t = u) \<and>
    (data_lock (fst (increments_end Native)) \<longleftrightarrow> (\<exists>t. at_point holds_point (pcs t)))"
  by (rule mutex_exclusion [OF increments_reached])

lemma mutex_serializable_witness:
  "\<exists>log. (2::nat) = apply_log log 0 \<and> by_thread 0 log = [Suc] \<and> by_thread 1 log = [Suc]"
  using mutex_serializable [OF increments_reached [of Native]] increments_done_native
  by (auto simp: increments_def)

lemma mutex_no_deadlock_witness: "snd (increments_end (Wasm32 False)) 1 = Return ()"
proof (rule mutex_no_deadlock [OF set_conts_laws _ increments_reached])
  show "can_block (Wasm32 False) \<or> (\<forall>t. \<forall>p\<in>set (increments t). \<not> may_block p)"
    by (simp add: increments_def)
  show "stuck (fst (increments_end (Wasm32 False)), snd (increments_end (Wasm32 False)))"
    using increments_done_main_thread by (simp add: stuck_def)
qed


lemma with_mut_sync_releases_witness:
  "ends (with_mut_sync set_conts Native 0 (Panic ''boom'')) (mutex_new fresh_runtime (7::nat))
     (Panic ''boom'' :: (_, unit) prog)
     (woken set_conts (mutex_new fresh_runtime 7\<lparr>data_lock := True\<rparr>\<lparr>data_lock := False\<rparr>))"
  by (rule with_mut_sync_releases) (auto intro: ends_Panic)

end
