(* ===== verification/Condvar_Runs.thy ===== *)
theory Condvar_Runs
  imports Condvar Mutex_Correct
begin

section \<open>Calls of the condition variable that run alone, and two schedules\<close>

text \<open>
  What \<open>notify_one\<close> and \<open>notify_all\<close> do to the three waiting lists, as functions on states that
  the programs are proved to compute; what a wait does when its deadline has passed; what the
  \<open>_while\<close> forms do; and two schedules in which a notification is consumed for nothing.
\<close>

definition cv_quiet :: "('d, 'k, 'z) condvar_scheme \<Rightarrow> bool" where
  "cv_quiet s \<longleftrightarrow>
     \<not> locked (cv_sync_threads s) \<and> \<not> locked (cv_async_threads s) \<and> \<not> locked (cv_spin_threads s)"

definition mutex_quiet :: "('d, 'k, 'z) mutex_scheme \<Rightarrow> bool" where
  "mutex_quiet s \<longleftrightarrow> \<not> locked (waiting_sync_threads s) \<and> \<not> locked (waiting_async_threads s)"

lemma spinlock_data: "\<not> locked l \<Longrightarrow> spinlock_new (data l) = l"
  by (cases l) (simp add: spinlock_new_def)

lemma spinlock_data_eq: "\<not> locked l \<Longrightarrow> data l = d \<Longrightarrow> spinlock_new d = l"
  using spinlock_data by metis

lemma cv_same:
  "\<lbrakk>\<not> locked (cv_spin_threads s); data (cv_spin_threads s) = []\<rbrakk> \<Longrightarrow> s\<lparr>cv_spin_threads := spinlock_new []\<rparr> = s"
  "\<lbrakk>\<not> locked (cv_sync_threads s); data (cv_sync_threads s) = []\<rbrakk> \<Longrightarrow> s\<lparr>cv_sync_threads := spinlock_new []\<rparr> = s"
  "\<lbrakk>\<not> locked (cv_async_threads s); data (cv_async_threads s) = []\<rbrakk> \<Longrightarrow> s\<lparr>cv_async_threads := spinlock_new []\<rparr> = s"
  by (simp_all add: spinlock_data_eq [of "cv_spin_threads s"] spinlock_data_eq [of "cv_sync_threads s"]
      spinlock_data_eq [of "cv_async_threads s"])

lemma ends_one_iff: "resume p s = Some (s1, Return x) \<Longrightarrow> ends p s (Return x) s2 \<longleftrightarrow> s2 = s1"
  using ends_one ends_unique by metis

lemma ends_wake_iffs [simp]:
  "ends (unpark t) s (Return ()) s2 \<longleftrightarrow> s2 = set_token t s"
  "ends (send_cont K c) s (Return ()) s2 \<longleftrightarrow> s2 = s\<lparr>conts := k_send K c (conts s)\<rparr>"
  "ends (set_flag w) s3 (Return ()) s4 \<longleftrightarrow> s4 = s3\<lparr>wake_flags := (wake_flags s3)(w := True)\<rparr>"
  "ends (Return x) s5 (Return x) s6 \<longleftrightarrow> s6 = s5"
  by (simp_all add: ends_one_iff, blast dest: ends_unique intro: ends_Return)

subsection \<open>Notifying\<close>

text \<open>The one waiter that is chosen: the newest spinning one, else the newest parked one, else the
  newest asynchronous one. It leaves its list and is woken.\<close>

definition notified_one :: "'k cont_ops \<Rightarrow> ('d, 'k, 'z) condvar_scheme \<Rightarrow> ('d, 'k, 'z) condvar_scheme" where
  "notified_one K s =
     (if data (cv_spin_threads s) \<noteq> [] then
        s\<lparr>cv_spin_threads := spinlock_new (butlast (data (cv_spin_threads s))),
          wake_flags := (wake_flags s)(last (data (cv_spin_threads s)) := True)\<rparr>
      else if data (cv_sync_threads s) \<noteq> [] then
        set_token (last (data (cv_sync_threads s)))
          (s\<lparr>cv_sync_threads := spinlock_new (butlast (data (cv_sync_threads s)))\<rparr>)
      else if data (cv_async_threads s) \<noteq> [] then
        s\<lparr>cv_async_threads := spinlock_new (butlast (data (cv_async_threads s))),
          conts := k_send K (waiter_sender (last (data (cv_async_threads s)))) (conts s)\<rparr>
      else s)"

lemma ends_pop_from:
  assumes "spin_place L" and "\<not> locked (peek L s)"
  shows "ends (with_mut L (pop L)) s
    (Return (if data (peek L s) = [] then None else Some (last (data (peek L s)))))
    (poke L (\<lambda>_. spinlock_new (butlast (data (peek L s)))) s)"
  using spin_place.ends_access [OF assms, of "\<lambda>xs. if xs = [] then ([], None) else (butlast xs, Some (last xs))"]
  by (auto simp: vec_access split: if_splits)

lemma ends_notify_one_async:
  assumes "cv_quiet s" and "data (cv_spin_threads s) = []" and "data (cv_sync_threads s) = []"
  shows "ends (notify_one_async K) s (Return ()) (notified_one K s)"
  unfolding notify_one_async_def
  by (rule ends_bind [OF ends_pop_from [OF cv_async.spin_place_axioms]])
    (use assms in \<open>auto simp: cv_quiet_def notified_one_def cv_same\<close>)

lemma ends_notify_one_sync:
  assumes "cv_quiet s" and "data (cv_spin_threads s) = []"
  shows "ends (notify_one_sync K) s (Return ()) (notified_one K s)"
  unfolding notify_one_sync_def
  by (rule ends_bind [OF ends_pop_from [OF cv_sync.spin_place_axioms]])
    (use assms ends_notify_one_async [OF assms] in
      \<open>auto simp: cv_quiet_def notified_one_def cv_same\<close>)

lemma ends_notify_one:
  assumes "cv_quiet s"
  shows "ends (notify_one K) s (Return ()) (notified_one K s)"
  unfolding notify_one_def
  by (rule ends_bind [OF ends_pop_from [OF cv_spin.spin_place_axioms]])
    (use assms ends_notify_one_sync [OF assms] in
      \<open>auto simp: cv_quiet_def notified_one_def cv_same\<close>)

text \<open>C14: \<open>notify_one\<close>, when no other thread is inside a waiting list, completes and wakes exactly
  one waiter if there is one: the newest of the spinning threads, or if there is none the newest of
  the parked threads, or else the newest asynchronous waiter; with no waiter it changes nothing.\<close>

theorem notify_one_wakes_one:
  assumes "cv_quiet s"
  shows "ends (notify_one K) s (Return ()) (notified_one K s)"
  using assms by (rule ends_notify_one)

definition notified_all :: "'k cont_ops \<Rightarrow> ('d, 'k, 'z) condvar_scheme \<Rightarrow> ('d, 'k, 'z) condvar_scheme" where
  "notified_all K s = s\<lparr>
     token := (\<lambda>t. token s t \<or> t \<in> set (data (cv_sync_threads s))),
     conts := fold (k_send K) (map waiter_sender (data (cv_async_threads s))) (conts s),
     cv_sync_threads := spinlock_new [], cv_async_threads := spinlock_new [],
     cv_spin_threads := spinlock_new [],
     wake_flags := (\<lambda>w. wake_flags s w \<or> w \<in> set (data (cv_spin_threads s)))\<rparr>"

lemma ends_set_flags:
  "ends (for_each ws set_flag) s (Return ()) (s\<lparr>wake_flags := (\<lambda>w. wake_flags s w \<or> w \<in> set ws)\<rparr>)"
proof -
  have "fold (\<lambda>w s. s\<lparr>wake_flags := (wake_flags s)(w := True)\<rparr>) ws s =
      s\<lparr>wake_flags := (\<lambda>w. wake_flags s w \<or> w \<in> set ws)\<rparr>"
    by (induction ws arbitrary: s) (auto intro!: arg_cong [of _ _ "\<lambda>f. s\<lparr>wake_flags := f\<rparr>" for s])
  then show ?thesis
    using ends_for_each [of set_flag "\<lambda>w s. s\<lparr>wake_flags := (wake_flags s)(w := True)\<rparr>" ws s]
    by (simp add: ends_one)
qed

lemma for_each_map: "for_each (map h xs) f = for_each xs (\<lambda>x. f (h x))"
  by (induction xs) simp_all

lemma ends_take_from:
  assumes "spin_place L" and "\<not> locked (peek L s)"
  shows "ends (with_mut L (mem_take L)) s (Return (data (peek L s))) (poke L (\<lambda>_. spinlock_new []) s)"
  using spin_place.ends_access [OF assms, of "\<lambda>xs. ([], xs)"] by (simp add: vec_access)

lemma ends_notify_all:
  assumes "cv_quiet s"
  shows "ends (notify_all K) s (Return ()) (notified_all K s)"
  unfolding notify_all_def for_each_map [symmetric]
  by (rule ends_bind [OF ends_take_from [OF cv_spin.spin_place_axioms]], use assms in \<open>simp add: cv_quiet_def\<close>,
      rule ends_bind [OF ends_set_flags],
      rule ends_bind [OF ends_take_from [OF cv_sync.spin_place_axioms]], use assms in \<open>simp add: cv_quiet_def\<close>,
      rule ends_bind [OF ends_unpark_all],
      rule ends_bind [OF ends_take_from [OF cv_async.spin_place_axioms]], use assms in \<open>simp add: cv_quiet_def\<close>,
      rule ends_state [OF ends_send_all])
    (simp add: notified_all_def)

text \<open>C15: \<open>notify_all\<close>, when no other thread is inside a waiting list, completes, empties all three
  lists and wakes everyone that was in them.\<close>

theorem notify_all_wakes_all:
  assumes "cv_quiet s"
  shows "ends (notify_all K) s (Return ()) (notified_all K s)"
  using assms by (rule ends_notify_all)

subsection \<open>Waiting until a deadline that has passed\<close>

lemma ends_push_to:
  assumes "spin_place L" and "\<not> locked (peek L s)"
  shows "ends (with_mut L (push L x)) s (Return ()) (poke L (\<lambda>_. spinlock_new (data (peek L s) @ [x])) s)"
  using spin_place.ends_access [OF assms, of "\<lambda>xs. (xs @ [x], ())"] by (simp add: vec_access)

lemma position_fresh: "x \<notin> set xs \<Longrightarrow> position (\<lambda>y. y = x) (xs @ [x]) = Some (length xs)"
  by (induction xs) auto

lemma remove_at_last: "remove_at (length xs) (xs @ [x]) = xs"
  by (simp add: remove_at_def)

lemma ends_leave_last:
  assumes "spin_place L" and "\<not> locked (peek L s)" and "data (peek L s) = xs @ [x]" and "x \<notin> set xs"
  shows "ends (with_mut L (leave L (\<lambda>y. y = x))) s (Return False) (poke L (\<lambda>_. spinlock_new xs) s)"
  unfolding leave_def
  using spin_place.ends_access [OF assms(1,2), of "\<lambda>threads. case position (\<lambda>y. y = x) threads of
       Some pos \<Rightarrow> (remove_at pos threads, False) | None \<Rightarrow> (threads, True)"] assms(3,4)
  by (simp add: position_fresh remove_at_last)

lemma ends_relock_sync:
  assumes "\<not> data_lock s" and "mutex_quiet s"
  shows "ends (relock_sync P t b) s (Return (Some (Guard, WaitTimeoutResult b))) (s\<lparr>data_lock := True\<rparr>)"
  unfolding relock_sync_def
  by (rule ends_bind [OF ends_lock_sync ends_Return]) (use assms in \<open>simp_all add: mutex_quiet_def\<close>)

lemma ends_drop_held:
  assumes "mutex_quiet s"
  shows "ends (guard_drop K) s (Return ()) (woken K (s\<lparr>data_lock := False\<rparr>))"
  using assms by (simp add: mutex_quiet_def ends_guard_drop)

lemma ends_wait_block_timeout_body:
  assumes "deadline \<le> clock s" and "\<not> data_lock s" and "mutex_quiet s"
    and "\<not> locked (cv_sync_threads s)" and "data (cv_sync_threads s) = xs @ [t]" and "t \<notin> set xs"
  shows "ends (wait_block_timeout_body P t deadline) s
    (Return (Some (Guard, WaitTimeoutResult True))) (s\<lparr>cv_sync_threads := spinlock_new xs, data_lock := True\<rparr>)"
  unfolding wait_block_timeout_body_def
  by (rule ends_bind [OF ends_one [OF now_simps(2)]], simp add: assms(1),
      rule ends_bind [OF ends_leave_last [OF cv_sync.spin_place_axioms, of _ xs]],
      simp add: assms, simp add: assms, simp add: assms,
      simp only: simp_thms if_False, rule ends_state [OF ends_relock_sync])
    (use assms in \<open>simp_all add: mutex_quiet_def\<close>)

lemma ends_wait_spin_timeout_body:
  assumes "deadline \<le> clock s" and "\<not> data_lock s" and "mutex_quiet s" and "\<not> wake_flags s w"
    and "\<not> locked (cv_spin_threads s)" and "data (cv_spin_threads s) = xs @ [w]" and "w \<notin> set xs"
  shows "ends (wait_spin_timeout_body P t w deadline) s
    (Return (Some (Guard, WaitTimeoutResult True))) (s\<lparr>cv_spin_threads := spinlock_new xs, data_lock := True\<rparr>)"
  unfolding wait_spin_timeout_body_def
  by (rule ends_bind [OF ends_one [OF cv_simple_steps(6)]], simp add: assms(4),
      rule ends_bind [OF ends_one [OF now_simps(2)]], simp add: assms(1),
      rule ends_bind [OF ends_leave_last [OF cv_spin.spin_place_axioms, of _ xs]],
      simp add: assms, simp add: assms, simp add: assms,
      simp only: simp_thms if_False, rule ends_state [OF ends_relock_sync])
    (use assms in \<open>simp_all add: mutex_quiet_def\<close>)

lemma woken_fields [simp]:
  "clock (woken K s) = clock s" "data_lock (woken K s) = data_lock s" "mutex_quiet (woken K s)"
  "token (woken K s) t \<longleftrightarrow> token s t \<or> t \<in> set (data (waiting_sync_threads s))"
  by (simp_all add: woken_def mutex_quiet_def)

lemma woken_cv_fields [simp]:
  "cv_sync_threads (woken K s) = cv_sync_threads s" "cv_spin_threads (woken K s) = cv_spin_threads s"
  "cv_async_threads (woken K s) = cv_async_threads s" "wake_flags (woken K s) = wake_flags s"
  by (simp_all add: woken_def)

lemma ends_wait_block_timeout:
  assumes "deadline \<le> clock s" and "data_lock s" and "mutex_quiet s" and "cv_quiet s"
    and "t \<notin> set (data (cv_sync_threads s))"
  shows "ends (wait_block_timeout K P t Guard deadline) s (Return (Guard, WaitTimeoutResult True)) (woken K s)"
proof -
  let ?s1 = "s\<lparr>cv_sync_threads := spinlock_new (data (cv_sync_threads s) @ [t])\<rparr>"
  let ?s2 = "woken K (?s1\<lparr>data_lock := False\<rparr>)"
  let ?s3 = "?s2\<lparr>cv_sync_threads := spinlock_new (data (cv_sync_threads s)), data_lock := True\<rparr>"
  have eq: "?s3 = woken K s" using assms(2,4) by (simp add: woken_def cv_quiet_def spinlock_data)
  have "ends (loop (wait_block_timeout_body P t deadline)) ?s2 (Return (Guard, WaitTimeoutResult True)) ?s3"
    by (rule ends_loop_break [OF ends_wait_block_timeout_body]) (use assms in simp_all)
  then have "ends (seq (guard_drop K) (loop (wait_block_timeout_body P t deadline))) ?s1
      (Return (Guard, WaitTimeoutResult True)) ?s3"
    by (rule ends_bind [OF ends_drop_held, rotated]) (use assms(3) in \<open>simp add: mutex_quiet_def\<close>)
  then show ?thesis unfolding wait_block_timeout_def eq
    by (rule ends_bind [OF ends_push_to [OF cv_sync.spin_place_axioms], rotated, simplified])
      (use assms(4) in \<open>simp_all add: cv_quiet_def\<close>)
qed

lemma ends_new_flag:
  "ends new_flag s (Return (next_flag s))
     (s\<lparr>wake_flags := (wake_flags s)(next_flag s := False), next_flag := Suc (next_flag s)\<rparr>)"
  by (rule ends_one) simp

lemma ends_wait_spin_timeout:
  assumes "deadline \<le> clock s" and "data_lock s" and "mutex_quiet s" and "cv_quiet s"
    and "next_flag s \<notin> set (data (cv_spin_threads s))"
  shows "ends (wait_spin_timeout K P t Guard deadline) s (Return (Guard, WaitTimeoutResult True))
    (woken K (s\<lparr>wake_flags := (wake_flags s)(next_flag s := False), next_flag := Suc (next_flag s)\<rparr>))"
proof -
  let ?w = "next_flag s"
  let ?s0 = "s\<lparr>wake_flags := (wake_flags s)(?w := False), next_flag := Suc ?w\<rparr>"
  let ?s1 = "?s0\<lparr>cv_spin_threads := spinlock_new (data (cv_spin_threads s) @ [?w])\<rparr>"
  let ?s2 = "woken K (?s1\<lparr>data_lock := False\<rparr>)"
  let ?s3 = "?s2\<lparr>cv_spin_threads := spinlock_new (data (cv_spin_threads s)), data_lock := True\<rparr>"
  have eq: "?s3 = woken K ?s0" using assms(2,4) by (simp add: woken_def cv_quiet_def spinlock_data)
  have "ends (loop (wait_spin_timeout_body P t ?w deadline)) ?s2 (Return (Guard, WaitTimeoutResult True)) ?s3"
    by (rule ends_loop_break [OF ends_wait_spin_timeout_body]) (use assms in simp_all)
  then have "ends (seq (guard_drop K) (loop (wait_spin_timeout_body P t ?w deadline))) ?s1
      (Return (Guard, WaitTimeoutResult True)) ?s3"
    by (rule ends_bind [OF ends_drop_held, rotated]) (use assms(3) in \<open>simp add: mutex_quiet_def\<close>)
  moreover have "ends (with_mut cv_spin (push cv_spin ?w)) ?s0 (Return ()) ?s1"
    using ends_push_to [OF cv_spin.spin_place_axioms, of ?s0 ?w] assms(4) by (simp add: cv_quiet_def)
  ultimately have "ends (seq (with_mut cv_spin (push cv_spin ?w)) (seq (guard_drop K)
      (loop (wait_spin_timeout_body P t ?w deadline)))) ?s0 (Return (Guard, WaitTimeoutResult True)) ?s3"
    by (rule ends_bind [rotated])
  then show ?thesis unfolding wait_spin_timeout_def eq
    by (rule ends_bind [OF ends_new_flag])
qed

text \<open>C16: a wait whose deadline has already passed, called with the guard and with no other thread
  moving, returns, reports a timeout, and leaves no entry behind: the three lists of the condition
  variable are as before, the mutex is locked again, and the data was not touched. The thread must
  not be in the list already from an earlier wait.\<close>

theorem expired_wait_times_out:
  assumes "deadline \<le> clock s" and "data_lock s" and "mutex_quiet s" and "cv_quiet s"
    and "t \<notin> set (data (cv_sync_threads s))" and "next_flag s \<notin> set (data (cv_spin_threads s))"
  shows "\<exists>s1. ends (wait_sync_timeout K P t Guard deadline) s (Return (Guard, WaitTimeoutResult True)) s1 \<and>
    inner s1 = inner s \<and> data_lock s1 \<and> cv_sync_threads s1 = cv_sync_threads s \<and>
    cv_spin_threads s1 = cv_spin_threads s \<and> cv_async_threads s1 = cv_async_threads s"
  using ends_wait_block_timeout [OF assms(1-5)] ends_wait_spin_timeout [OF assms(1-4,6)] assms(2)
  by (cases "can_block P") (force simp: wait_sync_timeout_def woken_def)+

lemma expired_wait_times_out_witness:
  "\<exists>s1. ends (wait_sync_timeout set_conts (Wasm32 False) 0 Guard 0)
     (condvar_new fresh_runtime (5::nat) 0\<lparr>data_lock := True\<rparr>) (Return (Guard, WaitTimeoutResult True)) s1 \<and>
     inner s1 = 5"
  using expired_wait_times_out [of 0 "condvar_new fresh_runtime (5::nat) 0\<lparr>data_lock := True\<rparr>" 0
      set_conts "Wasm32 False"]
  by (force simp: condvar_new_def mutex_quiet_def cv_quiet_def)

subsection \<open>Waiting while a condition holds\<close>

lemma ends_wait_while_done:
  assumes "ends condition s (Return False) s1"
  shows "ends (loop (wait_while_body K condition w)) s (Return Guard) s1"
    and "ends (loop (wait_timeout_while_body K condition w')) s (Return (Guard, WaitTimeoutResult False)) s1"
  unfolding wait_while_body_def wait_timeout_while_body_def
  by (rule ends_loop_break, rule ends_bind [OF ends_on_unwind_Return [OF assms]], simp add: ends_Return)+

lemma ends_wait_while_Panic:
  assumes "ends condition s (Panic m) s1" and "mutex_quiet s1"
  shows "ends (loop (wait_while_body K condition w)) s (Panic m) (woken K (s1\<lparr>data_lock := False\<rparr>))"
    and "ends (loop (wait_timeout_while_body K condition w')) s (Panic m) (woken K (s1\<lparr>data_lock := False\<rparr>))"
  unfolding wait_while_body_def wait_timeout_while_body_def
  by (rule ends_loop_Panic, rule ends_bind_Panic,
      rule ends_on_unwind_Panic [OF assms(1) ends_drop_held [OF assms(2)]])+

lemmas wait_while_defs = wait_sync_while_def wait_block_while_def wait_spin_while_def
  wait_async_while_def wait_sync_timeout_while_def wait_block_timeout_while_def
  wait_spin_timeout_while_def wait_async_timeout_while_def

text \<open>The \<open>_while\<close> waits test the condition first: when it is false at once they return the guard
  without waiting (and report no timeout), in the state the condition left.\<close>

lemma wait_while_tests_first:
  assumes "ends condition s (Return False) s1"
  shows "ends (wait_sync_while K P t condition) s (Return Guard) s1 \<and>
    ends (wait_async_while K condition) s (Return Guard) s1 \<and>
    ends (wait_sync_timeout_while K P t deadline condition) s (Return (Guard, WaitTimeoutResult False)) s1 \<and>
    ends (wait_async_timeout_while K deadline condition) s (Return (Guard, WaitTimeoutResult False)) s1"
  using ends_wait_while_done [OF assms] by (simp add: wait_while_defs)

text \<open>When the condition panics inside a \<open>_while\<close> wait, the guard is dropped on the way out: the
  mutex is free and its waiters have been woken, and the panic goes on.\<close>

lemma wait_while_panic_releases:
  assumes "ends condition s (Panic m) s1" and "mutex_quiet s1"
  shows "ends (wait_sync_while K P t condition) s (Panic m) (woken K (s1\<lparr>data_lock := False\<rparr>)) \<and>
    ends (wait_async_while K condition) s (Panic m) (woken K (s1\<lparr>data_lock := False\<rparr>)) \<and>
    ends (wait_sync_timeout_while K P t deadline condition) s (Panic m) (woken K (s1\<lparr>data_lock := False\<rparr>)) \<and>
    ends (wait_async_timeout_while K deadline condition) s (Panic m) (woken K (s1\<lparr>data_lock := False\<rparr>))"
  using ends_wait_while_Panic [OF assms] by (simp add: wait_while_defs)

lemma notify_one_wakes_one_witness:
  "\<exists>s1. ends (notify_one set_conts)
     (condvar_new fresh_runtime (0::nat) 0\<lparr>cv_sync_threads := spinlock_new [3, 7]\<rparr>) (Return ()) s1 \<and>
     data (cv_sync_threads s1) = [3] \<and> token s1 = (\<lambda>_. False)(7 := True)"
  using notify_one_wakes_one [of "condvar_new fresh_runtime (0::nat) 0\<lparr>cv_sync_threads := spinlock_new [3, 7]\<rparr>" set_conts]
  by (force simp: condvar_new_def cv_quiet_def notified_one_def set_token_def)

lemma notify_all_wakes_all_witness:
  "\<exists>s1. ends (notify_all set_conts)
     (condvar_new fresh_runtime (0::nat) 0\<lparr>cv_sync_threads := spinlock_new [3, 7]\<rparr>) (Return ()) s1 \<and>
     data (cv_sync_threads s1) = [] \<and> token s1 3 \<and> token s1 7 \<and> \<not> token s1 1"
  using notify_all_wakes_all [of "condvar_new fresh_runtime (0::nat) 0\<lparr>cv_sync_threads := spinlock_new [3, 7]\<rparr>" set_conts]
  by (force simp: condvar_new_def cv_quiet_def notified_all_def)

lemma wait_while_tests_first_witness:
  "ends (wait_sync_while set_conts Native 0 (Return False)) (condvar_new fresh_runtime (0::nat) 0\<lparr>data_lock := True\<rparr>)
     (Return Guard) (condvar_new fresh_runtime 0 0\<lparr>data_lock := True\<rparr>)"
  using wait_while_tests_first [OF ends_Return] by blast

lemma wait_while_panic_releases_witness:
  "\<exists>s1. ends (wait_async_while set_conts (Panic ''boom'')) (condvar_new fresh_runtime (0::nat) 0\<lparr>data_lock := True\<rparr>)
     (Panic ''boom'') s1 \<and> \<not> data_lock s1"
  using wait_while_panic_releases [OF ends_Panic, of "condvar_new fresh_runtime (0::nat) 0\<lparr>data_lock := True\<rparr>"]
  by (force simp: condvar_new_def mutex_quiet_def)

subsection \<open>Two schedules that lose a notification\<close>

text \<open>The clients: take the lock, wait once (with or without a deadline), and give the lock back; the
  result is whether the wait timed out.\<close>

definition sync_waiter :: "'k cont_ops \<Rightarrow> tid \<Rightarrow> (('d, 'k, 'z) condvar_scheme, bool) prog" where
  "sync_waiter K t =
     bind (lock_block Native t) (\<lambda>g. bind (wait_block K Native t g) (\<lambda>g. seq (guard_drop K) (Return False)))"

definition async_waiter_until ::
  "'k cont_ops \<Rightarrow> instant \<Rightarrow> (('d, 'k, 'z) condvar_scheme, bool) prog" where
  "async_waiter_until K deadline =
     bind (lock_async K) (\<lambda>g. bind (wait_async_timeout K g deadline) (\<lambda>(g, result).
       seq (guard_drop K) (Return (timed_out result))))"

definition async_waiter_forever :: "'k cont_ops \<Rightarrow> (('d, 'k, 'z) condvar_scheme, bool) prog" where
  "async_waiter_forever K =
     bind (lock_async K) (\<lambda>g. bind (wait_async K g) (\<lambda>g. seq (guard_drop K) (Return False)))"

definition notifier :: "'k cont_ops \<Rightarrow> (('d, 'k, 'z) condvar_scheme, bool) prog" where
  "notifier K = seq (notify_one K) (Return False)"

definition cv_start ::
  "(tid \<Rightarrow> ((unit, nat \<times> nat set) condvar, bool) prog) \<Rightarrow> ((unit, nat \<times> nat set) condvar, bool) config" where
  "cv_start ps = (condvar_new fresh_runtime () 0, ps)"

lemma sys_reach_env: "sys_reach env c0 c \<Longrightarrow> env (fst c) s' \<Longrightarrow> sys_reach env c0 (s', snd c)"
  by (cases c) (auto intro: reach_next env_step)

lemmas cv_run_defs = condvar_new_def spinlock_new_def set_token_def take_token_def
  sync_waiter_def async_waiter_until_def async_waiter_forever_def notifier_def
  lock_sync_def wait_block_def wait_async_def wait_async_timeout_def join_async_list_def drop_async_waiter_def
  notify_one_def notify_one_sync_def notify_one_async_def

definition two_sync_waiters :: "tid \<Rightarrow> ((unit, nat \<times> nat set) condvar, bool) prog" where
  "two_sync_waiters t = (if t < 2 then sync_waiter set_conts t else if t = 2 then notifier set_conts
     else Return False)"

text \<open>Thread 1 waits, then thread 0 waits; thread 0's park returns spuriously and it leaves its entry
  behind; then thread 2 notifies.\<close>

definition spurious_point :: "((unit, nat \<times> nat set) condvar, bool) config" where
  "spurious_point = run_schedule (replicate 20 1 @ replicate 20 0) (cv_start two_sync_waiters)"

definition stale_end :: "((unit, nat \<times> nat set) condvar, bool) config" where
  "stale_end = run_schedule (replicate 20 0 @ replicate 10 2)
     (set_token 0 (fst spurious_point), snd spurious_point)"

lemma stale_end_facts:
  "data (cv_sync_threads (fst stale_end)) = [1]" "token (fst stale_end) = (\<lambda>_. False)(0 := True)"
  "snd stale_end 0 = Return False" "snd stale_end 2 = Return False"
  "running (snd stale_end 1)" "resume (snd stale_end t) (fst stale_end) = None"
  unfolding stale_end_def spurious_point_def cv_start_def
  by (simp_all add: cv_run_defs two_sync_waiters_def numeral_eq_Suc)


definition async_clients :: "tid \<Rightarrow> ((unit, nat \<times> nat set) condvar, bool) prog" where
  "async_clients t = (if t = 0 then async_waiter_until set_conts 5 else if t = 1 then async_waiter_forever set_conts
     else if t = 2 then notifier set_conts else Return False)"

text \<open>Thread 1 waits for ever, thread 0 until time 5; at time 5 the timer fires and thread 0's race
  reports the timeout; before it looks for its entry, thread 2 notifies and pops it.\<close>

definition both_registered :: "((unit, nat \<times> nat set) condvar, bool) config" where
  "both_registered = run_schedule (replicate 20 1 @ replicate 21 0) (cv_start async_clients)"

definition timer_fired :: "((unit, nat \<times> nat set) condvar, bool) config" where
  "timer_fired = (let s = fst both_registered\<lparr>clock := 5\<rparr>
     in (s\<lparr>timers := remove1 (5, 2) (timers s), conts := k_send set_conts 2 (conts s)\<rparr>, snd both_registered))"

definition late_end :: "((unit, nat \<times> nat set) condvar, bool) config" where
  "late_end = run_schedule ([0] @ replicate 16 2 @ replicate 20 0) timer_fired"

lemma both_registered_facts:
  "clock (fst both_registered) = 0" "timers (fst both_registered) = [(5, 2)]"
  unfolding both_registered_def cv_start_def
  by (simp_all add: cv_run_defs async_clients_def numeral_eq_Suc)

lemma late_end_facts:
  "snd late_end 0 = Return True" "snd late_end 2 = Return False" "running (snd late_end 1)"
  "resume (snd late_end t) (fst late_end) = None"
  "map waiter_id (data (cv_async_threads (fst late_end))) = [0]" "timers (fst late_end) = []"
  unfolding late_end_def timer_fired_def both_registered_def cv_start_def
  by (simp_all add: cv_run_defs async_clients_def numeral_eq_Suc)

text \<open>An asynchronous wait can take a notification and still report a timeout. There is a
  reachable state in which the notifier has returned, the waiter it popped has returned with
  \<open>timed_out() = true\<close>, and the other waiter is still listed and waits, with nothing able to move.\<close>

lemma timed_out_wait_takes_notification:
  "\<exists>s ps. sys_reach (runtime_env set_conts) (cv_start async_clients) (s, ps) \<and> stuck (s, ps) \<and>
    ps 0 = Return True \<and> ps 2 = Return False \<and> running (ps 1) \<and>
    map waiter_id (data (cv_async_threads s)) = [0]"
proof (intro exI conjI)
  let ?c = "both_registered" and ?s = "fst both_registered\<lparr>clock := 5\<rparr>"
  have "sys_reach (runtime_env set_conts) (cv_start async_clients) (?s, snd ?c)"
    using both_registered_facts(1) unfolding both_registered_def
    by (intro sys_reach_env [OF run_schedule_start]) (simp add: tick)
  then have "sys_reach (runtime_env set_conts) (cv_start async_clients)
      (?s\<lparr>timers := remove1 (5, 2) (timers ?s), conts := k_send set_conts 2 (conts ?s)\<rparr>, snd (?s, snd ?c))"
    by (rule sys_reach_env, unfold fst_conv, intro timer_fires) (simp_all add: both_registered_facts(2))
  then have "sys_reach (runtime_env set_conts) (cv_start async_clients) timer_fired"
    by (simp add: timer_fired_def Let_def)
  then show "sys_reach (runtime_env set_conts) (cv_start async_clients) (fst late_end, snd late_end)"
    unfolding late_end_def by (simp add: run_schedule_reach)
qed (simp_all add: late_end_facts late_end_facts(3) [simplified] stuck_def)

end
