(* ===== verification/Mpsc_Runs.thy ===== *)
theory Mpsc_Runs
  imports Mpsc Condvar_Runs
begin

section \<open>Calls of the channel that run alone\<close>

text \<open>
  The channel as a queue: an interface for anything that is sent to and received from in order,
  the facts every such queue has, and the proof that each pair of the crate's \<open>send_*\<close> and
  \<open>recv_*\<close> calls provides it. Then the error results, disconnection and the sender count.
\<close>

text \<open>How a call waits for a lock or a value: the prefix of the four families of methods.\<close>

datatype strategy = Spinning platform tid | Blocking platform tid | Syncing platform tid | Asynchronous

fun lock_by :: "'k cont_ops \<Rightarrow> strategy \<Rightarrow> (('d, 'k, 'z) mutex_scheme, guard) prog" where
  "lock_by K (Spinning P t) = lock_spin"
| "lock_by K (Blocking P t) = lock_block P t"
| "lock_by K (Syncing P t) = lock_sync P t"
| "lock_by K Asynchronous = lock_async K"

fun wait_by :: "'k cont_ops \<Rightarrow> strategy \<Rightarrow> (('d, 'k, 'z) condvar_scheme, guard) prog" where
  "wait_by K (Spinning P t) = wait_spin K P t Guard"
| "wait_by K (Blocking P t) = wait_block K P t Guard"
| "wait_by K (Syncing P t) = wait_sync K P t Guard"
| "wait_by K Asynchronous = wait_async K Guard"

fun send_by :: "'k cont_ops \<Rightarrow> strategy \<Rightarrow> 'a \<Rightarrow>
    (('a, 'k, 'w::len, 'z) channel_scheme, 'a send_error + unit) prog" where
  "send_by K (Spinning P t) v = send_spin K v"
| "send_by K (Blocking P t) v = send_block K P t v"
| "send_by K (Syncing P t) v = send_sync K P t v"
| "send_by K Asynchronous v = send_async K v"

fun recv_by :: "'k cont_ops \<Rightarrow> strategy \<Rightarrow> (('a, 'k, 'w::len, 'z) channel_scheme, recv_error + 'a) prog" where
  "recv_by K (Spinning P t) = recv_spin K P t"
| "recv_by K (Blocking P t) = recv_block K P t"
| "recv_by K (Syncing P t) = recv_sync K P t"
| "recv_by K Asynchronous = recv_async K"

lemma send_by_with: "send_by K how v = send_with K (lock_by K how) v"
  by (cases how) (simp_all add: send_spin_def send_block_def send_sync_def send_async_def)

lemma recv_by_with: "recv_by K how = recv_with K (lock_by K how) (wait_by K how)"
  by (cases how) (simp_all add: recv_spin_def recv_block_def recv_sync_def recv_async_def)

lemma ends_lock_by:
  assumes "\<not> data_lock s" and "mutex_quiet s"
  shows "ends (lock_by K how) s (Return Guard) (s\<lparr>data_lock := True\<rparr>)"
proof -
  have "\<not> locked (waiting_sync_threads s)" "\<not> locked (waiting_async_threads s)"
    using assms(2) by (simp_all add: mutex_quiet_def)
  with assms(1) show ?thesis
    by (cases how) (simp_all add: ends_lock_sync ends_lock_block ends_lock_spin ends_lock_async)
qed

subsection \<open>The interface of a queue\<close>

text \<open>\<open>send\<close> appends to the queue and \<open>recv\<close> takes its first element, in any state in which the
  object is \<open>ready\<close>; both leave it ready.\<close>

fun collect :: "nat \<Rightarrow> ('s, 'r) prog \<Rightarrow> ('s, 'r list) prog" where
  "collect 0 p = Return []"
| "collect (Suc n) p = bind p (\<lambda>r. bind (collect n p) (\<lambda>rs. Return (r # rs)))"

definition ignore :: "('s, 'r) prog \<Rightarrow> ('s, unit) prog" where
  "ignore p = seq p (Return ())"

lemma ends_ignore: "ends p s (Return x) s1 \<Longrightarrow> ends (ignore p) s (Return ()) s1"
  using ends_bind [of p s x s1 "\<lambda>_. Return ()"] ends_Return by (simp add: ignore_def)

text \<open>\<open>n\<close> results and the one after them.\<close>

definition drain :: "nat \<Rightarrow> ('s, 'r) prog \<Rightarrow> ('s, 'r list) prog" where
  "drain n p = bind (collect n p) (\<lambda>rs. bind p (\<lambda>r. Return (rs @ [r])))"

locale fifo =
  fixes ready :: "'s \<Rightarrow> bool" and queue :: "'s \<Rightarrow> 'a list"
    and send :: "'a \<Rightarrow> ('s, 'e) prog" and sent :: 'e
    and recv :: "('s, 'r) prog" and got :: "'a \<Rightarrow> 'r"
  assumes send_appends: "ready s \<Longrightarrow>
      \<exists>s1. ends (send v) s (Return sent) s1 \<and> ready s1 \<and> queue s1 = queue s @ [v]"
    and recv_takes_first: "ready s \<Longrightarrow> queue s = v # vs \<Longrightarrow>
      \<exists>s1. ends recv s (Return (got v)) s1 \<and> ready s1 \<and> queue s1 = vs"
begin

lemma send_all:
  "ready s \<Longrightarrow> \<exists>s1. ends (for_each vs (\<lambda>v. ignore (send v))) s (Return ()) s1 \<and>
     ready s1 \<and> queue s1 = queue s @ vs"
proof (induction vs arbitrary: s)
  case (Cons v vs)
  from send_appends [OF Cons.prems] obtain s1 where s1: "ends (send v) s (Return sent) s1" "ready s1"
    "queue s1 = queue s @ [v]" by blast
  from Cons.IH [OF s1(2)] obtain s2 where s2: "ready s2" "queue s2 = queue s1 @ vs"
    "ends (for_each vs (\<lambda>v. ignore (send v))) s1 (Return ()) s2" by blast
  have "ends (for_each (v # vs) (\<lambda>v. ignore (send v))) s (Return ()) s2"
    unfolding for_each.simps by (rule ends_bind [OF ends_ignore [OF s1(1)] s2(3)])
  with s1 s2 show ?case by auto
qed (auto intro: ends_Return)

lemma recv_all:
  "ready s \<Longrightarrow> queue s = vs @ rest \<Longrightarrow>
     \<exists>s1. ends (collect (length vs) recv) s (Return (map got vs)) s1 \<and> ready s1 \<and> queue s1 = rest"
proof (induction vs arbitrary: s)
  case (Cons v vs)
  from recv_takes_first [of s v "vs @ rest"] Cons.prems obtain s1 where
    s1: "ends recv s (Return (got v)) s1" "ready s1" "queue s1 = vs @ rest" by auto
  from Cons.IH [OF s1(2,3)] obtain s2 where s2: "ready s2" "queue s2 = rest"
    "ends (collect (length vs) recv) s1 (Return (map got vs)) s2" by blast
  have "ends (collect (length (v # vs)) recv) s (Return (map got (v # vs))) s2"
    by (simp, rule ends_bind [OF s1(1)], rule ends_bind [OF s2(3)], rule ends_Return)
  with s2 show ?case by blast
qed (auto intro: ends_Return)

lemma fifo_round_trip:
  assumes "ready s" and "queue s = []"
  shows "\<exists>s1. ends (seq (for_each vs (\<lambda>v. ignore (send v))) (collect (length vs) recv)) s
    (Return (map got vs)) s1 \<and> ready s1 \<and> queue s1 = []"
proof -
  obtain s1 where "ends (for_each vs (\<lambda>v. ignore (send v))) s (Return ()) s1"
    "ready s1" "queue s1 = vs" using send_all [OF assms(1)] assms(2) by auto
  then show ?thesis using recv_all [of s1 vs "[]"] by (auto intro: ends_bind)
qed

lemma drain_all:
  assumes "ready s" and "queue s = vs"
    and "\<And>s. ready s \<Longrightarrow> queue s = [] \<Longrightarrow> \<exists>s1. ends recv s (Return fin) s1"
  shows "\<exists>s1. ends (drain (length vs) recv) s (Return (map got vs @ [fin])) s1"
proof -
  obtain s1 where s1: "ends (collect (length vs) recv) s (Return (map got vs)) s1" "ready s1" "queue s1 = []"
    using recv_all [of s vs "[]"] assms(1,2) by auto
  with assms(3) obtain s2 where "ends recv s1 (Return fin) s2" by blast
  then have "ends (bind recv (\<lambda>r. Return (map got vs @ [r]))) s1 (Return (map got vs @ [fin])) s2"
    by (rule ends_bind) (rule ends_Return)
  with s1 show ?thesis unfolding drain_def by (blast intro: ends_bind)
qed

end

subsection \<open>The channel is a queue\<close>

text \<open>Nobody is inside a call: the queue's lock and all waiting lists are free.\<close>

definition channel_quiet :: "('d, 'k, 'z) condvar_scheme \<Rightarrow> bool" where
  "channel_quiet s \<longleftrightarrow> \<not> data_lock s \<and> mutex_quiet s \<and> cv_quiet s"

definition after_send :: "'k cont_ops \<Rightarrow> 'a \<Rightarrow> ('a list, 'k, 'z) condvar_scheme \<Rightarrow> ('a list, 'k, 'z) condvar_scheme"
  where
  "after_send K v s = notified_one K (woken K (s\<lparr>inner := inner s @ [v], data_lock := False\<rparr>))"

lemma quiet_fields [simp]:
  "cv_quiet (s\<lparr>inner := x\<rparr>) = cv_quiet s" "cv_quiet (s\<lparr>data_lock := b\<rparr>) = cv_quiet s"
  "mutex_quiet (s'\<lparr>inner := x\<rparr>) = mutex_quiet s'" "mutex_quiet (s'\<lparr>data_lock := b\<rparr>) = mutex_quiet s'"
  "cv_quiet (c\<lparr>sender_count := n\<rparr>) = cv_quiet c" "cv_quiet (c\<lparr>receiver_active := b\<rparr>) = cv_quiet c"
  "mutex_quiet (c\<lparr>sender_count := n\<rparr>) = mutex_quiet c" "mutex_quiet (c\<lparr>receiver_active := b\<rparr>) = mutex_quiet c"
  by (simp_all add: cv_quiet_def mutex_quiet_def)

lemma woken_inner [simp]:
  "inner (woken K s) = inner s" "cv_quiet (woken K s) = cv_quiet s"
  "sender_count (woken K s') = sender_count s'" "receiver_active (woken K s') = receiver_active s'"
  by (simp_all add: woken_def cv_quiet_def)

lemma notified_one_fields [simp]:
  "inner (notified_one K s) = inner s" "data_lock (notified_one K s) = data_lock s"
  "mutex_quiet (notified_one K s) = mutex_quiet s"
  "cv_quiet s \<Longrightarrow> cv_quiet (notified_one K s)"
  "sender_count (notified_one K s') = sender_count s'"
  "receiver_active (notified_one K s') = receiver_active s'"
  by (auto simp: notified_one_def mutex_quiet_def cv_quiet_def set_token_def)

lemma ends_write: "ends (guard_write v) s (Return ()) (s\<lparr>inner := v\<rparr>)"
  by (rule ends_one) simp

lemma ends_push_back: "ends (push_back v) s (Return ()) (s\<lparr>inner := inner s @ [v]\<rparr>)"
  by (rule ends_step [OF queue_steps(1) ends_write])

lemma ends_pop_front:
  "ends pop_front s (Return (case inner s of [] \<Rightarrow> None | v # vs \<Rightarrow> Some v)) (s\<lparr>inner := tl (inner s)\<rparr>)"
  by (rule ends_step [OF queue_steps(2)])
    (cases "inner s"; simp add: ends_Return; rule ends_bind [OF ends_write ends_Return])

lemma ends_pop_front_none: "inner s = [] \<Longrightarrow> ends pop_front s (Return None) s"
  by (rule ends_one) simp

lemma ends_notify_one': "cv_quiet s \<Longrightarrow> s1 = notified_one K s \<Longrightarrow> ends (notify_one K) s (Return ()) s1"
  by (simp add: ends_notify_one)

lemma ends_send_by:
  fixes s :: "('a, 'k, 'w::len, 'z) channel_scheme"
  assumes "channel_quiet s" and "receiver_active s"
  shows "ends (send_by K how v) s (Return (Inr ())) (after_send K v s)"
proof -
  let ?s1 = "s\<lparr>data_lock := True\<rparr>"
  let ?s2 = "?s1\<lparr>inner := inner s @ [v]\<rparr>"
  have push: "ends (push_back v) ?s1 (Return ()) ?s2"
    using ends_push_back [of v ?s1] by simp
  have "ends (seq (guard_drop K) (seq (notify_one K) (Return (Inr ())))) ?s2
      (Return (Inr () :: 'a send_error + unit)) (after_send K v s)"
    by (rule ends_bind [OF ends_drop_held], use assms in \<open>simp add: channel_quiet_def mutex_quiet_def\<close>,
        rule ends_bind [OF ends_notify_one' ends_Return])
      (use assms in \<open>simp_all add: channel_quiet_def after_send_def cv_quiet_def\<close>)
  then have "ends (send_locked K v) ?s1 (Return (Inr () :: 'a send_error + unit)) (after_send K v s)"
    unfolding send_locked_def
    by (intro ends_bind [OF ends_one [OF channel_simple_steps(8)]])
      (use assms ends_bind [OF push] in simp)
  then have "ends (bind (lock_by K how) (\<lambda>queue. send_locked K v)) s
      (Return (Inr () :: 'a send_error + unit)) (after_send K v s)"
    by (rule ends_bind [OF ends_lock_by, rotated 2]) (use assms in \<open>simp_all add: channel_quiet_def\<close>)
  then show ?thesis unfolding send_by_with send_with_def
    by (intro ends_bind [OF ends_one [OF channel_simple_steps(8)]]) (simp add: assms(2))
qed

definition after_recv :: "'k cont_ops \<Rightarrow> ('a list, 'k, 'z) mutex_scheme \<Rightarrow> ('a list, 'k, 'z) mutex_scheme"
  where
  "after_recv K s = woken K (s\<lparr>inner := tl (inner s), data_lock := False\<rparr>)"

lemma ends_drop_break:
  assumes "mutex_quiet s"
  shows "ends (seq (guard_drop K) (Return x)) s (Return x) (woken K (s\<lparr>data_lock := False\<rparr>))"
  by (rule ends_bind [OF ends_drop_held [OF assms] ends_Return])

lemma ends_recv_body_got:
  assumes "mutex_quiet s" and "inner s = v # vs"
  shows "ends (recv_body K w) s (Return (Some (Inr v))) (after_recv K s)"
    and "ends (recv_timeout_body K w') s (Return (Some (Inr v))) (after_recv K s)"
  unfolding recv_body_def recv_timeout_body_def after_recv_def
  by (rule ends_bind [OF ends_pop_front], simp add: assms(2),
      rule ends_state [OF ends_drop_break], use assms in \<open>simp_all add: mutex_quiet_def\<close>)+

lemma ends_recv_body_disconnected:
  fixes s :: "('a, 'k, 'w::len, 'z) channel_scheme"
  assumes "mutex_quiet s" and "inner s = []" and "sender_count s = 0"
  shows "ends (recv_body K w) s (Return (Some (Inl Disconnected))) (after_recv K s)"
    and "ends (recv_timeout_body K w') s (Return (Some (Inl TimeoutDisconnected))) (after_recv K s)"
  unfolding recv_body_def recv_timeout_body_def after_recv_def
  by (rule ends_bind [OF ends_pop_front], simp add: assms(2),
      rule ends_bind [OF ends_one [OF channel_simple_steps(9)]], simp add: assms(3),
      rule ends_state [OF ends_drop_break], use assms in \<open>simp_all add: mutex_quiet_def\<close>)+

lemma ends_recv_with:
  assumes "channel_quiet s" and "ends (recv_body K (wait_by K how)) (s\<lparr>data_lock := True\<rparr>) (Return (Some r)) s1"
  shows "ends (recv_by K how) s (Return r) s1"
  unfolding recv_by_with recv_with_def
  by (rule ends_bind [OF ends_lock_by ends_loop_break [OF assms(2)]])
    (use assms(1) in \<open>simp_all add: channel_quiet_def\<close>)

lemma after_recv_lock [simp]: "after_recv K (s\<lparr>data_lock := b\<rparr>) = after_recv K s"
  by (simp add: after_recv_def)

lemma ends_recv_by:
  assumes "channel_quiet s" and "inner s = v # vs"
  shows "ends (recv_by K how) s (Return (Inr v)) (after_recv K s)"
  using ends_recv_with [OF assms(1) ends_recv_body_got(1)] assms
  by (simp add: channel_quiet_def mutex_quiet_def)

lemma ends_recv_by_disconnected:
  assumes "channel_quiet s" and "inner s = []" and "sender_count s = 0"
  shows "ends (recv_by K how) s (Return (Inl Disconnected)) (after_recv K s)"
  using ends_recv_with [OF assms(1) ends_recv_body_disconnected(1)] assms
  by (simp add: channel_quiet_def mutex_quiet_def)

lemma after_fields [simp]:
  "channel_quiet s \<Longrightarrow> channel_quiet (after_send K v s)" "inner (after_send K v s) = inner s @ [v]"
  "channel_quiet s \<Longrightarrow> channel_quiet (after_recv K s)" "inner (after_recv K s) = tl (inner s)"
  "receiver_active (after_send K v s') = receiver_active s'" "sender_count (after_send K v s') = sender_count s'"
  "receiver_active (after_recv K s') = receiver_active s'" "sender_count (after_recv K s') = sender_count s'"
  by (simp_all add: after_send_def after_recv_def channel_quiet_def)

text \<open>Ready for both sides: quiet, the receiver alive, and a given number of senders.\<close>

definition channel_ready :: "'w::len word \<Rightarrow> ('a, 'k, 'w, 'z) channel_scheme \<Rightarrow> bool" where
  "channel_ready n s \<longleftrightarrow> channel_quiet s \<and> receiver_active s \<and> sender_count s = n"

lemma channel_sends:
  "channel_ready n s \<Longrightarrow> \<exists>s1. ends (send_by K how v) s (Return (Inr ())) s1 \<and>
      channel_ready n s1 \<and> inner s1 = inner s @ [v]"
  using ends_send_by [of s K how v] by (intro exI [of _ "after_send K v s"]) (simp add: channel_ready_def)

lemma channel_receives:
  "channel_ready n s \<Longrightarrow> inner s = v # vs \<Longrightarrow>
    \<exists>s1. ends (recv_by K how) s (Return (Inr v)) s1 \<and> channel_ready n s1 \<and> inner s1 = vs"
  using ends_recv_by [of s v vs K how] by (intro exI [of _ "after_recv K s"]) (simp add: channel_ready_def)

interpretation channel: fifo "channel_ready n" inner "send_by K how" "Inr ()" "recv_by K how'" Inr
  for n K how how'
  by unfold_locales (fact channel_sends, fact channel_receives)

lemma ends_iter_next:
  assumes "ends (recv_sync K P t) s (Return r) s1"
  shows "ends (iter_next K P t) s (Return (case r of Inr v \<Rightarrow> Some v | Inl _ \<Rightarrow> None)) s1"
  unfolding iter_next_def by (rule ends_bind [OF assms]) (cases r; simp)

lemma channel_iterates:
  "channel_ready n s \<Longrightarrow> inner s = v # vs \<Longrightarrow>
    \<exists>s1. ends (iter_next K P t) s (Return (Some v)) s1 \<and> channel_ready n s1 \<and> inner s1 = vs"
  using channel_receives [of n s v vs K "Syncing P t"] ends_iter_next [of K P t s "Inr v"] by auto

interpretation iterated: fifo "channel_ready n" inner "send_by K how" "Inr ()" "iter_next K P t" Some
  for n K how P t
  by unfold_locales (fact channel_sends, fact channel_iterates)

lemma channel_new_ready: "channel_ready 1 (channel_new r ids)" "inner (channel_new r ids) = []"
  by (simp_all add: channel_new_def condvar_new_def channel_ready_def channel_quiet_def mutex_quiet_def
      cv_quiet_def condvar.extend_def)

text \<open>C18: first in, first out. Values sent to a fresh channel by any one of the \<open>send_*\<close> methods and
  then received by any one of the \<open>recv_*\<close> methods come out complete and in the order they were
  sent, every call completes, and the channel is empty and usable afterwards.\<close>

theorem channel_fifo:
  "\<exists>s1. ends (seq (for_each vs (\<lambda>v. ignore (send_by K how v))) (collect (length vs) (recv_by K how')))
      (channel_new r ids) (Return (map Inr vs)) s1 \<and> channel_ready 1 s1 \<and> inner s1 = []"
  by (rule channel.fifo_round_trip [OF channel_new_ready])

subsection \<open>Disconnection\<close>

lemma notified_all_fields [simp]:
  "inner (notified_all K s) = inner s" "data_lock (notified_all K s) = data_lock s"
  "mutex_quiet (notified_all K s) = mutex_quiet s" "cv_quiet (notified_all K s)"
  "sender_count (notified_all K s') = sender_count s'"
  "receiver_active (notified_all K s') = receiver_active s'"
  by (simp_all add: notified_all_def mutex_quiet_def cv_quiet_def)

lemma ends_receiver_drop:
  assumes "cv_quiet s"
  shows "ends (receiver_drop K) s (Return ()) (notified_all K (s\<lparr>receiver_active := False\<rparr>))"
  unfolding receiver_drop_def
  by (rule ends_bind [OF ends_one [OF channel_simple_steps(12)] ends_notify_all])
    (use assms in \<open>simp add: cv_quiet_def\<close>)

lemma ends_send_inactive:
  "\<not> receiver_active s \<Longrightarrow> ends (send_by K how v) s (Return (Inl (SendError v))) s"
  unfolding send_by_with send_with_def
  by (rule ends_bind [OF ends_one [OF channel_simple_steps(8)]]) simp

text \<open>Dropping the receiver wakes everyone, and every \<open>send_*\<close> after that gives the value back
  in the error and leaves the channel exactly as it was.\<close>

lemma send_without_receiver_returns_value:
  assumes "cv_quiet s"
  shows "ends (seq (receiver_drop K) (send_by K how v)) s (Return (Inl (SendError v)))
    (notified_all K (s\<lparr>receiver_active := False\<rparr>))"
  by (rule ends_bind [OF ends_receiver_drop [OF assms] ends_send_inactive]) simp

lemma ends_last_sender_drop:
  assumes "cv_quiet s" and "sender_count s = 1"
  shows "ends (sender_drop K) s (Return ()) (notified_all K (s\<lparr>sender_count := 0\<rparr>))"
  unfolding sender_drop_def
  by (rule ends_bind [OF ends_one [OF channel_simple_steps(11)]])
    (use assms in \<open>simp, intro ends_notify_all, simp add: cv_quiet_def\<close>)

lemma quiet_count [simp]: "channel_quiet (s\<lparr>sender_count := n\<rparr>) = channel_quiet s"
  by (simp add: channel_quiet_def cv_quiet_def mutex_quiet_def)

lemma last_sender_drop_ready:
  assumes "channel_ready 1 s"
  shows "\<exists>s1. ends (sender_drop K) s (Return ()) s1 \<and> channel_ready 0 s1 \<and> inner s1 = inner s"
proof -
  have "ends (sender_drop K) s (Return ()) (notified_all K (s\<lparr>sender_count := 0\<rparr>))"
    using assms by (intro ends_last_sender_drop) (simp_all add: channel_ready_def channel_quiet_def)
  moreover have "channel_quiet (notified_all K (s\<lparr>sender_count := 0\<rparr>))"
    using assms by (simp add: channel_ready_def channel_quiet_def)
  ultimately show ?thesis using assms by (auto simp: channel_ready_def)
qed

lemma recv_disconnected_ready:
  assumes "channel_ready 0 s" and "inner s = []"
  shows "\<exists>s1. ends (recv_by K how) s (Return (Inl Disconnected)) s1 \<and> channel_ready 0 s1"
  using ends_recv_by_disconnected [of s K how] assms
  by (intro exI [of _ "after_recv K s"]) (simp add: channel_ready_def)

lemma recv_disconnected:
  assumes "channel_ready 0 s" and "inner s = []"
  shows "\<exists>s1. ends (recv_by K how) s (Return (Inl Disconnected)) s1"
  using recv_disconnected_ready [OF assms] by blast

lemma iter_disconnected:
  assumes "channel_ready 0 s" and "inner s = []"
  shows "\<exists>s1. ends (iter_next K P t) s (Return None) s1"
  using recv_disconnected [OF assms, of K "Syncing P t"] ends_iter_next [of K P t s "Inl Disconnected"]
  by auto

text \<open>C19: after the last sender is dropped the receiver still gets every value that was sent, in order,
  and then \<open>Disconnected\<close>; iterating over the receiver yields the same values and then ends.\<close>

theorem disconnect_after_draining:
  assumes "channel_ready 1 s" and "inner s = vs"
  shows "(\<exists>s1. ends (seq (sender_drop K) (drain (length vs) (recv_by K how))) s
      (Return (map Inr vs @ [Inl Disconnected])) s1) \<and>
    (\<exists>s1. ends (seq (sender_drop K) (drain (length vs) (iter_next K P t))) s
      (Return (map Some vs @ [None])) s1)"
proof -
  obtain s1 where s1: "ends (sender_drop K) s (Return ()) s1" "channel_ready 0 s1" "inner s1 = vs"
    using last_sender_drop_ready [OF assms(1), of K] assms(2) by auto
  obtain s2 where "ends (drain (length vs) (recv_by K how)) s1 (Return (map Inr vs @ [Inl Disconnected])) s2"
    using channel.drain_all [OF s1(2,3) recv_disconnected] by blast
  moreover obtain s3 where "ends (drain (length vs) (iter_next K P t)) s1 (Return (map Some vs @ [None])) s3"
    using iterated.drain_all [OF s1(2,3) iter_disconnected] by blast
  ultimately show ?thesis using s1(1) by (blast intro: ends_bind)
qed

lemma ends_try_lock:
  "data_lock s \<Longrightarrow> ends try_lock s (Return (Inl NotAvailable)) s"
  "\<not> data_lock s' \<Longrightarrow> ends try_lock s' (Return (Inr Guard)) (s'\<lparr>data_lock := True\<rparr>)"
  by (rule ends_one, simp)+

subsection \<open>\<open>try_recv\<close> and the timed receives\<close>

text \<open>\<open>try_recv\<close> never waits: it reports \<open>Empty\<close> when the queue is locked, takes the first value if
  there is one, and on an empty queue tells a closed channel from an open one by the sender count.\<close>

lemma try_recv_results:
  fixes s :: "('a, 'k, 'w::len, 'z) channel_scheme"
  assumes "mutex_quiet s"
  shows "\<exists>s1. ends (try_recv K) s (Return
      (if data_lock s then Inl Empty else case inner s of
         v # vs \<Rightarrow> Inr v
       | [] \<Rightarrow> Inl (if sender_count s = 0 then TryDisconnected else Empty))) s1 \<and>
    inner s1 = (if data_lock s then inner s else tl (inner s)) \<and> data_lock s1 = data_lock s"
proof (cases "data_lock s")
  case True
  then show ?thesis unfolding try_recv_def
    by (intro exI [of _ s] conjI ends_bind [OF ends_try_lock(1)]) simp_all
next
  case False
  let ?s1 = "s\<lparr>data_lock := True\<rparr>"
  let ?s2 = "?s1\<lparr>inner := tl (inner ?s1)\<rparr>"
  let ?r = "case inner s of v # vs \<Rightarrow> Inr v | [] \<Rightarrow> Inl (if sender_count s = 0 then TryDisconnected else Empty)"
  have drop: "ends (seq (guard_drop K) (Return r)) ?s2 (Return r) (woken K (?s2\<lparr>data_lock := False\<rparr>))" for r
    using assms by (intro ends_drop_break) simp
  have pop: "ends pop_front ?s1 (Return (case inner s of [] \<Rightarrow> None | v # vs \<Rightarrow> Some v)) ?s2"
    using ends_pop_front [of ?s1] by simp
  have count: "ends load_count ?s2 (Return (sender_count s)) ?s2"
    by (rule ends_one) simp
  have empty: "ends (bind load_count (\<lambda>n. seq (guard_drop K)
        (Return (Inl (if n = 0 then TryDisconnected else Empty))))) ?s2
      (Return (Inl (if sender_count s = 0 then TryDisconnected else Empty) :: try_recv_error + 'a))
      (woken K (?s2\<lparr>data_lock := False\<rparr>))"
    by (rule ends_bind [OF count drop])
  have "ends (try_recv K) s (Return ?r) (woken K (?s2\<lparr>data_lock := False\<rparr>))"
    unfolding try_recv_def
    by (rule ends_bind [OF ends_try_lock(2) [OF False]], simp only: sum.case, rule ends_bind [OF pop])
      (cases "inner s"; use drop empty in simp)
  with False show ?thesis by (intro exI conjI) (assumption | simp)+
qed

fun lock_timeout_by ::
  "'k cont_ops \<Rightarrow> strategy \<Rightarrow> instant \<Rightarrow> (('d, 'k, 'z) mutex_scheme, guard option) prog" where
  "lock_timeout_by K (Spinning P t) d = lock_spin_timeout d"
| "lock_timeout_by K (Blocking P t) d = lock_block_timeout P t d"
| "lock_timeout_by K (Syncing P t) d = lock_sync_timeout P t d"
| "lock_timeout_by K Asynchronous d = lock_async_timeout K d"

fun wait_timeout_by ::
  "'k cont_ops \<Rightarrow> strategy \<Rightarrow> instant \<Rightarrow> (('d, 'k, 'z) condvar_scheme, guard \<times> wait_timeout_result) prog"
  where
  "wait_timeout_by K (Spinning P t) d = wait_spin_timeout K P t Guard d"
| "wait_timeout_by K (Blocking P t) d = wait_block_timeout K P t Guard d"
| "wait_timeout_by K (Syncing P t) d = wait_sync_timeout K P t Guard d"
| "wait_timeout_by K Asynchronous d = wait_async_timeout K Guard d"

fun recv_timeout_by ::
  "'k cont_ops \<Rightarrow> strategy \<Rightarrow> instant \<Rightarrow>
   (('a, 'k, 'w::len, 'z) channel_scheme, recv_timeout_error + 'a) prog" where
  "recv_timeout_by K (Spinning P t) d = recv_spin_timeout K P t d"
| "recv_timeout_by K (Blocking P t) d = recv_block_timeout K P t d"
| "recv_timeout_by K (Syncing P t) d = recv_sync_timeout K P t d"
| "recv_timeout_by K Asynchronous d = recv_async_timeout K d"

lemma recv_timeout_by_with:
  "recv_timeout_by K how d = recv_timeout_with K (lock_timeout_by K how d) (wait_timeout_by K how d)"
  by (cases how) (simp_all add: recv_spin_timeout_def recv_block_timeout_def recv_sync_timeout_def
      recv_async_timeout_def)

fun waits_as :: "strategy \<Rightarrow> tid option" where
  "waits_as (Spinning P t) = Some t"
| "waits_as (Blocking P t) = Some t"
| "waits_as (Syncing P t) = Some t"
| "waits_as Asynchronous = None"

lemma ends_last_try: "\<not> data_lock s \<Longrightarrow> ends last_try s (Return (Some (Some Guard))) (s\<lparr>data_lock := True\<rparr>)"
  unfolding last_try_def by (rule ends_bind [OF ends_try_lock(2)]) simp_all

lemma ends_lock_block_timeout:
  assumes "\<not> data_lock s" and "deadline \<le> clock s"
  shows "ends (lock_block_timeout P t deadline) s (Return (Some Guard)) (s\<lparr>data_lock := True\<rparr>)"
proof -
  have "ends (lock_block_timeout_body P t deadline) s (Return (Some (Some Guard))) (s\<lparr>data_lock := True\<rparr>)"
    unfolding lock_block_timeout_body_def
    by (rule ends_bind [OF ends_one [OF now_simps(2)]]) (simp add: assms ends_last_try)
  then show ?thesis unfolding lock_block_timeout_def by (rule ends_loop_break)
qed

lemma ends_lock_spin_timeout:
  assumes "\<not> data_lock s"
  shows "ends (lock_spin_timeout deadline) s (Return (Some Guard)) (s\<lparr>data_lock := True\<rparr>)"
proof -
  have "ends swap_data_lock s (Return False) (s\<lparr>data_lock := True\<rparr>)"
    by (rule ends_one) (simp add: assms)
  then have "ends (lock_spin_timeout_body deadline) s (Return (Some (Some Guard))) (s\<lparr>data_lock := True\<rparr>)"
    unfolding lock_spin_timeout_body_def by (rule ends_bind) simp
  then show ?thesis unfolding lock_spin_timeout_def by (rule ends_loop_break)
qed

lemma ends_lock_timeout_by:
  assumes "\<not> data_lock s" and "deadline \<le> clock s" and "waits_as how = Some t"
  shows "ends (lock_timeout_by K how deadline) s (Return (Some Guard)) (s\<lparr>data_lock := True\<rparr>)"
  using assms by (cases how) (simp_all add: ends_lock_block_timeout ends_lock_spin_timeout lock_sync_timeout_def)

lemma ends_wait_timeout_by:
  assumes "deadline \<le> clock s" and "data_lock s" and "mutex_quiet s" and "cv_quiet s"
    and "waits_as how = Some t" and "t \<notin> set (data (cv_sync_threads s))"
    and "next_flag s \<notin> set (data (cv_spin_threads s))"
  shows "\<exists>s1. ends (wait_timeout_by K how deadline) s (Return (Guard, WaitTimeoutResult True)) s1 \<and>
    inner s1 = inner s \<and> mutex_quiet s1"
  using assms(5) ends_wait_block_timeout [OF assms(1-4,6)] ends_wait_spin_timeout [OF assms(1-4,7)]
  by (cases how; simp add: wait_sync_timeout_def; force)

text \<open>A receive with a deadline that has passed, on a channel nobody is using, still takes a value
  that is there; without one it tells a closed channel from a timeout, and in each case it completes
  and leaves the queue unlocked. (The asynchronous form waits for its timer thread instead.)\<close>

lemma recv_timeout_expired:
  fixes s :: "('a, 'k, 'w::len, 'z) channel_scheme"
  assumes "channel_quiet s" and "deadline \<le> clock s" and "waits_as how = Some t"
    and "t \<notin> set (data (cv_sync_threads s))" and "next_flag s \<notin> set (data (cv_spin_threads s))"
  shows "\<exists>s1. ends (recv_timeout_by K how deadline) s (Return (case inner s of
         v # vs \<Rightarrow> Inr v
       | [] \<Rightarrow> Inl (if sender_count s = 0 then TimeoutDisconnected else Timeout))) s1 \<and>
    inner s1 = tl (inner s) \<and> \<not> data_lock s1"
proof -
  let ?s1 = "s\<lparr>data_lock := True\<rparr>"
  have start: "ends (recv_timeout_by K how deadline) s (Return r) s1"
    if "ends (recv_timeout_body K (wait_timeout_by K how deadline)) ?s1 (Return (Some r)) s1" for r s1
    unfolding recv_timeout_by_with recv_timeout_with_def
    by (rule ends_bind [OF ends_lock_timeout_by [OF _ assms(2,3)]])
      (use assms(1) ends_loop_break [OF that] in \<open>simp_all add: channel_quiet_def\<close>)
  show ?thesis
  proof (cases "inner s = [] \<and> sender_count s \<noteq> 0")
    case False
    let ?r = "case inner s of v # vs \<Rightarrow> Inr v | [] \<Rightarrow> Inl (if sender_count s = 0 then TimeoutDisconnected else Timeout)"
    have "ends (recv_timeout_body K (wait_timeout_by K how deadline)) ?s1 (Return (Some ?r)) (after_recv K s)"
      using False assms(1) ends_recv_body_got(2) [of ?s1] ends_recv_body_disconnected(2) [of ?s1]
      by (cases "inner s") (simp_all add: channel_quiet_def)
    from start [OF this] show ?thesis by (intro exI conjI) (assumption | simp add: after_recv_def)+
  next
    case True
    obtain s2 where s2: "ends (wait_timeout_by K how deadline) ?s1 (Return (Guard, WaitTimeoutResult True)) s2"
      "inner s2 = []" "mutex_quiet s2"
      using ends_wait_timeout_by [of deadline ?s1 how t K] assms True by (auto simp: channel_quiet_def)
    have pop: "ends pop_front ?s1 (Return None) ?s1"
      using ends_pop_front_none [of ?s1] True by simp
    have count: "ends load_count ?s1 (Return (sender_count s)) ?s1"
      by (rule ends_one) simp
    have "ends (recv_timeout_body K (wait_timeout_by K how deadline)) ?s1 (Return (Some (Inl Timeout)))
        (woken K (s2\<lparr>data_lock := False\<rparr>))"
      unfolding recv_timeout_body_def
      by (rule ends_bind [OF pop], simp only: option.case, rule ends_bind [OF count], simp only: True simp_thms if_False,
          rule ends_bind [OF s2(1)]) (simp add: ends_drop_break s2(3))
    from start [OF this] True s2(2) show ?thesis by auto
  qed
qed

subsection \<open>Counting the senders\<close>

lemma ends_clones:
  fixes s :: "('a, 'k, 'w::len, 'z) channel_scheme"
  shows "ends (for_each [0..<n] (\<lambda>_. sender_clone)) s (Return ()) (s\<lparr>sender_count := sender_count s + of_nat n\<rparr>)"
proof -
  have one: "ends sender_clone s (Return ()) (s\<lparr>sender_count := sender_count s + 1\<rparr>)"
    for s :: "('a, 'k, 'w::len, 'z) channel_scheme"
    unfolding sender_clone_def by (rule ends_bind [OF ends_one [OF channel_simple_steps(10)] ends_Return])
  have "fold (\<lambda>_ s. s\<lparr>sender_count := sender_count s + 1\<rparr>) [0..<n] s = s\<lparr>sender_count := sender_count s + of_nat n\<rparr>"
    by (induction n) (simp_all add: algebra_simps)
  then show ?thesis
    using ends_for_each [of "\<lambda>_. sender_clone" "\<lambda>_ s. s\<lparr>sender_count := sender_count s + 1\<rparr>", OF one, of "[0..<n]" s]
    by (simp only:)
qed

lemma ends_drop_one_of_many:
  "sender_count s \<noteq> 1 \<Longrightarrow> ends (sender_drop K) s (Return ()) (s\<lparr>sender_count := sender_count s - 1\<rparr>)"
  unfolding sender_drop_def by (rule ends_bind [OF ends_one [OF channel_simple_steps(11)]]) simp

lemma ends_drops:
  fixes s :: "('a, 'k, 'w::len, 'z) channel_scheme"
  assumes "sender_count s = of_nat c" and "m < c" and "c < 2 ^ LENGTH('w)"
  shows "ends (for_each [0..<m] (\<lambda>_. sender_drop K)) s (Return ()) (s\<lparr>sender_count := of_nat (c - m)\<rparr>)"
proof -
  have "ends (for_each xs (\<lambda>_. sender_drop K)) s (Return ()) (s\<lparr>sender_count := of_nat (c - length xs)\<rparr>)"
    if "sender_count s = of_nat c" and "length xs < c" and "c < 2 ^ LENGTH('w)"
    for xs :: "nat list" and s :: "('a, 'k, 'w::len, 'z) channel_scheme" and c
    using that
  proof (induction xs arbitrary: s c)
    case Nil
    then show ?case by (auto intro!: ends_state [OF ends_Return])
  next
    case (Cons x xs)
    have "(of_nat c :: 'w word) \<noteq> of_nat 1"
      using Cons.prems of_nat_inverse [of c] of_nat_inverse [of 1] by fastforce
    then have "ends (sender_drop K) s (Return ()) (s\<lparr>sender_count := of_nat (c - 1)\<rparr>)"
      using ends_drop_one_of_many [of s K] Cons.prems by (simp add: of_nat_diff)
    then show ?case
      using Cons.IH [of "s\<lparr>sender_count := of_nat (c - 1)\<rparr>" "c - 1"] Cons.prems
      by (auto intro: ends_bind)
  qed
  from this [of s c "[0..<m]"] assms show ?thesis by simp
qed

text \<open>The sender count is the number of senders: after \<open>n\<close> clones and \<open>m \<le> n\<close> drops it is
  \<open>n + 1 - m\<close>, not zero, and nothing else of the channel has changed. The number of senders is below
  the range of \<open>usize\<close> because each also counts in the \<open>Arc\<close>, which aborts first.\<close>

lemma sender_count_exact:
  fixes s :: "('a, 'k, 'w::len, 'z) channel_scheme"
  assumes "sender_count s = 1" and "m \<le> n" and "n + 1 < 2 ^ LENGTH('w)"
  shows "ends (seq (for_each [0..<n] (\<lambda>_. sender_clone)) (for_each [0..<m] (\<lambda>_. sender_drop K)))
      s (Return ()) (s\<lparr>sender_count := of_nat (n + 1 - m)\<rparr>) \<and>
    unat (of_nat (n + 1 - m) :: 'w word) = n + 1 - m"
proof -
  have "ends (for_each [0..<m] (\<lambda>_. sender_drop K)) (s\<lparr>sender_count := 1 + of_nat n\<rparr>) (Return ())
      (s\<lparr>sender_count := of_nat (n + 1 - m)\<rparr>)"
    using ends_drops [of "s\<lparr>sender_count := 1 + of_nat n\<rparr>" "n + 1" m K] assms by simp
  with ends_clones [of n s] assms(1) have "ends (seq (for_each [0..<n] (\<lambda>_. sender_clone))
      (for_each [0..<m] (\<lambda>_. sender_drop K))) s (Return ()) (s\<lparr>sender_count := of_nat (n + 1 - m)\<rparr>)"
    by (metis ends_bind)
  moreover have "unat (of_nat (n + 1 - m) :: 'w word) = n + 1 - m"
    using assms(3) by (intro of_nat_inverse [OF refl]) simp
  ultimately show ?thesis by blast
qed

end
