(* ===== verification/Mpsc_Waiting.thy ===== *)
theory Mpsc_Waiting
  imports Mpsc_Runs
begin

section \<open>A receiver that waits\<close>

text \<open>
  A receiver that finds the queue empty registers, parks and is woken by the next send; and a
  schedule in which the last sender leaves between the receiver's check and its registration.
\<close>

definition recv_parked ::
  "'k cont_ops \<Rightarrow> platform \<Rightarrow> tid \<Rightarrow> (('a, 'k, 'w::len, 'z) channel_scheme, recv_error + 'a) prog" where
  "recv_parked K P t =
     loop_from (recv_body K (wait_block K P t Guard)) (seq (seq (park P t) (lock_sync P t)) continue)"

lemma runs_wait_block:
  assumes "mutex_quiet s" and "cv_quiet s"
  shows "runs (wait_block K P t Guard) s (seq (park P t) (lock_sync P t))
    (woken K (s\<lparr>cv_sync_threads := spinlock_new (data (cv_sync_threads s) @ [t]), data_lock := False\<rparr>))"
proof -
  let ?s1 = "s\<lparr>cv_sync_threads := spinlock_new (data (cv_sync_threads s) @ [t])\<rparr>"
  have "ends (with_mut cv_sync (push cv_sync t)) s (Return ()) ?s1"
    using ends_push_to [OF cv_sync.spin_place_axioms, of s t] assms(2) by (simp add: cv_quiet_def)
  moreover have "ends (guard_drop K) ?s1 (Return ()) (woken K (?s1\<lparr>data_lock := False\<rparr>))"
    using assms(1) by (intro ends_drop_held) (simp add: mutex_quiet_def)
  ultimately show ?thesis unfolding wait_block_def by (blast intro: runs_after runs_here)
qed

lemma runs_recv_block:
  fixes s :: "('a, 'k, 'w::len, 'z) channel_scheme"
  assumes "channel_quiet s" and "inner s = []" and "sender_count s \<noteq> 0"
  shows "runs (recv_block K P t) s (recv_parked K P t)
    (woken K (s\<lparr>cv_sync_threads := spinlock_new (data (cv_sync_threads s) @ [t])\<rparr>))"
proof -
  let ?s1 = "s\<lparr>data_lock := True\<rparr>"
  let ?s2 = "woken K (?s1\<lparr>cv_sync_threads := spinlock_new (data (cv_sync_threads s) @ [t]), data_lock := False\<rparr>)"
  have count: "ends load_count ?s1 (Return (sender_count s)) ?s1"
    by (rule ends_one) simp
  have "runs (wait_block K P t Guard) ?s1 (seq (park P t) (lock_sync P t)) ?s2"
    using runs_wait_block [of ?s1 K P t] assms(1) by (simp add: channel_quiet_def)
  from runs_bind [OF this, of "\<lambda>_. continue"]
  have "runs (bind load_count (\<lambda>n. if n = 0 then seq (guard_drop K) (break (Inl Disconnected))
      else seq (wait_block K P t Guard) (continue :: (_, (recv_error + 'a) option) prog))) ?s1
      (seq (seq (park P t) (lock_sync P t)) continue) ?s2"
    by (intro runs_after [OF count]) (simp add: assms(3))
  then have "runs (recv_body K (wait_block K P t Guard)) ?s1 (seq (seq (park P t) (lock_sync P t)) continue) ?s2"
    unfolding recv_body_def
    by (intro runs_after [OF ends_pop_front_none]) (simp_all add: assms(2))
  from runs_loop [OF this] have "runs (loop (recv_body K (wait_block K P t Guard))) ?s1 (recv_parked K P t) ?s2"
    by (simp add: recv_parked_def)
  moreover have "ends (lock_block P t) s (Return Guard) ?s1"
    using assms(1) by (intro ends_lock_block) (simp_all add: channel_quiet_def mutex_quiet_def)
  moreover have "?s2 = woken K (s\<lparr>cv_sync_threads := spinlock_new (data (cv_sync_threads s) @ [t])\<rparr>)"
    using assms(1) by (cases s) (simp add: channel_quiet_def)
  ultimately show ?thesis unfolding recv_block_def recv_with_def by (auto intro: runs_after)
qed

lemma quiet_take_token [simp]:
  "channel_quiet (take_token t s) = channel_quiet s" "inner (take_token t s) = inner s"
  by (simp_all add: take_token_def channel_quiet_def cv_quiet_def mutex_quiet_def)

text \<open>A parked receiver whose token has arrived takes the value that is there.\<close>

lemma ends_recv_parked:
  fixes s :: "('a, 'k, 'w::len, 'z) channel_scheme"
  assumes "channel_quiet s" and "inner s = v # vs" and "token s t"
  shows "ends (recv_parked K P t) s (Return (Inr v)) (after_recv K (take_token t s))"
proof -
  let ?s1 = "take_token t s"
  have park: "ends (park P t) s (Return ()) ?s1"
    by (rule ends_one) (simp add: assms(3))
  have "ends (lock_sync P t) ?s1 (Return Guard) (?s1\<lparr>data_lock := True\<rparr>)"
    using assms(1) by (intro ends_lock_sync) (simp_all add: take_token_def channel_quiet_def mutex_quiet_def)
  from ends_bind [OF park this] have "ends (seq (seq (park P t) (lock_sync P t)) continue) s
      (Return (None :: (recv_error + 'a) option)) (?s1\<lparr>data_lock := True\<rparr>)"
    by (rule ends_bind) (rule ends_Return)
  moreover have "ends (loop (recv_body K (wait_block K P t Guard))) (?s1\<lparr>data_lock := True\<rparr>)
      (Return (Inr v)) (after_recv K ?s1)"
    using assms ends_loop_break [OF ends_recv_body_got(1) [of "?s1\<lparr>data_lock := True\<rparr>" v vs K]]
    by (simp add: channel_quiet_def take_token_def mutex_quiet_def)
  ultimately show ?thesis unfolding recv_parked_def by (rule ends_loop_from_continue)
qed

text \<open>A receiver that finds an open channel empty does not return: it registers, releases the queue
  and parks, and while nobody sends it cannot move. The next send, by any method, hands its value to
  it: after the send the receiver completes with that value.\<close>

lemma waiting_receiver_gets_next_send:
  fixes s :: "('a, 'k, 'w::len, 'z) channel_scheme"
  assumes "channel_quiet s" and "receiver_active s" and "sender_count s \<noteq> 0" and "inner s = []"
    and "can_block P" and "\<not> token s t" and "t \<notin> set (data (waiting_sync_threads s))"
    and "data (cv_spin_threads s) = []"
  shows "\<exists>s1. runs (recv_sync K P t) s (recv_parked K P t) s1 \<and> resume (recv_parked K P t) s1 = None \<and>
    (\<exists>s2 s3. ends (send_by K how v) s1 (Return (Inr ())) s2 \<and>
       ends (recv_parked K P t) s2 (Return (Inr v)) s3 \<and> inner s3 = [] \<and> channel_quiet s3)"
proof -
  let ?s1 = "woken K (s\<lparr>cv_sync_threads := spinlock_new (data (cv_sync_threads s) @ [t])\<rparr>)"
  let ?s2 = "after_send K v ?s1"
  have sync: "recv_sync K P t = recv_block K P t"
    using assms(5) by (simp add: recv_sync_def recv_block_def lock_sync_def wait_sync_def)
  have run: "runs (recv_sync K P t) s (recv_parked K P t) ?s1"
    unfolding sync using assms by (intro runs_recv_block) simp_all
  have blocked: "resume (recv_parked K P t) ?s1 = None"
    using assms(5-7) by (simp add: recv_parked_def)
  have quiet: "channel_quiet ?s1"
    using assms(1) by (simp add: channel_quiet_def cv_quiet_def)
  then have send: "ends (send_by K how v) ?s1 (Return (Inr ())) ?s2"
    using assms(2) by (intro ends_send_by) simp_all
  have "token ?s2 t"
    using assms(8) by (simp add: after_send_def notified_one_def set_token_def)
  moreover have quiet2: "channel_quiet ?s2" and inner2: "inner ?s2 = [v]"
    using after_fields(1) [OF quiet] assms(4) by simp_all
  ultimately have "ends (recv_parked K P t) ?s2 (Return (Inr v)) (after_recv K (take_token t ?s2))"
    by (intro ends_recv_parked)
  moreover have "inner (after_recv K (take_token t ?s2)) = []" "channel_quiet (after_recv K (take_token t ?s2))"
    using inner2 quiet2 by simp_all
  ultimately show ?thesis using run blocked send by blast
qed

lemma waiting_receiver_gets_next_send_witness:
  "\<exists>s1. runs (recv_sync set_conts Native 4) (channel_new fresh_runtime 0 :: (nat, _, 32) channel)
      (recv_parked set_conts Native 4) s1 \<and>
    (\<exists>s2 s3. ends (send_by set_conts Asynchronous 7) s1 (Return (Inr ())) s2 \<and>
       ends (recv_parked set_conts Native 4) s2 (Return (Inr 7)) s3 \<and> inner s3 = [])"
proof -
  let ?s = "channel_new fresh_runtime 0 :: (nat, _, 32) channel"
  have "channel_ready 1 ?s" and "inner ?s = []" by (rule channel_new_ready)+
  then have "channel_quiet ?s" "receiver_active ?s" "sender_count ?s \<noteq> 0" "inner ?s = []"
    by (simp_all add: channel_ready_def)
  moreover have "\<not> token ?s 4" "4 \<notin> set (data (waiting_sync_threads ?s))" "data (cv_spin_threads ?s) = []"
    by (simp_all add: channel_new_def condvar_new_def condvar.extend_def)
  ultimately show ?thesis
    using waiting_receiver_gets_next_send [of ?s Native 4 set_conts Asynchronous 7] by auto
qed

subsection \<open>The last sender leaves unnoticed\<close>

definition recv_and_drop :: "tid \<Rightarrow> ((nat, nat \<times> nat set, 32) channel, recv_error + nat) prog" where
  "recv_and_drop t = (if t = 0 then recv_block set_conts Native 0
     else if t = 1 then seq (sender_drop set_conts) (Return (Inl Disconnected))
     else Return (Inl Disconnected))"

text \<open>Thread 0 finds the queue empty and one sender alive; then thread 1, the only sender, is dropped
  completely; then thread 0 goes on and waits.\<close>

definition lost_disconnect :: "((nat, nat \<times> nat set, 32) channel, recv_error + nat) config" where
  "lost_disconnect = run_schedule (replicate 5 0 @ replicate 12 1 @ replicate 12 0)
     (channel_new fresh_runtime 0, recv_and_drop)"

lemma lost_disconnect_facts:
  "snd lost_disconnect 1 = Return (Inl Disconnected)" "running (snd lost_disconnect 0)"
  "resume (snd lost_disconnect t) (fst lost_disconnect) = None"
  "sender_count (fst lost_disconnect) = 0" "inner (fst lost_disconnect) = []"
  unfolding lost_disconnect_def
  by (simp_all add: cv_run_defs recv_and_drop_def numeral_eq_Suc channel_new_def condvar.extend_def
      recv_block_def recv_with_def recv_body_def sender_drop_def notify_all_def)

text \<open>C20: the destructor of the last sender can leave the receiver waiting for ever. It lowers the count
  and notifies without taking the queue's lock, so a receiver that has just read a positive count
  and has not yet registered misses the notification: there is a reachable state in which no sender
  is left, the receiver still waits for a disconnection, and nothing can move.\<close>

theorem disconnect_can_be_missed:
  "\<exists>s ps. sys_reach (runtime_env set_conts) (channel_new fresh_runtime 0, recv_and_drop) (s, ps) \<and>
    stuck (s, ps) \<and> ps 1 = Return (Inl Disconnected) \<and> running (ps 0) \<and>
    sender_count s = 0 \<and> inner s = []"
proof (intro exI conjI)
  show "sys_reach (runtime_env set_conts) (channel_new fresh_runtime 0, recv_and_drop)
      (fst lost_disconnect, snd lost_disconnect)"
    unfolding lost_disconnect_def by (simp add: run_schedule_start)
qed (simp_all add: lost_disconnect_facts lost_disconnect_facts(1) [simplified] stuck_def)

subsection \<open>Concrete channels\<close>

lemma send_without_receiver_returns_value_witness:
  "\<exists>s1. ends (seq (receiver_drop set_conts) (send_by set_conts (Syncing Native 0) 9))
     (channel_new fresh_runtime 0 :: (nat, _, 32) channel) (Return (Inl (SendError 9))) s1"
proof -
  have "channel_ready 1 (channel_new fresh_runtime 0 :: (nat, _, 32) channel)" by (rule channel_new_ready)
  then have "cv_quiet (channel_new fresh_runtime 0 :: (nat, _, 32) channel)"
    by (simp add: channel_ready_def channel_quiet_def)
  from send_without_receiver_returns_value [OF this] show ?thesis by blast
qed

lemma disconnect_after_draining_witness:
  "\<exists>s1. ends (seq (sender_drop set_conts) (drain 0 (iter_next set_conts (Wasm32 False) 0)))
     (channel_new fresh_runtime 0 :: (nat, _, 32) channel) (Return [None]) s1"
  using disconnect_after_draining [OF channel_new_ready, where K = set_conts and how = Asynchronous
      and P = "Wasm32 False" and t = 0] by auto

lemma try_recv_results_witness:
  "\<exists>s1. ends (try_recv set_conts) (channel_new fresh_runtime 0 :: (nat, _, 32) channel)
     (Return (Inl Empty)) s1"
  using try_recv_results [of "channel_new fresh_runtime 0 :: (nat, _, 32) channel" set_conts]
  by (auto simp: channel_new_def condvar_new_def condvar.extend_def mutex_quiet_def)

lemma recv_timeout_expired_witness:
  "\<exists>s1. ends (recv_timeout_by set_conts (Syncing Native 2) 0) (channel_new fresh_runtime 0 :: (nat, _, 32) channel)
     (Return (Inl Timeout)) s1"
  using recv_timeout_expired [of "channel_new fresh_runtime 0 :: (nat, _, 32) channel" 0 "Syncing Native 2" 2 set_conts]
  by (auto simp: channel_new_def condvar_new_def condvar.extend_def mutex_quiet_def cv_quiet_def channel_quiet_def)

lemma sender_count_exact_witness:
  "ends (seq (for_each [0..<4] (\<lambda>_. sender_clone)) (for_each [0..<3] (\<lambda>_. sender_drop set_conts)))
     (channel_new fresh_runtime 0 :: (nat, _, 8) channel) (Return ())
     (channel_new fresh_runtime 0\<lparr>sender_count := 2\<rparr>)"
  using sender_count_exact [of "channel_new fresh_runtime 0 :: (nat, _, 8) channel" 3 4 set_conts]
  by (simp add: channel_new_def condvar.extend_def)

end
