(* ===== verification/Threads.thy ===== *)
theory Threads
  imports Mpsc_Waiting
begin

section \<open>Spawning and joining on the standard library (\<open>src/stdlib.rs\<close>)\<close>

text \<open>
  A spawned thread runs the spawn hooks and the closure, and sends the closure's result, or its
  panic, through a channel of its own; joining is receiving from it. The closure and the hooks are
  user code: parameters. The thread owns the sender and the handle owns the receiver, so both
  are dropped where those are. A panic's payload is a string here.
\<close>

definition thread_main ::
  "'k cont_ops \<Rightarrow> platform \<Rightarrow> tid \<Rightarrow> ((string + 'a, 'k, 'w::len, 'z) channel_scheme, unit) prog \<Rightarrow>
   ((string + 'a, 'k, 'w, 'z) channel_scheme, 'a) prog \<Rightarrow> ((string + 'a, 'k, 'w, 'z) channel_scheme, unit) prog"
  where
  "thread_main K P me hooks f =
     dropping
       (seq hooks (bind (catch_unwind f) (\<lambda>result. ignore (send_sync K P me result))))
       (sender_drop K)"

text \<open>\<open>spawn\<close> and \<open>Builder::spawn\<close>: the state of the new channel and the program of the new thread;
  the builder passes on the error of the operating system.\<close>

definition spawn ::
  "'k runtime \<Rightarrow> u64 \<Rightarrow> 'k cont_ops \<Rightarrow> platform \<Rightarrow> tid \<Rightarrow>
   ((string + 'a, 'k, 'w::len) channel, unit) prog \<Rightarrow> ((string + 'a, 'k, 'w) channel, 'a) prog \<Rightarrow>
   (string + 'a, 'k, 'w) channel \<times> ((string + 'a, 'k, 'w) channel, unit) prog" where
  "spawn r ids K P me hooks f = (channel_new r ids, thread_main K P me hooks f)"

definition builder_spawn ::
  "'e option \<Rightarrow> 'k runtime \<Rightarrow> u64 \<Rightarrow> 'k cont_ops \<Rightarrow> platform \<Rightarrow> tid \<Rightarrow>
   ((string + 'a, 'k, 'w::len) channel, unit) prog \<Rightarrow> ((string + 'a, 'k, 'w) channel, 'a) prog \<Rightarrow>
   'e + (string + 'a, 'k, 'w) channel \<times> ((string + 'a, 'k, 'w) channel, unit) prog" where
  "builder_spawn os_error r ids K P me hooks f = (case os_error of
       Some e \<Rightarrow> Inl e
     | None \<Rightarrow> Inr (channel_new r ids, thread_main K P me hooks f))"

text \<open>\<open>join\<close> and \<open>join_async\<close> take the handle, so its receiver is dropped at their end. The
  asynchronous form shows a panic's payload with the \<open>Debug\<close> output of \<open>Box<dyn Any>\<close>.\<close>

definition no_result_msg :: string where
  "no_result_msg = ''thread terminated without sending result: Disconnected''"

definition debug_any :: string where
  "debug_any = ''Any { .. }''"

definition join ::
  "'k cont_ops \<Rightarrow> platform \<Rightarrow> tid \<Rightarrow> ((string + 'a, 'k, 'w::len, 'z) channel_scheme, string + 'a) prog" where
  "join K P me =
     dropping
       (bind (recv_sync K P me) (\<lambda>r. case r of Inr result \<Rightarrow> Return result | Inl e \<Rightarrow> Panic no_result_msg))
       (receiver_drop K)"

definition join_async :: "'k cont_ops \<Rightarrow> ((string + 'a, 'k, 'w::len, 'z) channel_scheme, string + 'a) prog" where
  "join_async K =
     dropping
       (bind (recv_async K) (\<lambda>r. case r of
           Inr (Inr v) \<Rightarrow> Return (Inr v)
         | Inr (Inl payload) \<Rightarrow> Return (Inl debug_any)
         | Inl e \<Rightarrow> Panic no_result_msg))
       (receiver_drop K)"

subsection \<open>Joining\<close>

lemma ends_thread_main:
  assumes "ends hooks s (Return ()) s1" and "ends f s1 q s2" and "channel_ready 1 s2" and "inner s2 = []"
  shows "\<exists>s3. ends (thread_main K P me hooks f) s (Return ()) s3 \<and> channel_ready 0 s3 \<and>
    (case q of Return v \<Rightarrow> inner s3 = [Inr v] | Panic m \<Rightarrow> inner s3 = [Inl m] | _ \<Rightarrow> False)"
proof -
  have "\<not> running q" using assms(2) by (rule ends_stopped)
  then obtain r where r: "catch_unwind q = Return r"
    "case q of Return v \<Rightarrow> r = Inr v | Panic m \<Rightarrow> r = Inl m | _ \<Rightarrow> False"
    by (cases q rule: running_cases) auto
  obtain s3 where s3: "ends (send_by K (Syncing P me) r) s2 (Return (Inr ())) s3" "channel_ready 1 s3"
    "inner s3 = [r]" using channel_sends [OF assms(3), of K "Syncing P me" r] assms(4) by auto
  obtain s4 where s4: "ends (sender_drop K) s3 (Return ()) s4" "channel_ready 0 s4" "inner s4 = [r]"
    using last_sender_drop_ready [OF s3(2), of K] s3(3) by auto
  have "ends (bind (catch_unwind f) (\<lambda>result. ignore (send_sync K P me result))) s1 (Return ()) s3"
    by (rule ends_bind [OF ends_catch_unwind [OF assms(2), unfolded r(1)]])
      (use ends_ignore [OF s3(1)] in simp)
  then have "ends (thread_main K P me hooks f) s (Return ()) s4"
    unfolding thread_main_def by (rule ends_dropping [OF ends_bind [OF assms(1)] s4(1)])
  with s4 r(2) show ?thesis by (cases q) auto
qed

lemma ends_receiver_drop_ready:
  "channel_ready n s \<Longrightarrow> ends (receiver_drop K) s (Return ()) (notified_all K (s\<lparr>receiver_active := False\<rparr>))"
  by (intro ends_receiver_drop) (simp add: channel_ready_def channel_quiet_def)

lemma ends_join:
  assumes "channel_ready 0 s" and "inner s = [r]"
  shows "\<exists>s1. ends (join K P me) s (Return r) s1 \<and> \<not> receiver_active s1"
    and "\<exists>s1. ends (join_async K) s (Return (case r of Inr v \<Rightarrow> Inr v | Inl m \<Rightarrow> Inl debug_any)) s1 \<and>
      \<not> receiver_active s1"
proof -
  obtain s1 where s1: "ends (recv_by K (Syncing P me)) s (Return (Inr r)) s1" "channel_ready 0 s1"
    using channel_receives [OF assms] by blast
  have "ends (join K P me) s (Return r) (notified_all K (s1\<lparr>receiver_active := False\<rparr>))"
    unfolding join_def
    by (rule ends_dropping [OF ends_bind [OF s1(1) [simplified]] ends_receiver_drop_ready [OF s1(2)]]) (simp add: ends_Return)
  then show "\<exists>s1. ends (join K P me) s (Return r) s1 \<and> \<not> receiver_active s1" by force
  obtain s2 where s2: "ends (recv_by K Asynchronous) s (Return (Inr r)) s2" "channel_ready 0 s2"
    using channel_receives [OF assms] by blast
  have "ends (join_async K) s (Return (case r of Inr v \<Rightarrow> Inr v | Inl m \<Rightarrow> Inl debug_any))
      (notified_all K (s2\<lparr>receiver_active := False\<rparr>))"
    unfolding join_async_def
    by (rule ends_dropping [OF ends_bind [OF s2(1) [simplified]] ends_receiver_drop_ready [OF s2(2)]])
      (cases r; simp add: ends_Return)
  then show "\<exists>s1. ends (join_async K) s (Return (case r of Inr v \<Rightarrow> Inr v | Inl m \<Rightarrow> Inl debug_any)) s1 \<and>
      \<not> receiver_active s1" by force
qed

text \<open>C23: joining a thread that has run gives exactly what its closure did: the value it returned, or
  the panic as an error (the asynchronous form replaces the payload). The thread itself always
  ends normally, the channel is closed on both sides, and \<open>join\<close> does not panic.\<close>

theorem join_returns_what_the_thread_did:
  assumes "ends hooks s (Return ()) s1" and "ends f s1 q s2" and "channel_ready 1 s2" and "inner s2 = []"
    and "q = (case r of Inr v \<Rightarrow> Return v | Inl m \<Rightarrow> Panic m)"
  shows "\<exists>s3. ends (thread_main K P me hooks f) s (Return ()) s3 \<and>
    (\<exists>s4. ends (join K P' you) s3 (Return r) s4 \<and> sender_count s3 = 0 \<and> \<not> receiver_active s4) \<and>
    (\<exists>s4. ends (join_async K) s3 (Return (case r of Inr v \<Rightarrow> Inr v | Inl m \<Rightarrow> Inl debug_any)) s4 \<and>
      \<not> receiver_active s4)"
proof -
  obtain s3 where s3: "ends (thread_main K P me hooks f) s (Return ()) s3" "channel_ready 0 s3" "inner s3 = [r]"
    using ends_thread_main [OF assms(1-4), of K P me] assms(5) by (cases r) auto
  then show ?thesis
    using ends_join(1) [OF s3(2,3), of K P' you] ends_join(2) [OF s3(2,3), of K]
    by (auto simp: channel_ready_def)
qed

text \<open>The closure is guarded against panics but the spawn hooks are not. When a hook panics the
  thread ends by that panic without sending a result, and \<open>join\<close> and \<open>join_async\<close> panic in the
  caller, in the place where the code says that this cannot happen.\<close>

lemma panicking_hook_makes_join_panic:
  assumes "ends hooks s (Panic m) s1" and "channel_ready 1 s1" and "inner s1 = []"
  shows "\<exists>s2. ends (thread_main K P me hooks f) s (Panic m) s2 \<and>
    (\<exists>s3. ends (join K P' you) s2 (Panic no_result_msg) s3) \<and>
    (\<exists>s3. ends (join_async K) s2 (Panic no_result_msg) s3)"
proof -
  obtain s2 where s2: "ends (sender_drop K) s1 (Return ()) s2" "channel_ready 0 s2" "inner s2 = []"
    using last_sender_drop_ready [OF assms(2), of K] assms(3) by auto
  have "ends (thread_main K P me hooks f) s (Panic m) s2"
    unfolding thread_main_def by (rule ends_dropping [OF ends_bind_Panic [OF assms(1)] s2(1)])
  moreover obtain s3 where s3: "ends (recv_by K (Syncing P' you)) s2 (Return (Inl Disconnected)) s3"
    "channel_ready 0 s3" using recv_disconnected_ready [OF s2(2,3)] by blast
  then have "ends (join K P' you) s2 (Panic no_result_msg) (notified_all K (s3\<lparr>receiver_active := False\<rparr>))"
    unfolding join_def
    by (intro ends_dropping [OF ends_bind [OF s3(1) [simplified]] ends_receiver_drop_ready [OF s3(2)]])
      (simp add: ends_Panic)
  moreover obtain s4 where s4: "ends (recv_by K Asynchronous) s2 (Return (Inl Disconnected)) s4"
    "channel_ready 0 s4" using recv_disconnected_ready [OF s2(2,3)] by blast
  then have "ends (join_async K) s2 (Panic no_result_msg) (notified_all K (s4\<lparr>receiver_active := False\<rparr>))"
    unfolding join_async_def
    by (intro ends_dropping [OF ends_bind [OF s4(1) [simplified]] ends_receiver_drop_ready [OF s4(2)]])
      (simp add: ends_Panic)
  ultimately show ?thesis by blast
qed

text \<open>A thread whose handle was dropped still runs to its end: sending its result fails and the
  failure is ignored.\<close>

lemma detached_thread_completes:
  assumes "ends hooks s (Return ()) s1" and "ends f s1 q s2"
    and "\<not> receiver_active s2" and "sender_count s2 = 1" and "cv_quiet s2"
  shows "ends (thread_main K P me hooks f) s (Return ()) (notified_all K (s2\<lparr>sender_count := 0\<rparr>))"
proof -
  have "\<not> running q" using assms(2) by (rule ends_stopped)
  then obtain r where r: "catch_unwind q = Return r"
    by (cases q rule: running_cases) auto
  have "ends (send_by K (Syncing P me) r) s2 (Return (Inl (SendError r))) s2"
    by (rule ends_send_inactive [OF assms(3)])
  then have "ends (bind (catch_unwind f) (\<lambda>result. ignore (send_sync K P me result))) s1 (Return ()) s2"
    by (intro ends_bind [OF ends_catch_unwind [OF assms(2), unfolded r]]) (simp add: ends_ignore)
  then show ?thesis unfolding thread_main_def
    by (rule ends_dropping [OF ends_bind [OF assms(1)] ends_last_sender_drop [OF assms(5,4)]])
qed

subsection \<open>Concrete threads\<close>

lemma join_returns_what_the_thread_did_witness:
  "\<exists>s3. ends (thread_main set_conts Native 1 (Return ()) (Panic ''boom''))
      (channel_new fresh_runtime 0 :: (string + nat, _, 32) channel) (Return ()) s3 \<and>
    (\<exists>s4. ends (join set_conts Native 0) s3 (Return (Inl ''boom'')) s4) \<and>
    (\<exists>s4. ends (join_async set_conts) s3 (Return (Inl ''Any { .. }'')) s4)"
  using join_returns_what_the_thread_did [OF ends_Return ends_Panic channel_new_ready,
      where r = "Inl ''boom''" and K = set_conts and P = Native and me = 1 and P' = Native and you = 0]
  by (fastforce simp: debug_any_def)

lemma panicking_hook_makes_join_panic_witness:
  "\<exists>s2. ends (thread_main set_conts Native 1 (Panic ''hook'') (Return 5))
      (channel_new fresh_runtime 0 :: (string + nat, _, 32) channel) (Panic ''hook'') s2 \<and>
    (\<exists>s3. ends (join set_conts Native 0) s2 (Panic no_result_msg) s3)"
  using panicking_hook_makes_join_panic [OF ends_Panic channel_new_ready,
      where K = set_conts and P = Native and me = 1 and P' = Native and you = 0 and f = "Return 5"]
  by blast

lemma detached_thread_completes_witness:
  "\<exists>s2. ends (thread_main set_conts Native 1 (Return ()) (Return 5))
      (channel_new fresh_runtime 0\<lparr>receiver_active := False\<rparr> :: (string + nat, _, 32) channel) (Return ()) s2"
  by (rule exI, rule detached_thread_completes [OF ends_Return ends_Return])
    (simp_all add: channel_new_def condvar_new_def condvar.extend_def cv_quiet_def)

end
