(* ===== verification/Hooks.thy ===== *)
theory Hooks
  imports Mutex_Correct
begin

section \<open>Spawn hooks (\<open>src/hooks.rs\<close>)\<close>

text \<open>
  A mutex over a vector of named hooks. A hook's closure is user code: the vector holds an
  identifier of it, and what it does is a parameter, \<open>body\<close>, of the program that runs the hooks.
\<close>

type_synonym ('h, 'k, 'z) hooks_scheme = "((string \<times> 'h) list, 'k, 'z) mutex_scheme"

definition spawn_hooks :: "'k runtime \<Rightarrow> ((string \<times> 'h) list, 'k) mutex" where
  "spawn_hooks r = mutex_new r []"

text \<open>The bodies of the three operations on the vector.\<close>

definition put_hook :: "string \<Rightarrow> 'h \<Rightarrow> (string \<times> 'h) list \<Rightarrow> (string \<times> 'h) list" where
  "put_hook name hook hooks = (case position (\<lambda>e. fst e = name) hooks of
       Some pos \<Rightarrow> hooks[pos := (name, hook)]
     | None \<Rightarrow> hooks @ [(name, hook)])"

definition take_hook :: "string \<Rightarrow> (string \<times> 'h) list \<Rightarrow> (string \<times> 'h) list \<times> bool" where
  "take_hook name hooks = (case position (\<lambda>e. fst e = name) hooks of
       Some pos \<Rightarrow> (remove_at pos hooks, True)
     | None \<Rightarrow> (hooks, False))"

definition register_spawn_hook ::
  "'k cont_ops \<Rightarrow> platform \<Rightarrow> tid \<Rightarrow> string \<Rightarrow> 'h \<Rightarrow> (('h, 'k, 'z) hooks_scheme, unit) prog" where
  "register_spawn_hook K P t name hook =
     bind (lock_sync P t) (\<lambda>hooks. seq (guard_deref_mut (put_hook name hook)) (guard_drop K))"

definition remove_spawn_hook ::
  "'k cont_ops \<Rightarrow> platform \<Rightarrow> tid \<Rightarrow> string \<Rightarrow> (('h, 'k, 'z) hooks_scheme, bool) prog" where
  "remove_spawn_hook K P t name =
     bind (lock_sync P t) (\<lambda>hooks.
       bind guard_deref (\<lambda>v.
         seq (guard_write (fst (take_hook name v)))
           (seq (guard_drop K) (Return (snd (take_hook name v))))))"

definition clear_spawn_hooks ::
  "'k cont_ops \<Rightarrow> platform \<Rightarrow> tid \<Rightarrow> (('h, 'k, 'z) hooks_scheme, unit) prog" where
  "clear_spawn_hooks K P t = bind (lock_sync P t) (\<lambda>hooks. seq (guard_write []) (guard_drop K))"

text \<open>The hooks are cloned under the lock and called after it was released.\<close>

definition run_spawn_hooks ::
  "'k cont_ops \<Rightarrow> platform \<Rightarrow> tid \<Rightarrow> ('h \<Rightarrow> (('h, 'k, 'z) hooks_scheme, unit) prog) \<Rightarrow>
   (('h, 'k, 'z) hooks_scheme, unit) prog" where
  "run_spawn_hooks K P t body =
     bind (bind (lock_sync P t) (\<lambda>guard.
         bind guard_deref (\<lambda>v. seq (guard_drop K) (Return (map snd v)))))
       (\<lambda>hooks. for_each hooks body)"

subsection \<open>The vector as an ordered map\<close>

text \<open>What users rely on: a lookup by name that sees the last registration, and an order in which a
  name keeps its place until it is removed.\<close>

locale ordered_registry =
  fixes names :: "'r \<Rightarrow> 'n list" and lookup :: "'r \<Rightarrow> 'n \<Rightarrow> 'h option"
    and put :: "'n \<Rightarrow> 'h \<Rightarrow> 'r \<Rightarrow> 'r" and remove :: "'n \<Rightarrow> 'r \<Rightarrow> 'r" and none :: 'r
  assumes names_none: "names none = []"
    and lookup_none: "lookup none n = None"
    and names_put: "names (put n h r) = (if n \<in> set (names r) then names r else names r @ [n])"
    and lookup_put: "lookup (put n h r) = (lookup r)(n \<mapsto> h)"
    and names_remove: "distinct (names r) \<Longrightarrow> names (remove n r) = filter (\<lambda>m. m \<noteq> n) (names r)"
    and lookup_remove: "distinct (names r) \<Longrightarrow> lookup (remove n r) = (lookup r)(n := None)"
begin

lemma put_distinct: "distinct (names r) \<Longrightarrow> distinct (names (put n h r))"
  by (simp add: names_put)

lemma remove_distinct: "distinct (names r) \<Longrightarrow> distinct (names (remove n r))"
  by (simp add: names_remove)

lemma put_overwrites: "lookup (put n h (put n h' r)) = lookup (put n h r)"
  and put_keeps_order: "names (put n h (put n h' r)) = names (put n h' r)"
  by (simp_all add: lookup_put names_put)

lemma remove_after_put:
  assumes "distinct (names r)" and "n \<notin> set (names r)"
  shows "names (remove n (put n h r)) = names r"
proof -
  have "filter (\<lambda>m. m \<noteq> n) (names r) = names r" using assms(2) by (intro filter_True) auto
  with assms show ?thesis by (simp add: names_remove put_distinct) (simp add: names_put)
qed

end

lemma position_name:
  "position (\<lambda>e. fst e = n) xs = None \<longleftrightarrow> n \<notin> fst ` set xs"
  by (auto simp: position_None_iff)

lemma put_hook_simps [simp]:
  "put_hook n h [] = [(n, h)]"
  "put_hook n h ((m, g) # xs) = (if m = n then (n, h) # xs else (m, g) # put_hook n h xs)"
  by (auto simp: put_hook_def split: option.splits)

lemma take_hook_simps [simp]:
  "take_hook n [] = ([], False)"
  "take_hook n ((m, g) # xs) =
     (if m = n then (xs, True) else ((m, g) # fst (take_hook n xs), snd (take_hook n xs)))"
  by (auto simp: take_hook_def split: option.splits)

lemma put_hook_names:
  "map fst (put_hook n h xs) = (if n \<in> set (map fst xs) then map fst xs else map fst xs @ [n])"
  by (induction xs) (auto simp del: set_map)

lemma put_hook_lookup: "map_of (put_hook n h xs) = (map_of xs)(n \<mapsto> h)"
  by (induction xs) (auto simp: fun_eq_iff)

lemma take_hook_names:
  "distinct (map fst xs) \<Longrightarrow> map fst (fst (take_hook n xs)) = filter (\<lambda>m. m \<noteq> n) (map fst xs)"
proof (induction xs)
  case (Cons e xs)
  obtain m g where e: "e = (m, g)" by (cases e)
  have "filter (\<lambda>m. m \<noteq> n) (map fst xs) = map fst xs" if "m = n"
    using Cons.prems that e by (intro filter_True) auto
  with Cons e show ?case by simp
qed simp

lemma take_hook_lookup:
  "distinct (map fst xs) \<Longrightarrow> map_of (fst (take_hook n xs)) = (map_of xs)(n := None)"
proof (induction xs)
  case (Cons e xs)
  obtain m g where e: "e = (m, g)" by (cases e)
  have "map_of xs m = None" using Cons.prems e by (simp add: map_of_eq_None_iff)
  with Cons e show ?case by (auto simp: fun_eq_iff)
qed simp

lemma take_hook_filter:
  "distinct (map fst xs) \<Longrightarrow> fst (take_hook n xs) = filter (\<lambda>e. fst e \<noteq> n) xs"
  by (induction xs) (auto intro!: filter_True [symmetric] simp: rev_image_eqI)

lemma take_hook_result: "snd (take_hook n xs) \<longleftrightarrow> n \<in> set (map fst xs)"
  by (induction xs) auto

interpretation hooks: ordered_registry "map fst" map_of put_hook "\<lambda>n xs. fst (take_hook n xs)" "[]"
  by unfold_locales (simp_all add: put_hook_names put_hook_lookup take_hook_names take_hook_lookup
      del: put_hook_simps take_hook_simps)

subsection \<open>The calls\<close>

definition hooks_idle :: "('h, 'k, 'z) hooks_scheme \<Rightarrow> bool" where
  "hooks_idle s \<longleftrightarrow> \<not> data_lock s \<and> \<not> locked (waiting_sync_threads s) \<and> \<not> locked (waiting_async_threads s)"

definition updated ::
  "'k cont_ops \<Rightarrow> (string \<times> 'h) list \<Rightarrow> ('h, 'k, 'z) hooks_scheme \<Rightarrow> ('h, 'k, 'z) hooks_scheme" where
  "updated K v s = woken K (s\<lparr>inner := v, data_lock := False\<rparr>)"

lemma updated_simps [simp]:
  "hooks_idle (updated K v s)" "inner (updated K v s) = v"
  by (simp_all add: hooks_idle_def updated_def woken_def)

lemma ends_locked_update:
  assumes "hooks_idle s"
  shows "ends (seq (guard_write v) (guard_drop K)) (s\<lparr>data_lock := True\<rparr>) (Return ()) (updated K v s)"
proof -
  have "ends (guard_drop K) (s\<lparr>data_lock := True, inner := v\<rparr>) (Return ()) (updated K v s)"
    by (rule ends_state [OF ends_guard_drop]) (use assms in \<open>simp_all add: hooks_idle_def updated_def\<close>)
  moreover have "ends (guard_write v) (s\<lparr>data_lock := True\<rparr>) (Return ()) (s\<lparr>data_lock := True, inner := v\<rparr>)"
    by (rule ends_one) simp
  ultimately show ?thesis by (rule ends_bind [rotated])
qed

lemma ends_hooks_lock:
  assumes "hooks_idle s"
  shows "ends (lock_sync P t) s (Return Guard) (s\<lparr>data_lock := True\<rparr>)"
  using assms by (intro ends_lock_sync) (simp_all add: hooks_idle_def)

lemma ends_deref: "ends guard_deref s (Return (inner s)) s"
  by (rule ends_one) simp

lemma ends_register:
  assumes "hooks_idle s"
  shows "ends (register_spawn_hook K P t n h) s (Return ()) (updated K (put_hook n h (inner s)) s)"
  unfolding register_spawn_hook_def guard_deref_mut_def
proof (rule ends_bind [OF ends_hooks_lock [OF assms]])
  let ?s1 = "s\<lparr>data_lock := True\<rparr>"
  have "ends (bind guard_deref (\<lambda>v. guard_write (put_hook n h v))) ?s1 (Return ())
      (s\<lparr>data_lock := True, inner := put_hook n h (inner s)\<rparr>)"
    by (rule ends_bind [OF ends_deref]) (rule ends_one, simp)
  moreover have "ends (guard_drop K) (s\<lparr>data_lock := True, inner := put_hook n h (inner s)\<rparr>) (Return ())
      (updated K (put_hook n h (inner s)) s)"
    by (rule ends_state [OF ends_guard_drop]) (use assms in \<open>simp_all add: hooks_idle_def updated_def\<close>)
  ultimately show "ends (seq (bind guard_deref (\<lambda>v. guard_write (put_hook n h v))) (guard_drop K)) ?s1 (Return ())
      (updated K (put_hook n h (inner s)) s)" by (rule ends_bind)
qed

lemma ends_remove:
  assumes "hooks_idle s"
  shows "ends (remove_spawn_hook K P t n) s (Return (snd (take_hook n (inner s))))
    (updated K (fst (take_hook n (inner s))) s)"
  unfolding remove_spawn_hook_def
proof (rule ends_bind [OF ends_hooks_lock [OF assms]], rule ends_bind [OF ends_deref])
  let ?s1 = "s\<lparr>data_lock := True\<rparr>" and ?v = "fst (take_hook n (inner s))"
  have "ends (guard_write ?v) ?s1 (Return ()) (?s1\<lparr>inner := ?v\<rparr>)"
    by (rule ends_one) simp
  moreover have "ends (guard_drop K) (?s1\<lparr>inner := ?v\<rparr>) (Return ()) (updated K ?v s)"
    by (rule ends_state [OF ends_guard_drop]) (use assms in \<open>simp_all add: hooks_idle_def updated_def\<close>)
  ultimately show "ends (seq (guard_write (fst (take_hook n (inner ?s1)))) (seq (guard_drop K)
      (Return (snd (take_hook n (inner ?s1)))))) ?s1 (Return (snd (take_hook n (inner s)))) (updated K ?v s)"
    by (simp, intro ends_bind) (auto intro: ends_Return)
qed

lemma ends_clear:
  assumes "hooks_idle s"
  shows "ends (clear_spawn_hooks K P t) s (Return ()) (updated K [] s)"
  unfolding clear_spawn_hooks_def
  by (rule ends_bind [OF ends_hooks_lock [OF assms] ends_locked_update [OF assms]])

text \<open>A sequence of the public calls, and what it does to an order of names and a map.\<close>

datatype 'h hook_op = Register string 'h | Remove string | Clear

fun run_op :: "'k cont_ops \<Rightarrow> platform \<Rightarrow> tid \<Rightarrow> 'h hook_op \<Rightarrow> (('h, 'k, 'z) hooks_scheme, unit) prog" where
  "run_op K P t (Register n h) = register_spawn_hook K P t n h"
| "run_op K P t (Remove n) = bind (remove_spawn_hook K P t n) (\<lambda>_. Return ())"
| "run_op K P t Clear = clear_spawn_hooks K P t"

fun spec_op :: "'h hook_op \<Rightarrow> string list \<times> (string \<rightharpoonup> 'h) \<Rightarrow> string list \<times> (string \<rightharpoonup> 'h)" where
  "spec_op (Register n h) (ns, m) = (if n \<in> set ns then ns else ns @ [n], m(n \<mapsto> h))"
| "spec_op (Remove n) (ns, m) = (filter (\<lambda>k. k \<noteq> n) ns, m(n := None))"
| "spec_op Clear (ns, m) = ([], \<lambda>_. None)"

definition abs_hooks :: "(string \<times> 'h) list \<Rightarrow> string list \<times> (string \<rightharpoonup> 'h)" where
  "abs_hooks v = (map fst v, map_of v)"

lemma run_op_step:
  assumes "hooks_idle s" and "distinct (map fst (inner s))"
  shows "\<exists>s1. ends (run_op K P t p) s (Return ()) s1 \<and> hooks_idle s1 \<and> distinct (map fst (inner s1)) \<and>
    abs_hooks (inner s1) = spec_op p (abs_hooks (inner s))"
proof (cases p)
  case (Register n h)
  with ends_register [OF assms(1)] hooks.put_distinct [OF assms(2)] show ?thesis
    by (intro exI [of _ "updated K (put_hook n h (inner s)) s"])
      (simp add: abs_hooks_def hooks.names_put hooks.lookup_put)
next
  case (Remove n)
  have "ends (run_op K P t (Remove n)) s (Return ()) (updated K (fst (take_hook n (inner s))) s)"
    unfolding run_op.simps by (rule ends_bind [OF ends_remove [OF assms(1)] ends_Return])
  with Remove hooks.remove_distinct [OF assms(2)] assms(2) show ?thesis
    by (intro exI [of _ "updated K (fst (take_hook n (inner s))) s"])
      (simp add: abs_hooks_def hooks.names_remove hooks.lookup_remove)
next
  case Clear
  with ends_clear [OF assms(1)] show ?thesis
    by (intro exI [of _ "updated K [] s"]) (simp add: abs_hooks_def)
qed

lemma run_ops:
  assumes "hooks_idle s" and "distinct (map fst (inner s))"
  shows "\<exists>s1. ends (for_each ops (run_op K P t)) s (Return ()) s1 \<and> hooks_idle s1 \<and>
    distinct (map fst (inner s1)) \<and> abs_hooks (inner s1) = fold spec_op ops (abs_hooks (inner s))"
  using assms
proof (induction ops arbitrary: s)
  case (Cons p ops)
  from run_op_step [OF Cons.prems, of K P t p] obtain s1 where
    s1: "ends (run_op K P t p) s (Return ()) s1" "hooks_idle s1" "distinct (map fst (inner s1))"
      "abs_hooks (inner s1) = spec_op p (abs_hooks (inner s))" by blast
  from Cons.IH [OF s1(2,3)] show ?case using s1 by (auto intro: ends_bind)
qed (auto intro: ends_Return)

lemma spawn_hooks_idle: "hooks_idle (spawn_hooks r)" "inner (spawn_hooks r) = []"
  by (simp_all add: spawn_hooks_def mutex_new_def hooks_idle_def)

text \<open>C21: the registry refines an ordered map. Whatever registrations, removals and clearings are made,
  each call completes, names stay unique, a lookup by name gives the last closure registered under
  it, and the order is that of first registration: registering a name again keeps its place, and
  removing one keeps the order of the others.\<close>

theorem hooks_refine_ordered_map:
  "\<exists>s. ends (for_each ops (run_op K P t)) (spawn_hooks r) (Return ()) s \<and>
    distinct (map fst (inner s)) \<and> abs_hooks (inner s) = fold spec_op ops ([], \<lambda>_. None)"
  using run_ops [OF spawn_hooks_idle(1), of r ops K P t]
  by (auto simp: spawn_hooks_idle abs_hooks_def)

text \<open>\<open>remove_spawn_hook\<close> answers whether the name was registered, removes its one entry and
  nothing else, and changes nothing when it was not.\<close>

lemma remove_spawn_hook_result:
  assumes "hooks_idle s" and "distinct (map fst (inner s))"
  shows "ends (remove_spawn_hook K P t n) s (Return (n \<in> set (map fst (inner s))))
    (updated K (filter (\<lambda>e. fst e \<noteq> n) (inner s)) s)"
  using ends_remove [OF assms(1), of K P t n] take_hook_filter [OF assms(2)]
  by (simp add: take_hook_result)

subsection \<open>Running the hooks\<close>

lemma ends_clone_hooks:
  assumes "hooks_idle s"
  shows "ends (bind (lock_sync P t) (\<lambda>guard. bind guard_deref (\<lambda>v. seq (guard_drop K) (Return (map snd v))))) s
    (Return (map snd (inner s))) (updated K (inner s) s)"
proof (rule ends_bind [OF ends_hooks_lock [OF assms]], rule ends_bind [OF ends_deref])
  let ?s1 = "s\<lparr>data_lock := True\<rparr>"
  have "ends (guard_drop K) ?s1 (Return ()) (updated K (inner s) s)"
    by (rule ends_state [OF ends_guard_drop]) (use assms in \<open>simp_all add: hooks_idle_def updated_def\<close>)
  then show "ends (seq (guard_drop K) (Return (map snd (inner ?s1)))) ?s1 (Return (map snd (inner s)))
      (updated K (inner s) s)"
    by (rule ends_bind) (simp add: ends_Return)
qed

text \<open>Hooks that return or panic, each with its effect on the state: the ones up to and including the
  first that panics run.\<close>

fun run_until_panic ::
  "('h \<Rightarrow> 's \<Rightarrow> 's) \<Rightarrow> ('h \<Rightarrow> string option) \<Rightarrow> 'h list \<Rightarrow> 's \<Rightarrow> ('s, unit) prog \<times> 's" where
  "run_until_panic effect panics [] s = (Return (), s)"
| "run_until_panic effect panics (h # hs) s = (case panics h of
       Some m \<Rightarrow> (Panic m, effect h s)
     | None \<Rightarrow> run_until_panic effect panics hs (effect h s))"

lemma ends_until_panic:
  assumes "\<And>h s. h \<in> set hs \<Longrightarrow>
      ends (body h) s (case panics h of None \<Rightarrow> Return () | Some m \<Rightarrow> Panic m) (effect h s)"
  shows "ends (for_each hs body) s (fst (run_until_panic effect panics hs s)) (snd (run_until_panic effect panics hs s))"
  using assms
proof (induction hs arbitrary: s)
  case (Cons h hs)
  then have h: "ends (body h) s (case panics h of None \<Rightarrow> Return () | Some m \<Rightarrow> Panic m) (effect h s)" by simp
  show ?case
  proof (cases "panics h")
    case None
    with h Cons show ?thesis by (auto intro: ends_bind)
  next
    case (Some m)
    with h show ?thesis by (auto intro: ends_bind_Panic)
  qed
qed (simp add: ends_Return)

text \<open>C22: starting a thread runs the registered hooks, each once, in the order of registration, each
  on the state the previous one left. The registry's lock is free while they run, so a hook may
  itself register or remove hooks. A hook that panics stops the ones after it and the panic goes on.\<close>

theorem run_spawn_hooks_in_order:
  assumes "hooks_idle s" and "map snd (inner s) = hs"
    and "\<And>h s. h \<in> set hs \<Longrightarrow>
      ends (body h) s (case panics h of None \<Rightarrow> Return () | Some m \<Rightarrow> Panic m) (effect h s)"
  shows "ends (run_spawn_hooks K P t body) s
      (fst (run_until_panic effect panics hs (updated K (inner s) s)))
      (snd (run_until_panic effect panics hs (updated K (inner s) s))) \<and>
    hooks_idle (updated K (inner s) s) \<and> inner (updated K (inner s) s) = inner s"
proof -
  have "ends (for_each hs body) (updated K (inner s) s)
      (fst (run_until_panic effect panics hs (updated K (inner s) s)))
      (snd (run_until_panic effect panics hs (updated K (inner s) s)))"
    by (rule ends_until_panic) (rule assms(3))
  then show ?thesis unfolding run_spawn_hooks_def
    by (simp, intro ends_bind [OF ends_clone_hooks [OF assms(1)]]) (simp add: assms(2))
qed

subsection \<open>Concrete hooks\<close>

lemma remove_spawn_hook_result_witness:
  "\<exists>s1. ends (remove_spawn_hook set_conts Native 0 ''log'')
     (spawn_hooks fresh_runtime\<lparr>inner := [(''trace'', 1), (''log'', 2 :: nat)]\<rparr>) (Return True) s1 \<and>
     inner s1 = [(''trace'', 1)]"
  using remove_spawn_hook_result [of "spawn_hooks fresh_runtime\<lparr>inner := [(''trace'', 1), (''log'', 2 :: nat)]\<rparr>"
      set_conts Native 0 "''log''"]
  by (force simp: spawn_hooks_def mutex_new_def hooks_idle_def)

text \<open>Hook 0 counts itself on the clock, hook 1 panics, hook 2 is not reached.\<close>

definition tick_or_panic :: "nat \<Rightarrow> ((string \<times> nat) list, nat \<times> nat set) mutex \<Rightarrow> ((string \<times> nat) list, nat \<times> nat set) mutex" where
  "tick_or_panic h s = s\<lparr>clock := clock s + 1\<rparr>"

definition tick_hook :: "nat \<Rightarrow> (((string \<times> nat) list, nat \<times> nat set) mutex, unit) prog" where
  "tick_hook h = bind (atomic (\<lambda>s. (tick_or_panic h s, ()))) (\<lambda>_. if h = 1 then Panic ''boom'' else Return ())"

lemma run_spawn_hooks_in_order_witness:
  "\<exists>s1. ends (run_spawn_hooks set_conts Native 0 tick_hook)
     (spawn_hooks fresh_runtime\<lparr>inner := [(''a'', 0), (''b'', 1), (''c'', 2)]\<rparr>) (Panic ''boom'') s1 \<and> clock s1 = 2"
proof -
  let ?s = "spawn_hooks fresh_runtime\<lparr>inner := [(''a'', 0), (''b'', 1), (''c'', 2 :: nat)]\<rparr>"
  have "ends (tick_hook h) s (case if h = 1 then Some ''boom'' else None of None \<Rightarrow> Return () | Some m \<Rightarrow> Panic m)
      (tick_or_panic h s)" for h s
    unfolding tick_hook_def by (rule ends_bind [OF ends_one [OF atomic_simps(2)]]) (simp add: ends_Return ends_Panic)
  then have "ends (run_spawn_hooks set_conts Native 0 tick_hook) ?s
      (fst (run_until_panic tick_or_panic (\<lambda>h. if h = 1 then Some ''boom'' else None) [0, 1, 2] (updated set_conts (inner ?s) ?s)))
      (snd (run_until_panic tick_or_panic (\<lambda>h. if h = 1 then Some ''boom'' else None) [0, 1, 2] (updated set_conts (inner ?s) ?s)))"
    by (intro conjunct1 [OF run_spawn_hooks_in_order])
      (simp_all add: spawn_hooks_def mutex_new_def hooks_idle_def)
  then show ?thesis
    by (force simp: spawn_hooks_def mutex_new_def hooks_idle_def updated_def woken_def tick_or_panic_def)
qed

end
