(* ===== verification/Lock_Discipline.thy ===== *)
theory Lock_Discipline
  imports Condvar
begin

section \<open>Programs that keep to the lock discipline\<close>

text \<open>
  A way to reason about one thread at a time when any number of them share a mutex. A program
  \<^emph>\<open>obeys\<close> the discipline if every access it makes is of one of four kinds: it leaves the lock and
  the data alone, it takes the free lock, it changes the data while it holds the lock, or it
  releases the lock. \<open>h\<close> is what the thread knows: \<open>None\<close> outside, \<open>Some v\<close> while it holds the
  lock and the data is \<open>v\<close>. \<open>es\<close> is the trace of its changes of the data, each an old and a new
  value; \<open>ok\<close> says which traces it may have, and \<open>Q\<close> relates its result to both. The rules follow
  the structure of programs, so that no control points are listed.
\<close>

type_synonym 'd edits = "('d \<times> 'd) list"

fun sees :: "'d option \<Rightarrow> ('d, 'k, 'z) mutex_scheme \<Rightarrow> bool" where
  "sees None s = True"
| "sees (Some v) s = (data_lock s \<and> inner s = v)"

fun moves ::
  "('d edits \<Rightarrow> bool) \<Rightarrow> 'd option \<Rightarrow> 'd edits \<Rightarrow> ('d, 'k, 'z) mutex_scheme \<Rightarrow>
   'd option \<Rightarrow> 'd edits \<Rightarrow> ('d, 'k, 'z) mutex_scheme \<Rightarrow> bool" where
  "moves ok None es s None es' s' = (data_lock s' = data_lock s \<and> inner s' = inner s \<and> es' = es)"
| "moves ok None es s (Some v) es' s' = (\<not> data_lock s \<and> data_lock s' \<and> inner s = v \<and> inner s' = v \<and> es' = es)"
| "moves ok (Some v) es s (Some v') es' s' =
     (data_lock s' \<and> inner s' = v' \<and> (es' = es \<and> v' = v \<or> es' = es @ [(v, v')] \<and> ok es'))"
| "moves ok (Some v) es s None es' s' = (\<not> data_lock s' \<and> inner s' = v \<and> es' = es)"

coinductive obeys ::
  "('d edits \<Rightarrow> bool) \<Rightarrow> ('r \<Rightarrow> 'd option \<Rightarrow> 'd edits \<Rightarrow> bool) \<Rightarrow> 'd option \<Rightarrow> 'd edits \<Rightarrow>
   (('d, 'k, 'z) mutex_scheme, 'r) prog \<Rightarrow> bool" for ok Q where
  obeys_Return: "Q x h es \<Longrightarrow> obeys ok Q h es (Return x)"
| obeys_Panic: "obeys ok Q h es (Panic m)"
| obeys_Act: "\<forall>s s' p. sees h s \<longrightarrow> f s = Some (s', p) \<longrightarrow>
    (\<exists>h' es'. moves ok h es s h' es' s' \<and> obeys ok Q h' es' p) \<Longrightarrow> obeys ok Q h es (Act f)"

inductive_cases obeys_ReturnE: "obeys ok Q h es (Return x)"
inductive_cases obeys_ActE: "obeys ok Q h es (Act f)"

lemma obeys_step:
  assumes "obeys ok Q h es p" and "sees h s" and "resume p s = Some (s', p')"
  obtains h' es' where "moves ok h es s h' es' s'" and "obeys ok Q h' es' p'"
proof -
  have "\<exists>h' es'. moves ok h es s h' es' s' \<and> obeys ok Q h' es' p'"
    using assms(1)
  proof (cases rule: obeys.cases)
    case (obeys_Act f)
    with assms(2,3) show ?thesis by simp
  qed (use assms(3) in simp_all)
  then show thesis using that by blast
qed

lemma obeysI:
  assumes "running p"
    and "\<And>s s' q. sees h s \<Longrightarrow> resume p s = Some (s', q) \<Longrightarrow> \<exists>h' es'. moves ok h es s h' es' s' \<and> obeys ok Q h' es' q"
  shows "obeys ok Q h es p"
  using assms by (cases p) (auto intro: obeys_Act)

lemma obeys_coinduct:
  assumes start: "X h es p"
    and X: "\<And>h es p. X h es p \<Longrightarrow> obeys ok Q h es p \<or> (\<exists>x. p = Return x \<and> Q x h es) \<or> (\<exists>m. p = Panic m) \<or>
      running p \<and> (\<forall>s s' q. sees h s \<longrightarrow> resume p s = Some (s', q) \<longrightarrow>
        (\<exists>h' es'. moves ok h es s h' es' s' \<and> X h' es' q))"
  shows "obeys ok Q h es p"
proof -
  have known: "(\<exists>x. p = Return x \<and> Q x h es) \<or> (\<exists>m. p = Panic m) \<or>
      (\<exists>f. p = Act f \<and> (\<forall>s s' q. sees h s \<longrightarrow> f s = Some (s', q) \<longrightarrow>
         (\<exists>h' es'. moves ok h es s h' es' s' \<and> (X h' es' q \<or> obeys ok Q h' es' q))))"
    if "obeys ok Q h es p" for h es p
    using that by (cases rule: obeys.cases) blast+
  have "X h es p \<or> obeys ok Q h es p" using start by simp
  then show ?thesis
  proof (coinduction arbitrary: h es p rule: obeys.coinduct)
    case (obeys h es p)
    then have "(\<exists>x. p = Return x \<and> Q x h es) \<or> (\<exists>m. p = Panic m) \<or>
      (\<exists>f. p = Act f \<and> (\<forall>s s' q. sees h s \<longrightarrow> f s = Some (s', q) \<longrightarrow>
         (\<exists>h' es'. moves ok h es s h' es' s' \<and> (X h' es' q \<or> obeys ok Q h' es' q))))"
      (is "?shape")
    proof
      assume "X h es p"
      from X [OF this] show ?shape
      proof (elim disjE)
        assume r: "running p \<and> (\<forall>s s' q. sees h s \<longrightarrow> resume p s = Some (s', q) \<longrightarrow>
          (\<exists>h' es'. moves ok h es s h' es' s' \<and> X h' es' q))"
        then obtain f where "p = Act f" by (cases p) auto
        with r show ?shape by (simp only: resume_basic) blast
      qed (use known in blast)+
    qed (rule known)
    then show ?case by (elim disjE exE conjE) simp_all
  qed
qed

lemma moves_refl: "sees h s \<Longrightarrow> moves ok h es s h es s"
  by (cases h) auto

lemma obeys_bind:
  assumes "obeys ok Q h es p" and "\<And>x h es. Q x h es \<Longrightarrow> obeys ok R h es (k x)"
  shows "obeys ok R h es (bind p k)"
proof (rule obeys_coinduct [where X = "\<lambda>h es r. \<exists>p. r = bind p k \<and> obeys ok Q h es p"])
  show "\<exists>q. bind p k = bind q k \<and> obeys ok Q h es q" using assms(1) by blast
next
  fix h es r
  assume "\<exists>p. r = bind p k \<and> obeys ok Q h es p"
  then obtain p where r: "r = bind p k" and p: "obeys ok Q h es p" by blast
  show "obeys ok R h es r \<or> (\<exists>x. r = Return x \<and> R x h es) \<or> (\<exists>m. r = Panic m) \<or>
      running r \<and> (\<forall>s s' q. sees h s \<longrightarrow> resume r s = Some (s', q) \<longrightarrow>
        (\<exists>h' es'. moves ok h es s h' es' s' \<and> (\<exists>p. q = bind p k \<and> obeys ok Q h' es' p)))"
  proof (cases p rule: running_cases)
    case Running
    then have "\<exists>h' es'. moves ok h es s h' es' s' \<and> (\<exists>p. q = bind p k \<and> obeys ok Q h' es' p)"
      if "sees h s" "resume r s = Some (s', q)" for s s' q
      using that r by (auto elim!: obeys_step [OF p])
    with Running r show ?thesis by auto
  next
    case (Return x)
    with p r assms(2) show ?thesis by (auto elim: obeys_ReturnE)
  qed (simp add: r)
qed

lemma obeys_mono: "obeys ok Q h es p \<Longrightarrow> (\<And>x h es. Q x h es \<Longrightarrow> R x h es) \<Longrightarrow> obeys ok R h es p"
  using obeys_bind [of ok Q h es p R Return] by (auto intro: obeys_Return)

text \<open>A loop whose body keeps an invariant whenever it continues.\<close>

definition loop_post ::
  "('d option \<Rightarrow> 'd edits \<Rightarrow> bool) \<Rightarrow> ('r \<Rightarrow> 'd option \<Rightarrow> 'd edits \<Rightarrow> bool) \<Rightarrow>
   'r option \<Rightarrow> 'd option \<Rightarrow> 'd edits \<Rightarrow> bool" where
  "loop_post I Q r h es = (case r of None \<Rightarrow> I h es | Some x \<Rightarrow> Q x h es)"

lemma loop_post_simps [simp]:
  "loop_post I Q None h es = I h es" "loop_post I Q (Some x) h es = Q x h es"
  by (simp_all add: loop_post_def)

lemma obeys_loop:
  assumes "I h es" and body: "\<And>h es. I h es \<Longrightarrow> obeys ok (loop_post I Q) h es b"
  shows "obeys ok Q h es (loop b)"
proof (rule obeys_coinduct [where X = "\<lambda>h es r. \<exists>p. r = loop_from b p \<and> obeys ok (loop_post I Q) h es p"])
  show "\<exists>p. loop b = loop_from b p \<and> obeys ok (loop_post I Q) h es p"
    using body [OF assms(1)] by (intro exI [of _ b]) simp
next
  fix h es r
  assume "\<exists>p. r = loop_from b p \<and> obeys ok (loop_post I Q) h es p"
  then obtain p where r: "r = loop_from b p" and p: "obeys ok (loop_post I Q) h es p" by blast
  let ?next = "\<lambda>s s' q. \<exists>h' es'. moves ok h es s h' es' s' \<and> (\<exists>p. q = loop_from b p \<and> obeys ok (loop_post I Q) h' es' p)"
  show "obeys ok Q h es r \<or> (\<exists>x. r = Return x \<and> Q x h es) \<or> (\<exists>m. r = Panic m) \<or>
      running r \<and> (\<forall>s s' q. sees h s \<longrightarrow> resume r s = Some (s', q) \<longrightarrow> ?next s s' q)"
  proof (cases p rule: running_cases)
    case Running
    then have "?next s s' q" if "sees h s" "resume r s = Some (s', q)" for s s' q
      using that r by (auto elim!: obeys_step [OF p])
    with Running r show ?thesis by auto
  next
    case (Return x)
    show ?thesis
    proof (cases x)
      case None
      with p Return have "I h es" by (auto elim: obeys_ReturnE)
      then have "?next s s (loop b)" if "sees h s" for s
        using that body moves_refl by (intro exI [of _ h] exI [of _ es] conjI exI [of _ b]) auto
      with r Return None show ?thesis by auto
    next
      case (Some y)
      with p r Return show ?thesis by (auto elim: obeys_ReturnE)
    qed
  qed (simp add: r)
qed

subsection \<open>Programs that touch neither the lock nor the data\<close>

definition quiet :: "(('d, 'k, 'z) mutex_scheme, 'r) prog \<Rightarrow> bool" where
  "quiet p \<longleftrightarrow> (\<forall>ok h es. obeys ok (\<lambda>_ h' es'. h' = h \<and> es' = es) h es p)"

lemma obeys_after_quiet:
  "quiet p \<Longrightarrow> (\<And>x. obeys ok Q h es (k x)) \<Longrightarrow> obeys ok Q h es (bind p k)"
  unfolding quiet_def by (rule obeys_bind [of _ "\<lambda>_ h' es'. h' = h \<and> es' = es"]) auto

lemma obeys_quiet: "quiet p \<Longrightarrow> (\<And>x. Q x h es) \<Longrightarrow> obeys ok Q h es p"
  unfolding quiet_def by (rule obeys_mono [of _ "\<lambda>_ h' es'. h' = h \<and> es' = es"]) auto

lemma quiet_Return [simp]: "quiet (Return x)"
  by (simp add: quiet_def obeys_Return)

lemma quiet_Panic [simp]: "quiet (Panic m)"
  by (simp add: quiet_def obeys_Panic)

lemma quiet_bind: "quiet p \<Longrightarrow> (\<And>x. quiet (k x)) \<Longrightarrow> quiet (bind p k)"
  unfolding quiet_def [of "bind p k"] by (auto intro!: obeys_after_quiet simp: quiet_def [of "k x" for x])

lemma quiet_for_each: "(\<And>x. quiet (f x)) \<Longrightarrow> quiet (for_each xs f)"
  by (induction xs) (auto intro: quiet_bind)

lemma quiet_loop: "quiet b \<Longrightarrow> quiet (loop b)"
  unfolding quiet_def [of "loop b"]
  by (intro allI obeys_loop [where I = "\<lambda>h' es'. h' = h \<and> es' = es" for h es] obeys_quiet)
    (auto simp: loop_post_def split: option.split)

lemma quiet_step:
  assumes "running p"
    and "\<And>s s' q. resume p s = Some (s', q) \<Longrightarrow> data_lock s' = data_lock s \<and> inner s' = inner s \<and> quiet q"
  shows "quiet p"
  unfolding quiet_def
proof (intro allI obeysI)
  fix ok h es s s' q
  assume "sees h s" "resume p s = Some (s', q)"
  with assms(2) [OF this(2)] show "\<exists>h' es'. moves ok h es s h' es' s' \<and> obeys ok (\<lambda>_ h' es'. h' = h \<and> es' = es) h' es' q"
    by (intro exI [of _ h] exI [of _ es]) (cases h; simp add: quiet_def)
qed (rule assms(1))

named_theorems quiet_intros

lemmas quiet_rules [quiet_intros] = quiet_Return quiet_Panic quiet_bind quiet_for_each quiet_loop

lemma quiet_platform [quiet_intros]:
  "quiet now" "quiet (park P t)" "quiet (park_until P t w)" "quiet (unpark t)" "quiet (continuation K)"
  "quiet (send_cont K c)" "quiet (await_cont K c)" "quiet (spawn_timer d c)" "quiet (race K c c')"
  by (rule quiet_step; auto simp: take_token_def set_token_def spawn_timer_def race_def split: if_splits)+

lemma quiet_park_timeout [quiet_intros]: "quiet (park_timeout P t d)"
  unfolding park_timeout_def by (intro quiet_intros)

lemma quiet_if [quiet_intros]: "quiet p \<Longrightarrow> quiet q \<Longrightarrow> quiet (if b then p else q)"
  by simp

lemma quiet_option [quiet_intros]:
  "quiet p \<Longrightarrow> (\<And>x. quiet (f x)) \<Longrightarrow> quiet (case r of None \<Rightarrow> p | Some x \<Rightarrow> f x)"
  by (cases r) auto

subsection \<open>The waiting lists\<close>

text \<open>A spinlock beside the data: its own state is another field.\<close>

locale side_place =
  fixes L :: "(('d, 'k, 'z) mutex_scheme, 'x spinlock) place"
  assumes poke_lock: "data_lock (poke L f s) = data_lock s"
    and poke_inner: "inner (poke L f s) = inner s"
begin

lemma set_keeps:
  "data_lock (set_locked L b s) = data_lock s" "inner (set_locked L b s) = inner s"
  "data_lock (set_data L d s) = data_lock s" "inner (set_data L d s) = inner s"
  by (simp_all add: set_locked_def set_data_def poke_lock poke_inner)

lemma quiet_access: "quiet (access L g)"
  by (rule quiet_step) (auto simp: set_keeps)

lemma quiet_store: "quiet (store_unlocked L)"
  by (rule quiet_step) (auto simp: store_unlocked_def set_keeps)

lemma quiet_acquire: "quiet (spin_acquire L)"
  unfolding spin_acquire_def spin_body_def swap_locked_def
  by (intro quiet_loop quiet_bind quiet_if quiet_Return quiet_step) (auto simp: set_keeps)

lemma obeys_with_mut:
  assumes "obeys ok Q h es f"
  shows "obeys ok Q h es (with_mut L f)"
  unfolding with_mut_def
  by (rule obeys_after_quiet [OF quiet_acquire], rule obeys_bind [OF assms],
      rule obeys_after_quiet [OF quiet_store], rule obeys_Return)

lemma quiet_with_mut: "quiet f \<Longrightarrow> quiet (with_mut L f)"
  unfolding quiet_def by (blast intro: obeys_with_mut)

end

interpretation sync_side: side_place sync_list by unfold_locales simp_all
interpretation async_side: side_place async_list by unfold_locales simp_all
interpretation cv_sync_side: side_place cv_sync by unfold_locales simp_all
interpretation cv_async_side: side_place cv_async by unfold_locales simp_all
interpretation cv_spin_side: side_place cv_spin by unfold_locales simp_all

lemmas quiet_lists [quiet_intros] =
  sync_side.quiet_with_mut async_side.quiet_with_mut cv_sync_side.quiet_with_mut
  cv_async_side.quiet_with_mut cv_spin_side.quiet_with_mut
  sync_side.quiet_access async_side.quiet_access cv_sync_side.quiet_access
  cv_async_side.quiet_access cv_spin_side.quiet_access

subsection \<open>The mutex\<close>

text \<open>What taking the lock leaves: the lock if and only if the call says so, and no change.\<close>

definition taken :: "('r \<Rightarrow> bool) \<Rightarrow> 'd edits \<Rightarrow> 'r \<Rightarrow> 'd option \<Rightarrow> 'd edits \<Rightarrow> bool" where
  "taken got es r h es' \<longleftrightarrow> (h \<noteq> None \<longleftrightarrow> got r) \<and> es' = es"

definition released :: "'d edits \<Rightarrow> 'r \<Rightarrow> 'd option \<Rightarrow> 'd edits \<Rightarrow> bool" where
  "released es r h es' \<longleftrightarrow> h = None \<and> es' = es"

fun is_Inr :: "'a + 'b \<Rightarrow> bool" where
  "is_Inr (Inl _) = False" | "is_Inr (Inr _) = True"

lemma obeys_outside:
  assumes "running p"
    and "\<And>s s' q. resume p s = Some (s', q) \<Longrightarrow> inner s' = inner s \<and>
      (data_lock s' = data_lock s \<and> obeys ok Q None es q \<or>
       \<not> data_lock s \<and> data_lock s' \<and> obeys ok Q (Some (inner s)) es q)"
  shows "obeys ok Q None es p"
proof (rule obeysI)
  fix s s' q
  assume "resume p s = Some (s', q)"
  from assms(2) [OF this] show "\<exists>h' es'. moves ok None es s h' es' s' \<and> obeys ok Q h' es' q"
    by (metis moves.simps(1,2))
qed (rule assms(1))

lemma obeys_try_lock: "obeys ok (taken is_Inr es) None es try_lock"
  by (rule obeys_outside) (auto simp: try_lock_def taken_def intro!: obeys_Return split: if_splits)

lemma obeys_swap_data_lock: "obeys ok (taken (\<lambda>old. \<not> old) es) None es swap_data_lock"
  by (rule obeys_outside) (auto simp: swap_data_lock_def taken_def intro!: obeys_Return)

text \<open>The loops of the acquiring calls: outside while they go on.\<close>

lemma obeys_lock_loop:
  assumes "obeys ok (loop_post (\<lambda>h es'. h = None \<and> es' = es) (taken got es)) None es b"
  shows "obeys ok (taken got es) None es (loop b)"
  by (rule obeys_loop [where I = "\<lambda>h es'. h = None \<and> es' = es"]) (use assms in auto)

lemma obeys_after_taken:
  assumes "obeys ok (taken got es) None es p"
    and "\<And>x v. got x \<Longrightarrow> obeys ok Q (Some v) es (k x)" and "\<And>x. \<not> got x \<Longrightarrow> obeys ok Q None es (k x)"
  shows "obeys ok Q None es (bind p k)"
proof (rule obeys_bind [OF assms(1)])
  fix x h es'
  assume "taken got es x h es'"
  then show "obeys ok Q h es' (k x)"
    using assms(2,3) by (cases h) (auto simp: taken_def)
qed

abbreviation going_on :: "'d edits \<Rightarrow> ('r \<Rightarrow> bool) \<Rightarrow> 'r option \<Rightarrow> 'd option \<Rightarrow> 'd edits \<Rightarrow> bool" where
  "going_on es got \<equiv> loop_post (\<lambda>h es'. h = None \<and> es' = es) (taken got es)"

lemma obeys_continue [simp]: "obeys ok (going_on es got) None es continue"
  by (rule obeys_Return) simp

lemma obeys_break:
  "got x \<Longrightarrow> obeys ok (going_on es got) (Some v) es (break x)"
  "\<not> got x \<Longrightarrow> obeys ok (going_on es got) None es (break x)"
  by (rule obeys_Return, simp add: taken_def)+

lemma obeys_wait_then: "quiet p \<Longrightarrow> obeys ok (going_on es got) None es (seq p continue)"
  by (rule obeys_after_quiet) simp_all

text \<open>One attempt under the spinlock of a waiting list: the lock, or an entry in the list.\<close>

lemma obeys_block_attempt: "obeys ok (taken is_Inr es) None es (block_attempt t)"
  unfolding block_attempt_def
  by (rule obeys_after_taken [OF obeys_try_lock])
    (auto simp: taken_def push_def split: sum.split intro!: obeys_after_quiet sync_side.quiet_access obeys_Return)

lemma obeys_async_attempt: "obeys ok (taken is_Inr es) None es (async_attempt K)"
  unfolding async_attempt_def
  by (rule obeys_after_taken [OF obeys_try_lock])
    (auto simp: taken_def push_def split: sum.split
      intro!: obeys_after_quiet quiet_platform async_side.quiet_access obeys_Return)

lemma obeys_last_try: "obeys ok (going_on es (\<lambda>g. g \<noteq> None)) None es last_try"
  unfolding last_try_def
  by (rule obeys_after_taken [OF obeys_try_lock]) (auto split: sum.splits intro!: obeys_break)

lemma obeys_lock_spin: "obeys ok (taken (\<lambda>_. True) es) None es lock_spin"
  unfolding lock_spin_def lock_spin_body_def
  by (rule obeys_lock_loop, rule obeys_after_taken [OF obeys_swap_data_lock]) (auto intro: obeys_break)

lemma obeys_lock_spin_timeout: "obeys ok (taken (\<lambda>g. g \<noteq> None) es) None es (lock_spin_timeout d)"
  unfolding lock_spin_timeout_def lock_spin_timeout_body_def
  by (rule obeys_lock_loop, rule obeys_after_taken [OF obeys_swap_data_lock])
    (auto intro!: obeys_break obeys_after_quiet quiet_platform)

lemma obeys_lock_block: "obeys ok (taken (\<lambda>_. True) es) None es (lock_block P t)"
  unfolding lock_block_def lock_block_body_def
  by (rule obeys_lock_loop, rule obeys_after_taken [OF sync_side.obeys_with_mut [OF obeys_block_attempt]])
    (auto simp: lock_block_after_def split: sum.splits intro!: obeys_break obeys_wait_then quiet_platform)

lemma obeys_lock_block_timeout: "obeys ok (taken (\<lambda>g. g \<noteq> None) es) None es (lock_block_timeout P t d)"
  unfolding lock_block_timeout_def lock_block_timeout_body_def
  by (rule obeys_lock_loop, rule obeys_after_quiet [OF quiet_platform(1)])
    (auto simp: lock_block_timeout_after_def simp del: not_None_eq split: sum.splits
      intro!: obeys_last_try obeys_break obeys_wait_then quiet_bind quiet_platform quiet_park_timeout
        obeys_after_taken [OF sync_side.obeys_with_mut [OF obeys_block_attempt]])

lemma obeys_lock_async: "obeys ok (taken (\<lambda>_. True) es) None es (lock_async K)"
  unfolding lock_async_def lock_async_body_def
  by (rule obeys_lock_loop, rule obeys_after_taken [OF async_side.obeys_with_mut [OF obeys_async_attempt]])
    (auto simp: lock_async_after_def split: sum.splits intro!: obeys_break obeys_wait_then quiet_platform)

lemma obeys_lock_async_timeout: "obeys ok (taken (\<lambda>g. g \<noteq> None) es) None es (lock_async_timeout K d)"
  unfolding lock_async_timeout_def lock_async_timeout_body_def
  by (rule obeys_lock_loop, rule obeys_after_quiet [OF quiet_platform(1)])
    (auto simp: lock_async_timeout_after_def simp del: not_None_eq split: sum.splits
      intro!: obeys_last_try obeys_break obeys_after_quiet quiet_platform
        obeys_after_taken [OF async_side.obeys_with_mut [OF obeys_async_attempt]])

lemma obeys_lock_sync: "obeys ok (taken (\<lambda>_. True) es) None es (lock_sync P t)"
  by (simp add: lock_sync_def obeys_lock_block obeys_lock_spin)

lemma obeys_lock_sync_timeout: "obeys ok (taken (\<lambda>g. g \<noteq> None) es) None es (lock_sync_timeout P t d)"
  by (simp add: lock_sync_timeout_def obeys_lock_block_timeout obeys_lock_spin_timeout del: not_None_eq)

lemma obeys_guard_drop: "obeys ok (released es) (Some v) es (guard_drop K)"
proof -
  have drop: "obeys ok (released es) (Some v) es store_data_unlocked"
    by (rule obeysI) (auto simp: store_data_unlocked_def released_def intro!: exI [of _ None] obeys_Return)
  have "quiet (did_unlock K)"
    unfolding did_unlock_def wake_sync_then_async_def wake_async_def mem_take_def by (intro quiet_intros)
  then show ?thesis unfolding guard_drop_def
    by (intro obeys_bind [OF drop] obeys_quiet) (auto simp: released_def)
qed

lemma obeys_guard_deref: "obeys ok (\<lambda>x h es'. x = v \<and> h = Some v \<and> es' = es) (Some v) es guard_deref"
  by (rule obeysI) (auto simp: guard_deref_def intro!: exI [of _ "Some v"] obeys_Return)

lemma obeys_guard_write:
  "ok (es @ [(v, v')]) \<Longrightarrow> obeys ok (\<lambda>_ h es'. h = Some v' \<and> es' = es @ [(v, v')]) (Some v) es (guard_write v')"
  by (rule obeysI) (auto simp: guard_write_def intro!: exI [of _ "Some v'"] obeys_Return)

subsection \<open>Waiting on the condition variable\<close>

text \<open>Every wait gives the lock back and ends with it, and changes nothing.\<close>

definition holds_again :: "'d edits \<Rightarrow> 'r \<Rightarrow> 'd option \<Rightarrow> 'd edits \<Rightarrow> bool" where
  "holds_again es r h es' \<longleftrightarrow> h \<noteq> None \<and> es' = es"

lemma obeys_relock:
  assumes "\<And>x. obeys ok Q None es (k x)"
  shows "obeys ok Q (Some v) es (bind (guard_drop K) k)"
  by (rule obeys_bind [OF obeys_guard_drop]) (use assms in \<open>simp add: released_def\<close>)

lemma obeys_lock_again:
  assumes "obeys ok (taken (\<lambda>_. True) es) None es lock"
  shows "obeys ok (holds_again es) None es lock"
  by (rule obeys_mono [OF assms]) (simp add: taken_def holds_again_def)

lemma obeys_relock_sync: "obeys ok (loop_post (\<lambda>h es'. h = None \<and> es' = es) (holds_again es)) None es (relock_sync P t late)"
  unfolding relock_sync_def
  by (rule obeys_after_taken [OF obeys_lock_sync]) (auto simp: holds_again_def intro: obeys_Return)

lemma quiet_cv [quiet_intros]:
  "quiet new_flag" "quiet (load_flag w)" "quiet (set_flag w)" "quiet next_waiter_id"
  by (rule quiet_step; auto)+

lemma quiet_cv_lists [quiet_intros]:
  "quiet (leave cv_sync me)" "quiet (leave cv_spin me')" "quiet (not_listed cv_sync me)"
  "quiet (push cv_sync t)" "quiet (push cv_async w)" "quiet (push cv_spin f)"
  "quiet (pop cv_sync)" "quiet (pop cv_async)" "quiet (pop cv_spin)"
  "quiet (mem_take cv_sync)" "quiet (mem_take cv_async)" "quiet (mem_take cv_spin)"
  unfolding leave_def not_listed_def push_def pop_def mem_take_def by (intro quiet_intros)+

lemma quiet_spin_until [quiet_intros]: "quiet (spin_until w)"
  unfolding spin_until_def spin_until_body_def by (intro quiet_intros)

lemma quiet_notify [quiet_intros]: "quiet (notify_one K)" "quiet (notify_all K)"
  unfolding notify_one_def notify_one_sync_def notify_one_async_def notify_all_def by (intro quiet_intros)+

lemma quiet_join_async [quiet_intros]: "quiet (join_async_list K)" "quiet (drop_async_waiter K wid)"
  unfolding join_async_list_def drop_async_waiter_def by (intro quiet_intros)+

lemma obeys_wait_block: "obeys ok (holds_again es) (Some v) es (wait_block K P t g)"
  unfolding wait_block_def
  by (intro obeys_after_quiet obeys_relock quiet_intros obeys_lock_again [OF obeys_lock_sync])

lemma obeys_wait_spin: "obeys ok (holds_again es) (Some v) es (wait_spin K P t g)"
  unfolding wait_spin_def
  by (intro obeys_after_quiet obeys_relock quiet_intros obeys_lock_again [OF obeys_lock_sync])

lemma obeys_wait_async: "obeys ok (holds_again es) (Some v) es (wait_async K g)"
  unfolding wait_async_def
  by (intro obeys_after_quiet obeys_relock quiet_intros obeys_lock_again [OF obeys_lock_async])

lemma obeys_wait_sync: "obeys ok (holds_again es) (Some v) es (wait_sync K P t g)"
  by (simp add: wait_sync_def obeys_wait_block obeys_wait_spin)

lemma obeys_outside_loop:
  assumes "obeys ok (loop_post (\<lambda>h es'. h = None \<and> es' = es) Q) None es b"
  shows "obeys ok Q None es (loop b)"
  by (rule obeys_loop [where I = "\<lambda>h es'. h = None \<and> es' = es"]) (use assms in auto)

lemma obeys_continue_outside: "obeys ok (loop_post (\<lambda>h es'. h = None \<and> es' = es) Q) None es continue"
  by (rule obeys_Return) simp

lemma obeys_wait_block_timeout: "obeys ok (holds_again es) (Some v) es (wait_block_timeout K P t g d)"
  unfolding wait_block_timeout_def wait_block_timeout_body_def
  by (intro obeys_after_quiet obeys_relock obeys_outside_loop quiet_intros)
    (auto intro!: obeys_after_quiet obeys_relock_sync obeys_continue_outside quiet_intros)

lemma obeys_wait_spin_timeout: "obeys ok (holds_again es) (Some v) es (wait_spin_timeout K P t g d)"
  unfolding wait_spin_timeout_def wait_spin_timeout_body_def
  by (intro obeys_after_quiet obeys_relock obeys_outside_loop quiet_intros)
    (auto intro!: obeys_after_quiet obeys_relock_sync obeys_continue_outside quiet_intros)

lemma obeys_wait_async_timeout: "obeys ok (holds_again es) (Some v) es (wait_async_timeout K g d)"
proof -
  have tail: "obeys ok (holds_again es) None es (bind (lock_async K) (\<lambda>g. Return (g, WaitTimeoutResult late)))" for late
    by (rule obeys_after_taken [OF obeys_lock_async]) (auto simp: holds_again_def intro: obeys_Return)
  show ?thesis
    unfolding wait_async_timeout_def
    by ((rule obeys_after_quiet, intro quiet_intros)+, rule obeys_relock, (rule obeys_after_quiet, intro quiet_intros)+,
        rule tail)
qed

lemma obeys_wait_sync_timeout: "obeys ok (holds_again es) (Some v) es (wait_sync_timeout K P t g d)"
  by (simp add: wait_sync_timeout_def obeys_wait_block_timeout obeys_wait_spin_timeout)

subsection \<open>Any number of threads\<close>

text \<open>All changes, in the order in which they were made, with the thread that made each: they lead
  from the first value of the data to the present one.\<close>

fun edits_lead :: "'d \<Rightarrow> 'd edits \<Rightarrow> 'd \<Rightarrow> bool" where
  "edits_lead v [] w = (v = w)"
| "edits_lead v (e # es) w = (fst e = v \<and> edits_lead (snd e) es w)"

lemma edits_lead_append: "edits_lead v es w \<Longrightarrow> edits_lead v (es @ [(w, w')]) w'"
  by (induction es arbitrary: v) auto

definition edits_by :: "tid \<Rightarrow> (tid \<times> 'd \<times> 'd) list \<Rightarrow> 'd edits" where
  "edits_by t H = map snd (filter (\<lambda>e. fst e = t) H)"

lemma edits_by_simps [simp]:
  "edits_by t [] = []"
  "edits_by t (H @ [(u, e)]) = (if u = t then edits_by t H @ [e] else edits_by t H)"
  by (simp_all add: edits_by_def)

definition disciplined ::
  "(tid \<Rightarrow> 'd edits \<Rightarrow> bool) \<Rightarrow> (tid \<Rightarrow> 'r \<Rightarrow> 'd option \<Rightarrow> 'd edits \<Rightarrow> bool) \<Rightarrow> 'd \<Rightarrow>
   (('d, 'k, 'z) mutex_scheme, 'r) config \<Rightarrow> (tid \<times> 'd \<times> 'd) list \<Rightarrow> (tid \<Rightarrow> 'd option) \<Rightarrow> bool" where
  "disciplined ok Q v0 c H hs \<longleftrightarrow>
     excl (data_lock (fst c)) (\<lambda>h. h \<noteq> None) hs \<and> (\<forall>t v. hs t = Some v \<longrightarrow> inner (fst c) = v) \<and>
     (\<forall>t. obeys (ok t) (Q t) (hs t) (edits_by t H) (snd c t)) \<and> (\<forall>t. ok t (edits_by t H)) \<and>
     edits_lead v0 (map snd H) (inner (fst c))"

lemma disciplined_step:
  assumes "disciplined ok Q v0 (s, ps) H hs" and "resume (ps i) s = Some (s', p')"
  shows "\<exists>H' hs'. disciplined ok Q v0 (s', ps(i := p')) H' hs'"
proof -
  have excl: "excl (data_lock s) (\<lambda>h. h \<noteq> None) hs" and val: "hs t = Some v \<Longrightarrow> inner s = v"
    and ob: "obeys (ok t) (Q t) (hs t) (edits_by t H) (ps t)" and okH: "ok t (edits_by t H)"
    and lead: "edits_lead v0 (map snd H) (inner s)" for t v
    using assms(1) by (auto simp: disciplined_def)
  have "sees (hs i) s" using exclD(1) [OF excl, of i] val by (cases "hs i") auto
  from obeys_step [OF ob this assms(2)] obtain h' es' where
    m: "moves (ok i) (hs i) (edits_by i H) s h' es' s'" and ob': "obeys (ok i) (Q i) h' es' p'" by blast
  have flag: "flag_step (data_lock s) (data_lock s') (\<lambda>h. h \<noteq> None) (hs i) h'"
    and out: "hs i = None \<Longrightarrow> inner s' = inner s" and now: "h' = Some v \<Longrightarrow> inner s' = v"
    and trace: "es' = edits_by i H \<and> inner s' = inner s \<or>
      es' = edits_by i H @ [(inner s, inner s')] \<and> ok i es'" for v
    using m val [of i] by (cases "hs i"; cases h'; auto simp: flag_step_def)+
  have excl': "excl (data_lock s') (\<lambda>h. h \<noteq> None) (hs(i := h'))"
    using excl flag by (rule excl_step)
  have val': "inner s' = v" if "(hs(i := h')) t = Some v" for t v
  proof (cases "t = i")
    case False
    with that have "hs t = Some v" by simp
    moreover from this False have "hs i = None" using exclD(2) [OF excl, of i t] by blast
    ultimately show ?thesis using out val by simp
  qed (use that now in simp)
  from trace show ?thesis
  proof
    assume "es' = edits_by i H \<and> inner s' = inner s"
    then have "disciplined ok Q v0 (s', ps(i := p')) H (hs(i := h'))"
      using excl' val' ob ob' okH lead by (simp add: disciplined_def)
    then show ?thesis by blast
  next
    assume e: "es' = edits_by i H @ [(inner s, inner s')] \<and> ok i es'"
    then have "ok i (edits_by i H @ [(inner s, inner s')])" by auto
    with e have "disciplined ok Q v0 (s', ps(i := p')) (H @ [(i, inner s, inner s')]) (hs(i := h'))"
      using excl' val' ob ob' okH edits_lead_append [OF lead, of "inner s'"] by (simp add: disciplined_def)
    then show ?thesis by blast
  qed
qed

lemma disciplined_reach:
  assumes "sys_reach (runtime_env K) (s0, ps0) c" and "\<not> data_lock s0"
    and "\<And>t. obeys (ok t) (Q t) None [] (ps0 t)" and "\<And>t. ok t []"
  shows "\<exists>H hs. disciplined ok Q (inner s0) c H hs"
  using assms(1)
proof (induction rule: sys_reach.induct)
  case reach_start
  have "disciplined ok Q (inner s0) (s0, ps0) [] (\<lambda>_. None)"
    using assms(2-4) by (simp add: disciplined_def excl_def)
  then show ?case by blast
next
  case (reach_next c c')
  then obtain H hs where d: "disciplined ok Q (inner s0) c H hs" by blast
  obtain s ps where c: "c = (s, ps)" by (cases c)
  from reach_next(2) show ?case unfolding c
  proof (cases rule: sys_step.cases)
    case (thread_step i s' p')
    with disciplined_step [of ok Q "inner s0" s ps H hs i s' p'] d c show ?thesis by simp
  next
    case (env_step s')
    then have "data_lock s' = data_lock s \<and> inner s' = inner s"
      by (auto simp: set_token_def elim!: runtime_env.cases)
    with d c env_step show ?thesis by (auto simp: disciplined_def)
  qed
qed

end
