(* ===== verification/Hooks_Concurrent.thy ===== *)
theory Hooks_Concurrent
  imports Hooks Lock_Discipline
begin

section \<open>Spawn hooks registered by many threads at once\<close>

text \<open>
  Any number of threads, each registering, removing and clearing hooks. Every call obeys the lock
  discipline and changes the registry once.
\<close>

fun apply_op :: "'h hook_op \<Rightarrow> (string \<times> 'h) list \<Rightarrow> (string \<times> 'h) list" where
  "apply_op (Register n h) v = put_hook n h v"
| "apply_op (Remove n) v = fst (take_hook n v)"
| "apply_op Clear v = []"

lemma apply_op_abs:
  assumes "distinct (map fst v)"
  shows "distinct (map fst (apply_op op v))" and "abs_hooks (apply_op op v) = spec_op op (abs_hooks v)"
  using assms hooks.put_distinct [OF assms] hooks.remove_distinct [OF assms]
  by (cases op; simp add: abs_hooks_def hooks.names_put hooks.lookup_put hooks.names_remove hooks.lookup_remove
      del: put_hook_simps take_hook_simps)+

definition one_change ::
  "'h hook_op \<Rightarrow> (string \<times> 'h) list edits \<Rightarrow> unit \<Rightarrow> (string \<times> 'h) list option \<Rightarrow> (string \<times> 'h) list edits \<Rightarrow> bool"
  where
  "one_change op es r h es' \<longleftrightarrow> h = None \<and> (\<exists>v. es' = es @ [(v, apply_op op v)])"

lemma obeys_write_drop:
  assumes "ok (es @ [(v, v')])" and "\<And>x. Q x None (es @ [(v, v')])"
  shows "obeys ok Q (Some v) es (seq (guard_write v') (bind (guard_drop K) (\<lambda>_. Return x)))"
proof (rule obeys_bind, rule obeys_guard_write, rule assms(1))
  fix h es'
  assume "h = Some v' \<and> es' = es @ [(v, v')]"
  then show "obeys ok Q h es' (bind (guard_drop K) (\<lambda>_. Return x))"
    using assms(2) by (auto intro!: obeys_relock obeys_Return)
qed

lemma obeys_run_op:
  assumes "\<And>v. ok (es @ [(v, apply_op op v)])"
  shows "obeys ok (one_change op es) None es (run_op K P t op)"
proof (cases op)
  case (Register n h)
  have "obeys ok (one_change op es) (Some v) es
      (bind (bind guard_deref (\<lambda>v. guard_write (put_hook n h v))) (\<lambda>_. guard_drop K))" for v
    unfolding bind_assoc
    using obeys_write_drop [where ok = ok and es = es and v = v and v' = "put_hook n h v" and Q = "one_change op es" and x = "()" and K = K] assms [of v] Register
    by (intro obeys_bind [OF obeys_guard_deref]) (auto simp: one_change_def)
  then show ?thesis
    unfolding Register run_op.simps register_spawn_hook_def guard_deref_mut_def
    by (intro obeys_after_taken [OF obeys_lock_sync]) (simp_all add: Register)
next
  case (Remove n)
  have "obeys ok (one_change op es) (Some v) es
      (bind (bind guard_deref (\<lambda>v. seq (guard_write (fst (take_hook n v)))
        (seq (guard_drop K) (Return (snd (take_hook n v)))))) (\<lambda>_. Return ()))" for v
    unfolding bind_assoc
    using obeys_write_drop [where ok = ok and es = es and v = v and v' = "fst (take_hook n v)" and Q = "one_change op es" and x = "()" and K = K] assms [of v] Remove
    by (intro obeys_bind [OF obeys_guard_deref]) (auto simp: one_change_def)
  then show ?thesis
    unfolding Remove run_op.simps remove_spawn_hook_def bind_assoc
    by (intro obeys_after_taken [OF obeys_lock_sync]) (simp_all add: Remove bind_assoc)
next
  case Clear
  have "obeys ok (one_change op es) (Some v) es (seq (guard_write []) (guard_drop K))" for v
    using obeys_write_drop [where ok = ok and es = es and v = v and v' = "[]" and Q = "one_change op es" and x = "()" and K = K] assms [of v] Clear
    by (auto simp: one_change_def)
  then show ?thesis
    unfolding Clear run_op.simps clear_spawn_hooks_def
    by (intro obeys_after_taken [OF obeys_lock_sync]) (simp_all add: Clear)
qed

text \<open>The changes a thread made are the first of its operations, each applied to what was there.\<close>

definition follows :: "'h hook_op list \<Rightarrow> (string \<times> 'h) list edits \<Rightarrow> bool" where
  "follows ops es \<longleftrightarrow> list_all2 (\<lambda>op e. snd e = apply_op op (fst e)) (take (length es) ops) es"

lemma follows_next:
  assumes "list_all2 (\<lambda>op e. snd e = apply_op op (fst e)) ops1 es"
  shows "list_all2 (\<lambda>op e. snd e = apply_op op (fst e)) (ops1 @ [op]) (es @ [(v, apply_op op v)])"
  using assms by (simp add: list_all2_appendI)

lemma follows_prefix:
  assumes "list_all2 (\<lambda>op e. snd e = apply_op op (fst e)) ops1 es"
  shows "follows (ops1 @ ops2) es"
proof -
  have "take (length es) (ops1 @ ops2) = ops1" using list_all2_lengthD [OF assms] by simp
  with assms show ?thesis by (simp add: follows_def)
qed

lemma obeys_run_ops:
  assumes "list_all2 (\<lambda>op e. snd e = apply_op op (fst e)) ops1 es"
  shows "obeys (follows (ops1 @ ops))
    (\<lambda>_ h es'. h = None \<and> list_all2 (\<lambda>op e. snd e = apply_op op (fst e)) (ops1 @ ops) es') None es
    (for_each ops (run_op K P t) :: (('h, 'k, 'z) hooks_scheme, unit) prog)"
  using assms
proof (induction ops arbitrary: ops1 es)
  case Nil
  then show ?case by (simp add: obeys_Return)
next
  case (Cons op ops)
  show ?case unfolding for_each.simps
  proof (rule obeys_bind [OF obeys_run_op])
    show "follows (ops1 @ op # ops) (es @ [(v, apply_op op v)])" for v
      using follows_prefix [OF follows_next [OF Cons.prems, where op = op and v = v], of ops] by simp
  next
    fix x :: unit and h es'
    assume "one_change op es x h es'"
    then obtain v where h: "h = None" and es': "es' = es @ [(v, apply_op op v)]" by (auto simp: one_change_def)
    from Cons.IH [OF follows_next [OF Cons.prems]]
    show "obeys (follows (ops1 @ op # ops))
        (\<lambda>_ h es'. h = None \<and> list_all2 (\<lambda>op e. snd e = apply_op op (fst e)) (ops1 @ op # ops) es') h es'
        (for_each ops (run_op K P t) :: (('h, 'k, 'z) hooks_scheme, unit) prog)"
      unfolding h es' by simp
  qed
qed

lemma edits_lead_names:
  assumes "edits_lead v es w" and "distinct (map fst v)" and "\<forall>e\<in>set es. \<exists>op. snd e = apply_op op (fst e)"
  shows "distinct (map fst w) \<and> (\<forall>e\<in>set es. distinct (map fst (fst e)))"
  using assms
proof (induction es arbitrary: v)
  case (Cons e es)
  then obtain op where "snd e = apply_op op v" "fst e = v" by auto
  with Cons apply_op_abs(1) [where v = v and op = op] show ?case by simp
qed simp

text \<open>C28: under every interleaving the registry goes from empty to what it is by the threads' calls, one
  at a time: each thread's calls take effect in its order, each applied as the ordered map says to
  what the calls before it left, and all of them once the thread has finished; names stay unique.\<close>

theorem hooks_linearizable:
  assumes "sys_reach (runtime_env K) (spawn_hooks r :: ((string \<times> 'h) list, 'k) mutex, \<lambda>t. for_each (ops t) (run_op K P t)) (s, ps)"
  shows "\<exists>H. edits_lead [] (map snd H) (inner s) \<and> distinct (map fst (inner s)) \<and>
    (\<forall>t. \<exists>n. list_all2 (\<lambda>op e. abs_hooks (snd e) = spec_op op (abs_hooks (fst e))) (take n (ops t)) (edits_by t H) \<and>
       (ps t = Return () \<longrightarrow> n = length (ops t)))"
proof -
  let ?Q = "\<lambda>t (_::unit) h es. h = None \<and> list_all2 (\<lambda>op e. snd e = apply_op op (fst e)) (ops t) es"
  let ?s0 = "spawn_hooks r :: ((string \<times> 'h) list, 'k) mutex"
  have start: "\<not> data_lock ?s0" "inner ?s0 = []"
    by (simp_all add: spawn_hooks_def mutex_new_def)
  have obeys: "obeys (follows (ops t)) (?Q t) None []
      (for_each (ops t) (run_op K P t) :: (((string \<times> 'h) list, 'k) mutex, unit) prog)" for t
    using obeys_run_ops [of "[]" "[]" "ops t" K P t] by simp
  have "follows (ops t) []" for t by (simp add: follows_def)
  from disciplined_reach [OF assms start(1) obeys this] obtain H hs
    where d: "disciplined (\<lambda>t. follows (ops t)) ?Q [] (s, ps) H hs" unfolding start by blast
  have trace: "follows (ops t) (edits_by t H)" for t using d by (simp add: disciplined_def)
  have change: "\<exists>op. snd e = apply_op op (fst e)" if "(t, e) \<in> set H" for t e
  proof -
    have "e \<in> set (edits_by t H)" using that by (auto simp: edits_by_def intro!: image_eqI [of _ _ "(t, e)"])
    then obtain i where "i < length (edits_by t H)" "edits_by t H ! i = e" by (auto simp: in_set_conv_nth)
    with list_all2_nthD2 [OF trace [of t, unfolded follows_def], of i] show ?thesis by auto
  qed
  have names: "distinct (map fst (inner s)) \<and> (\<forall>e\<in>set (map snd H). distinct (map fst (fst e)))"
    using d change by (intro edits_lead_names) (auto simp: disciplined_def)
  have abs: "list_all2 (\<lambda>op e. abs_hooks (snd e) = spec_op op (abs_hooks (fst e))) (take (length (edits_by t H)) (ops t))
      (edits_by t H)" for t
  proof -
    have "distinct (map fst (fst e))" if "e \<in> set (edits_by t H)" for e
      using names that by (force simp: edits_by_def)
    with trace [of t] show ?thesis
      by (auto simp: follows_def list_all2_conv_all_nth intro!: apply_op_abs(2)) (metis nth_mem surjective_pairing)
  qed
  have "length (edits_by t H) = length (ops t)" if "ps t = Return ()" for t
  proof -
    have "obeys (follows (ops t)) (?Q t) (hs t) (edits_by t H) (ps t)" using d by (simp add: disciplined_def)
    then show ?thesis unfolding that by (auto elim!: obeys_ReturnE dest: list_all2_lengthD)
  qed
  then show ?thesis using d names abs by (auto simp: disciplined_def)
qed

text \<open>Two threads that register and remove.\<close>

definition hooks_demo :: "tid \<Rightarrow> nat hook_op list" where
  "hooks_demo t = (if t = 0 then [Register ''a'' 1] else if t = 1 then [Register ''b'' 2, Remove ''a''] else [])"

definition hooks_demo_end :: "(((string \<times> nat) list, nat \<times> nat set) mutex, unit) config" where
  "hooks_demo_end = run_schedule (replicate 4 1 @ replicate 20 0 @ replicate 60 1 @ replicate 20 0)
     (spawn_hooks fresh_runtime, \<lambda>t. for_each (hooks_demo t) (run_op set_conts Native t))"

lemma hooks_demo_done: "snd hooks_demo_end 0 = Return ()" "snd hooks_demo_end 1 = Return ()"
  unfolding hooks_demo_end_def
  by (simp_all add: hooks_demo_def spawn_hooks_def mutex_new_def register_spawn_hook_def remove_spawn_hook_def
      run_defs)

lemma hooks_linearizable_witness:
  "\<exists>H. edits_lead [] (map snd H) (inner (fst hooks_demo_end)) \<and>
     length (edits_by 0 H) = 1 \<and> length (edits_by 1 H) = 2"
proof -
  have "sys_reach (runtime_env set_conts) (spawn_hooks fresh_runtime :: ((string \<times> nat) list, nat \<times> nat set) mutex,
      \<lambda>t. for_each (hooks_demo t) (run_op set_conts Native t)) (fst hooks_demo_end, snd hooks_demo_end)"
    unfolding hooks_demo_end_def by (simp only: prod.collapse run_schedule_start)
  from hooks_linearizable [OF this] obtain H where H: "edits_lead [] (map snd H) (inner (fst hooks_demo_end))"
    and all: "\<forall>t. \<exists>n. list_all2 (\<lambda>op e. abs_hooks (snd e) = spec_op op (abs_hooks (fst e))) (take n (hooks_demo t))
       (edits_by t H) \<and> (snd hooks_demo_end t = Return () \<longrightarrow> n = length (hooks_demo t))"
    by (elim exE conjE)
  have "length (edits_by t H) = length (hooks_demo t)" if fin: "snd hooks_demo_end t = Return ()" for t
  proof -
    from spec [OF all, of t] obtain n where n: "list_all2 (\<lambda>op e. abs_hooks (snd e) = spec_op op (abs_hooks (fst e)))
       (take n (hooks_demo t)) (edits_by t H)" "n = length (hooks_demo t)"
      by (elim exE conjE) (use fin in simp)
    from list_all2_lengthD [OF n(1)] n(2) show ?thesis by simp
  qed
  with hooks_demo_done H(1) show ?thesis by (intro exI [of _ H]) (simp add: hooks_demo_def)
qed

end
