(* ===== verification/Mpsc_Concurrent.thy ===== *)
theory Mpsc_Concurrent
  imports Lock_Discipline Mpsc_Runs "HOL-Library.Sublist"
begin

section \<open>The channel used by many threads at once\<close>

text \<open>
  Any number of threads, each making any calls on one channel: sends and receives by every
  strategy, with and without a deadline, and handle operations. Each call obeys the lock
  discipline and changes the queue at most once, by its own value at the back or by taking the
  first; from this follows what the channel promises under every interleaving.
\<close>

datatype 'a chan_op =
    SendOp strategy 'a
  | RecvOp strategy
  | RecvTimeoutOp strategy instant
  | TryRecvOp
  | CloneSenderOp
  | DropSenderOp
  | DropReceiverOp

datatype 'a outcome = SentOk 'a | SendFailed 'a | Got 'a | NoValue | HandleOk

fun sent_outcome :: "'a send_error + unit \<Rightarrow> 'a \<Rightarrow> 'a outcome" where
  "sent_outcome (Inl _) v = SendFailed v"
| "sent_outcome (Inr _) v = SentOk v"

fun got_outcome :: "'e + 'a \<Rightarrow> 'a outcome" where
  "got_outcome (Inl _) = NoValue"
| "got_outcome (Inr v) = Got v"

fun run_chan_op :: "'k cont_ops \<Rightarrow> 'a chan_op \<Rightarrow> (('a, 'k, 'w::len, 'z) channel_scheme, 'a outcome) prog" where
  "run_chan_op K (SendOp how v) = bind (send_by K how v) (\<lambda>r. Return (sent_outcome r v))"
| "run_chan_op K (RecvOp how) = bind (recv_by K how) (\<lambda>r. Return (got_outcome r))"
| "run_chan_op K (RecvTimeoutOp how d) = bind (recv_timeout_by K how d) (\<lambda>r. Return (got_outcome r))"
| "run_chan_op K TryRecvOp = bind (try_recv K) (\<lambda>r. Return (got_outcome r))"
| "run_chan_op K CloneSenderOp = seq sender_clone (Return HandleOk)"
| "run_chan_op K DropSenderOp = seq (sender_drop K) (Return HandleOk)"
| "run_chan_op K DropReceiverOp = seq (receiver_drop K) (Return HandleOk)"

fun chan_client :: "'k cont_ops \<Rightarrow> 'a chan_op list \<Rightarrow> (('a, 'k, 'w::len, 'z) channel_scheme, 'a outcome list) prog" where
  "chan_client K [] = Return []"
| "chan_client K (op # ops) =
     bind (run_chan_op K op) (\<lambda>out. bind (chan_client K ops) (\<lambda>outs. Return (out # outs)))"

fun outcome_of :: "'a chan_op \<Rightarrow> 'a outcome \<Rightarrow> bool" where
  "outcome_of (SendOp how v) out = (out = SentOk v \<or> out = SendFailed v)"
| "outcome_of (RecvOp how) out = (out = NoValue \<or> (\<exists>v. out = Got v))"
| "outcome_of (RecvTimeoutOp how d) out = (out = NoValue \<or> (\<exists>v. out = Got v))"
| "outcome_of TryRecvOp out = (out = NoValue \<or> (\<exists>v. out = Got v))"
| "outcome_of CloneSenderOp out = (out = HandleOk)"
| "outcome_of DropSenderOp out = (out = HandleOk)"
| "outcome_of DropReceiverOp out = (out = HandleOk)"

subsection \<open>Changes of the queue\<close>

datatype 'a event = Push 'a | Pop 'a

fun outcome_events :: "'a outcome \<Rightarrow> 'a event list" where
  "outcome_events (SentOk v) = [Push v]"
| "outcome_events (Got v) = [Pop v]"
| "outcome_events _ = []"

fun pushes :: "'a event list \<Rightarrow> 'a list" where
  "pushes [] = []"
| "pushes (Push v # es) = v # pushes es"
| "pushes (Pop v # es) = pushes es"

fun pops :: "'a event list \<Rightarrow> 'a list" where
  "pops [] = []"
| "pops (Push v # es) = pops es"
| "pops (Pop v # es) = v # pops es"

definition queue_edit :: "'a list \<times> 'a list \<Rightarrow> bool" where
  "queue_edit e \<longleftrightarrow> (\<exists>v. snd e = fst e @ [v]) \<or> (\<exists>v. fst e = v # snd e)"

definition event_of :: "'a list \<times> 'a list \<Rightarrow> 'a event" where
  "event_of e = (if length (fst e) < length (snd e) then Push (last (snd e)) else Pop (hd (fst e)))"

lemma event_simps [simp]:
  "event_of (q, q @ [v]) = Push v" "event_of (v # q, q) = Pop v"
  "queue_edit (q, q @ [v])" "queue_edit (v # q, q)"
  by (simp_all add: event_of_def queue_edit_def)

lemma pushes_append [simp]: "pushes (xs @ ys) = pushes xs @ pushes ys"
  by (induction xs rule: pushes.induct) auto

text \<open>Pushing at the back and taking from the front is first in, first out.\<close>

lemma edits_fifo:
  assumes "edits_lead q es w" and "\<forall>e\<in>set es. queue_edit e"
  shows "q @ pushes (map event_of es) = pops (map event_of es) @ w"
  using assms
proof (induction es arbitrary: q)
  case (Cons e es)
  obtain q' where e: "e = (q, q')" using Cons.prems(1) by (cases e) auto
  have rest: "q' @ pushes (map event_of es) = pops (map event_of es) @ w"
    using Cons e by simp
  from Cons.prems(2) e have "(\<exists>v. q' = q @ [v]) \<or> (\<exists>v. q = v # q')" by (simp add: queue_edit_def)
  with rest e show ?case by auto
qed simp

subsection \<open>Every call obeys the discipline\<close>

lemma quiet_chan [quiet_intros]:
  "quiet load_active" "quiet load_count" "quiet add_sender" "quiet sub_sender" "quiet store_inactive"
  by (rule quiet_step; auto)+

lemma quiet_handles [quiet_intros]: "quiet sender_clone" "quiet (sender_drop K)" "quiet (receiver_drop K)"
  unfolding sender_clone_def sender_drop_def receiver_drop_def by (intro quiet_intros)+

lemma obeys_push_back:
  "ok (es @ [(q, q @ [v])]) \<Longrightarrow>
   obeys ok (\<lambda>_ h es'. h = Some (q @ [v]) \<and> es' = es @ [(q, q @ [v])]) (Some q) es (push_back v)"
  unfolding push_back_def guard_deref_mut_def
  by (rule obeys_bind [OF obeys_guard_deref]) (simp add: obeys_guard_write)

definition popped :: "'a list \<Rightarrow> 'a list edits \<Rightarrow> 'a option \<Rightarrow> 'a list option \<Rightarrow> 'a list edits \<Rightarrow> bool" where
  "popped q es x h es' \<longleftrightarrow> (case x of
       None \<Rightarrow> h = Some q \<and> es' = es
     | Some v \<Rightarrow> \<exists>rest. q = v # rest \<and> h = Some rest \<and> es' = es @ [(q, rest)])"

lemma obeys_pop_front:
  assumes "\<And>v rest. q = v # rest \<Longrightarrow> ok (es @ [(q, rest)])"
  shows "obeys ok (popped q es) (Some q) es pop_front"
  unfolding pop_front_def
proof (rule obeys_bind [OF obeys_guard_deref], elim conjE)
  fix x :: "'a list" and h es'
  assume x: "x = q" "h = Some q" "es' = es"
  show "obeys ok (popped q es) h es' (case x of [] \<Rightarrow> Return None | t # rest \<Rightarrow> seq (guard_write rest) (Return (Some t)))"
  proof (cases q)
    case Nil
    with x show ?thesis by (simp add: popped_def obeys_Return)
  next
    case (Cons v rest)
    with x assms [OF Cons] show ?thesis
      by (auto simp: popped_def intro!: obeys_bind [OF obeys_guard_write] obeys_Return)
  qed
qed

text \<open>What a call leaves: outside, and its one change, if its result says so.\<close>

definition once :: "('r \<Rightarrow> 'a event list) \<Rightarrow> 'a list edits \<Rightarrow> 'r \<Rightarrow> 'a list option \<Rightarrow> 'a list edits \<Rightarrow> bool" where
  "once evs es r h es' \<longleftrightarrow> h = None \<and>
     (\<exists>es2. es' = es @ es2 \<and> map event_of es2 = evs r \<and> (\<forall>e\<in>set es2. queue_edit e))"

lemma once_none: "evs r = [] \<Longrightarrow> once evs es r None es"
  by (simp add: once_def)

lemma once_push: "evs r = [Push v] \<Longrightarrow> once evs es r None (es @ [(q, q @ [v])])"
  by (simp add: once_def)

lemma once_pop: "evs r = [Pop v] \<Longrightarrow> once evs es r None (es @ [(v # q, q)])"
  by (simp add: once_def)

lemma obeys_drop_Return:
  "Q x None es \<Longrightarrow> obeys ok Q (Some v) es (seq (guard_drop K) (Return x))"
  by (rule obeys_relock) (rule obeys_Return)

lemma obeys_lock_by: "obeys ok (taken (\<lambda>_. True) es) None es (lock_by K how)"
  by (cases how) (simp_all add: obeys_lock_spin obeys_lock_block obeys_lock_sync obeys_lock_async)

lemma obeys_wait_by: "obeys ok (holds_again es) (Some v) es (wait_by K how)"
  by (cases how) (simp_all add: obeys_wait_spin obeys_wait_block obeys_wait_sync obeys_wait_async)

lemma obeys_lock_timeout_by: "obeys ok (taken (\<lambda>g. g \<noteq> None) es) None es (lock_timeout_by K how d)"
  by (cases how) (simp_all add: obeys_lock_spin_timeout obeys_lock_block_timeout obeys_lock_sync_timeout
      obeys_lock_async_timeout del: not_None_eq)

lemma obeys_wait_timeout_by: "obeys ok (holds_again es) (Some v) es (wait_timeout_by K how d)"
  by (cases how) (simp_all add: obeys_wait_spin_timeout obeys_wait_block_timeout obeys_wait_sync_timeout
      obeys_wait_async_timeout)

fun sent_events :: "'a \<Rightarrow> 'a send_error + unit \<Rightarrow> 'a event list" where
  "sent_events v (Inl _) = []"
| "sent_events v (Inr _) = [Push v]"

fun got_events :: "'e + 'a \<Rightarrow> 'a event list" where
  "got_events (Inl _) = []"
| "got_events (Inr v) = [Pop v]"

lemma obeys_send_by:
  assumes "\<And>q. ok (es @ [(q, q @ [v])])"
  shows "obeys ok (once (sent_events v) es) None es (send_by K how v)"
proof -
  have push: "obeys ok (once (sent_events v) es) (Some q) es
      (seq (push_back v) (seq (guard_drop K) (seq (notify_one K) (Return (Inr ())))))" for q
    by (rule obeys_bind, rule obeys_push_back, rule assms)
      (auto intro!: obeys_relock obeys_after_quiet quiet_notify obeys_Return once_push)
  have "obeys ok (once (sent_events v) es) (Some q) es (send_locked K v)" for q
    unfolding send_locked_def
    by (rule obeys_after_quiet [OF quiet_chan(1)]) (auto intro!: push obeys_drop_Return once_none)
  then show ?thesis
    unfolding send_by_with send_with_def
    by (intro obeys_after_quiet [OF quiet_chan(1)])
      (auto intro!: obeys_Return once_none obeys_after_taken [OF obeys_lock_by])
qed

text \<open>The three forms of receiving: the loops of \<open>recv_*\<close> and \<open>recv_*_timeout\<close>, and \<open>try_recv\<close>.\<close>

abbreviation holding :: "'a list edits \<Rightarrow> 'a list option \<Rightarrow> 'a list edits \<Rightarrow> bool" where
  "holding es \<equiv> (\<lambda>h es'. h \<noteq> None \<and> es' = es)"

lemma obeys_after_pop:
  assumes "\<And>v q. ok (es @ [(v # q, q)])"
    and "\<And>v rest. obeys ok Q (Some rest) (es @ [(v # rest, rest)]) (k (Some v))"
    and "obeys ok Q (Some q) es (k None)"
  shows "obeys ok Q (Some q) es (bind pop_front k)"
proof (rule obeys_bind [OF obeys_pop_front])
  fix x h es'
  assume "popped q es x h es'"
  then show "obeys ok Q h es' (k x)"
    using assms(2,3) by (auto simp: popped_def split: option.splits)
qed (simp add: assms(1))

lemma obeys_recv_loop:
  assumes "\<And>q. obeys ok (loop_post (holding es) (once got_events es)) (Some q) es b"
  shows "obeys ok (once got_events es) (Some q) es (loop b)"
  by (rule obeys_loop [where I = "holding es"]) (use assms in auto)

lemma obeys_recv_by:
  assumes "\<And>v q. ok (es @ [(v # q, q)])"
  shows "obeys ok (once got_events es) None es (recv_by K how)"
proof -
  have wait: "obeys ok (loop_post (holding es) (once got_events es)) (Some q) es (seq (wait_by K how) continue)" for q
    by (rule obeys_bind [OF obeys_wait_by]) (auto simp: holds_again_def intro: obeys_Return)
  have "obeys ok (loop_post (holding es) (once got_events es)) (Some q) es (recv_body K (wait_by K how))" for q
    unfolding recv_body_def
    by (rule obeys_after_pop, rule assms, simp add: obeys_drop_Return once_pop, simp only: option.case,
        rule obeys_after_quiet [OF quiet_chan(2)])
      (auto simp del: not_None_eq intro!: obeys_drop_Return once_none wait)
  then show ?thesis
    unfolding recv_by_with recv_with_def
    by (intro obeys_after_taken [OF obeys_lock_by] obeys_recv_loop) auto
qed

lemma obeys_recv_timeout_by:
  assumes "\<And>v q. ok (es @ [(v # q, q)])"
  shows "obeys ok (once got_events es) None es (recv_timeout_by K how d)"
proof -
  have wait: "obeys ok (loop_post (holding es) (once got_events es)) (Some q) es
      (bind (wait_timeout_by K how d) (\<lambda>(queue, result).
         if timed_out result then seq (guard_drop K) (break (Inl Timeout)) else continue))" for q
    by (rule obeys_bind [OF obeys_wait_timeout_by])
      (auto simp: holds_again_def intro!: obeys_Return obeys_drop_Return once_none)
  have "obeys ok (loop_post (holding es) (once got_events es)) (Some q) es
      (recv_timeout_body K (wait_timeout_by K how d))" for q
    unfolding recv_timeout_body_def
    by (rule obeys_after_pop, rule assms, simp add: obeys_drop_Return once_pop, simp only: option.case,
        rule obeys_after_quiet [OF quiet_chan(2)])
      (auto simp del: not_None_eq intro!: obeys_drop_Return once_none wait)
  then show ?thesis
    unfolding recv_timeout_by_with recv_timeout_with_def
    by (intro obeys_after_taken [OF obeys_lock_timeout_by])
      (auto intro!: obeys_recv_loop obeys_Return once_none)
qed

lemma obeys_try_recv:
  assumes "\<And>v q. ok (es @ [(v # q, q)])"
  shows "obeys ok (once got_events es) None es (try_recv K)"
  unfolding try_recv_def
proof (rule obeys_after_taken [OF obeys_try_lock])
  fix r :: "not_available + guard" and q
  assume "is_Inr r"
  then obtain g where "r = Inr g" by (cases r) auto
  then show "obeys ok (once got_events es) (Some q) es (case r of Inl _ \<Rightarrow> Return (Inl Empty)
      | Inr queue \<Rightarrow> bind pop_front (\<lambda>popped. case popped of
          Some t \<Rightarrow> seq (guard_drop K) (Return (Inr t))
        | None \<Rightarrow> bind load_count (\<lambda>n.
            seq (guard_drop K) (Return (Inl (if n = 0 then TryDisconnected else Empty))))))"
    by (simp only: sum.case, intro obeys_after_pop assms)
      (auto intro!: obeys_drop_Return once_pop once_none obeys_after_quiet quiet_chan)
next
  fix r :: "not_available + guard"
  assume "\<not> is_Inr r"
  then show "obeys ok (once got_events es) None es (case r of Inl _ \<Rightarrow> Return (Inl Empty)
      | Inr queue \<Rightarrow> bind pop_front (\<lambda>popped. case popped of
          Some t \<Rightarrow> seq (guard_drop K) (Return (Inr t))
        | None \<Rightarrow> bind load_count (\<lambda>n.
            seq (guard_drop K) (Return (Inl (if n = 0 then TryDisconnected else Empty))))))"
    by (cases r) (auto intro!: obeys_Return once_none)
qed

subsection \<open>A client\<close>

text \<open>The traces a client may have: edits of the queue, its own values entering in program order.\<close>

fun to_send :: "'a chan_op list \<Rightarrow> 'a list" where
  "to_send [] = []"
| "to_send (SendOp how v # ops) = v # to_send ops"
| "to_send (_ # ops) = to_send ops"

definition client_trace :: "'a list \<Rightarrow> 'a list edits \<Rightarrow> bool" where
  "client_trace vs es \<longleftrightarrow> (\<forall>e\<in>set es. queue_edit e) \<and> subseq (pushes (map event_of es)) vs"

definition op_post :: "'a chan_op \<Rightarrow> 'a list edits \<Rightarrow> 'a outcome \<Rightarrow> 'a list option \<Rightarrow> 'a list edits \<Rightarrow> bool" where
  "op_post op es out h es' \<longleftrightarrow> outcome_of op out \<and> once outcome_events es out h es'"

lemma obeys_chan_op:
  assumes pop: "\<And>v q. ok (es @ [(v # q, q)])"
    and push: "\<And>how v q. op = SendOp how v \<Longrightarrow> ok (es @ [(q, q @ [v])])"
  shows "obeys ok (op_post op es) None es (run_chan_op K op)"
proof (cases op)
  case (SendOp how v)
  show ?thesis unfolding SendOp run_chan_op.simps
  proof (rule obeys_bind [OF obeys_send_by])
    fix r h es'
    assume "once (sent_events v) es r h es'"
    then show "obeys ok (op_post (SendOp how v) es) h es' (Return (sent_outcome r v))"
      by (cases r) (auto simp: op_post_def once_def intro!: obeys_Return)
  qed (rule push [OF SendOp])
next
  case (RecvOp how)
  show ?thesis unfolding RecvOp run_chan_op.simps
  proof (rule obeys_bind [OF obeys_recv_by])
    fix r h es'
    assume "once got_events es r h es'"
    then show "obeys ok (op_post (RecvOp how) es) h es' (Return (got_outcome r))"
      by (cases r) (auto simp: op_post_def once_def intro!: obeys_Return)
  qed (rule pop)
next
  case (RecvTimeoutOp how d)
  show ?thesis unfolding RecvTimeoutOp run_chan_op.simps
  proof (rule obeys_bind [OF obeys_recv_timeout_by])
    fix r h es'
    assume "once got_events es r h es'"
    then show "obeys ok (op_post (RecvTimeoutOp how d) es) h es' (Return (got_outcome r))"
      by (cases r) (auto simp: op_post_def once_def intro!: obeys_Return)
  qed (rule pop)
next
  case TryRecvOp
  show ?thesis unfolding TryRecvOp run_chan_op.simps
  proof (rule obeys_bind [OF obeys_try_recv])
    fix r h es'
    assume "once got_events es r h es'"
    then show "obeys ok (op_post TryRecvOp es) h es' (Return (got_outcome r))"
      by (cases r) (auto simp: op_post_def once_def intro!: obeys_Return)
  qed (rule pop)
qed (auto simp: op_post_def intro!: obeys_after_quiet quiet_handles obeys_Return once_none)

definition client_post ::
  "'a chan_op list \<Rightarrow> 'a list edits \<Rightarrow> 'a outcome list \<Rightarrow> 'a list option \<Rightarrow> 'a list edits \<Rightarrow> bool" where
  "client_post ops es outs h es' \<longleftrightarrow> h = None \<and> list_all2 outcome_of ops outs \<and>
     (\<exists>es2. es' = es @ es2 \<and> map event_of es2 = concat (map outcome_events outs))"

lemma subseq_to_send:
  assumes "outcome_of op out" and "subseq xs vs"
  shows "subseq (xs @ pushes (outcome_events out)) (vs @ to_send [op])"
  using assms by (cases op) (auto simp: list_emb_append_mono intro: list_emb_append2 list_emb_append_mono)

lemma to_send_Cons: "to_send (op # ops) = to_send [op] @ to_send ops"
  by (cases op) simp_all

lemma obeys_chan_client:
  assumes "client_trace vs es"
  shows "obeys (client_trace (vs @ to_send ops @ ws)) (client_post ops es) None es
    (chan_client K ops :: (('a, 'k, 'w::len, 'z) channel_scheme, 'a outcome list) prog)"
  using assms
proof (induction ops arbitrary: vs es)
  case Nil
  then show ?case by (simp add: client_post_def obeys_Return)
next
  case (Cons op ops)
  let ?ok = "client_trace (vs @ to_send (op # ops) @ ws)"
  have sub: "subseq (pushes (map event_of es)) vs" and edits: "\<forall>e\<in>set es. queue_edit e"
    using Cons.prems by (auto simp: client_trace_def)
  have pop: "?ok (es @ [(v # q, q)])" for v q
    using subseq_rev_drop_many [OF sub] edits by (simp add: client_trace_def)
  have push: "?ok (es @ [(q, q @ [v])])" if "op = SendOp how v" for how v q
    using sub edits that
    by (auto simp: client_trace_def intro!: list_emb_append_mono)
  show ?case unfolding chan_client.simps
  proof (rule obeys_bind [OF obeys_chan_op [OF pop push]])
    fix out h es1
    assume "op_post op es out h es1"
    then obtain es2 where o: "outcome_of op out" "h = None" "es1 = es @ es2"
      "map event_of es2 = outcome_events out" "\<forall>e\<in>set es2. queue_edit e"
      by (auto simp: op_post_def once_def)
    then have "client_trace (vs @ to_send [op]) es1"
      using subseq_to_send [OF o(1) sub] edits by (auto simp: client_trace_def)
    from Cons.IH [OF this]
    have rest: "obeys ?ok (client_post ops es1) None es1
        (chan_client K ops :: (('a, 'k, 'w, 'z) channel_scheme, 'a outcome list) prog)"
      by (simp add: to_send_Cons [of op ops])
    show "obeys ?ok (client_post (op # ops) es) h es1
        (bind (chan_client K ops :: (('a, 'k, 'w, 'z) channel_scheme, 'a outcome list) prog) (\<lambda>outs. Return (out # outs)))"
      unfolding o(2)
      by (rule obeys_bind [OF rest]) (auto simp: client_post_def o intro!: obeys_Return)
  qed
qed

subsection \<open>The channel is a queue under every interleaving\<close>

definition events_by :: "tid \<Rightarrow> (tid \<times> 'a event) list \<Rightarrow> 'a event list" where
  "events_by t H = map snd (filter (\<lambda>e. fst e = t) H)"

lemma events_by_edits: "events_by t (map (map_prod id event_of) H) = map event_of (edits_by t H)"
  by (simp add: events_by_def edits_by_def filter_map o_def)

text \<open>C4: under every interleaving of any threads that send and receive by any strategy, clone and drop
  handles, and with spurious wakeups, the channel is one queue: there is a history of all sends and
  receives in which the values sent are the values received followed by those still in the channel,
  so none is lost, duplicated or overtaken; each thread's values enter in its program order; and
  for a thread that has finished its part of the history is exactly what its calls returned.\<close>

theorem channel_linearizable:
  assumes "sys_reach (runtime_env K) (channel_new r ids :: ('a, 'k, 'w::len) channel, \<lambda>t. chan_client K (ops t)) (s, ps)"
  shows "\<exists>H. pushes (map snd H) = pops (map snd H) @ inner s \<and>
    (\<forall>t. subseq (pushes (events_by t H)) (to_send (ops t))) \<and>
    (\<forall>t outs. ps t = Return outs \<longrightarrow>
       list_all2 outcome_of (ops t) outs \<and> events_by t H = concat (map outcome_events outs))"
proof -
  let ?s0 = "channel_new r ids :: ('a, 'k, 'w) channel"
  have "\<not> data_lock ?s0" "inner ?s0 = []"
    by (simp_all add: channel_new_def condvar_new_def condvar.extend_def)
  moreover have "obeys (client_trace (to_send (ops t))) (client_post (ops t) []) None [] (chan_client K (ops t))" for t
    using obeys_chan_client [of "[]" "[]" "ops t" "[]" K] by (simp add: client_trace_def)
  ultimately obtain H hs where d: "disciplined (\<lambda>t. client_trace (to_send (ops t))) (\<lambda>t. client_post (ops t) []) [] (s, ps) H hs"
    using disciplined_reach [OF assms, of "\<lambda>t. client_trace (to_send (ops t))" "\<lambda>t. client_post (ops t) []"]
    by (auto simp: client_trace_def)
  let ?H = "map (map_prod id event_of) H"
  have trace: "client_trace (to_send (ops t)) (edits_by t H)" for t using d by (simp add: disciplined_def)
  have "queue_edit e" if "(t, e) \<in> set H" for t e
  proof -
    have "e \<in> set (edits_by t H)" using that by (auto simp: edits_by_def intro!: image_eqI [of _ _ "(t, e)"])
    with trace [of t] show ?thesis by (simp add: client_trace_def)
  qed
  then have "\<forall>e\<in>set (map snd H). queue_edit e" by auto
  then have "pushes (map event_of (map snd H)) = pops (map event_of (map snd H)) @ inner s"
    using edits_fifo [of "[]" "map snd H" "inner s"] d by (simp add: disciplined_def)
  moreover have "list_all2 outcome_of (ops t) outs \<and> events_by t ?H = concat (map outcome_events outs)"
    if "ps t = Return outs" for t outs
  proof -
    have "obeys (client_trace (to_send (ops t))) (client_post (ops t) []) (hs t) (edits_by t H) (ps t)"
      using d by (simp add: disciplined_def)
    then have "client_post (ops t) [] outs (hs t) (edits_by t H)" unfolding that by (rule obeys_ReturnE)
    then show ?thesis by (auto simp: client_post_def events_by_edits)
  qed
  ultimately show ?thesis
    using trace by (intro exI [of _ ?H]) (auto simp: events_by_edits client_trace_def o_def)
qed

text \<open>A sender and a receiver that has to wait, spinning and blocking.\<close>

definition chan_demo :: "tid \<Rightarrow> nat chan_op list" where
  "chan_demo t = (if t = 0 then [SendOp (Spinning Native 0) 7, SendOp (Blocking Native 0) 8]
     else if t = 1 then [RecvOp (Blocking Native 1), TryRecvOp] else [])"

definition chan_demo_end :: "((nat, nat \<times> nat set, 32) channel, nat outcome list) config" where
  "chan_demo_end = run_schedule (replicate 20 1 @ replicate 60 0 @ replicate 50 1)
     (channel_new fresh_runtime 0, \<lambda>t. chan_client set_conts (chan_demo t))"

lemma chan_demo_done:
  "snd chan_demo_end 0 = Return [SentOk 7, SentOk 8]" "snd chan_demo_end 1 = Return [Got 7, Got 8]"
  "inner (fst chan_demo_end) = []"
  unfolding chan_demo_end_def
  by (simp_all add: chan_demo_def cv_run_defs numeral_eq_Suc channel_new_def condvar.extend_def send_spin_def
      send_block_def send_with_def send_locked_def recv_block_def recv_with_def recv_body_def try_recv_def
      notify_one_def notify_one_sync_def notify_one_async_def)

lemma channel_linearizable_witness:
  "\<exists>H. pushes (map snd H) = pops (map snd H) \<and>
     events_by 0 H = [Push 7, Push (8 :: nat)] \<and> events_by 1 H = [Pop 7, Pop 8]"
proof -
  have "sys_reach (runtime_env set_conts) (channel_new fresh_runtime 0 :: (nat, nat \<times> nat set, 32) channel,
      \<lambda>t. chan_client set_conts (chan_demo t)) (fst chan_demo_end, snd chan_demo_end)"
    unfolding chan_demo_end_def by (simp only: prod.collapse run_schedule_start)
  from channel_linearizable [OF this] obtain H where
    H: "pushes (map snd H) = pops (map snd H) @ inner (fst chan_demo_end)"
    and all: "\<forall>t outs. snd chan_demo_end t = Return outs \<longrightarrow>
      list_all2 outcome_of (chan_demo t) outs \<and> events_by t H = concat (map outcome_events outs)" by (elim exE conjE)
  show ?thesis
    using H spec [OF spec [OF all, of 0]] spec [OF spec [OF all, of 1]] chan_demo_done
    by (intro exI [of _ H]) simp
qed

end
