(* ===== verification/Mpsc_Machine.thy ===== *)
theory Mpsc_Machine
  imports Mpsc_Concurrent
begin

section \<open>Senders and a receiver that waits, point by point\<close>

text \<open>
  The control points of threads that send by any strategy and of a receiver that parks or awaits,
  from the first access of a call to the last. The points of acquiring and of dropping the
  mutex are those of \<open>Mutex_Machine\<close>; between them come the accesses to the queue, and after
  them those to the lists of the condition variable.
\<close>

subsection \<open>Acquiring and dropping the mutex inside a longer program\<close>

text \<open>\<open>k\<close> is what comes after the lock was acquired, or after the guard was dropped.\<close>

fun acq_then ::
  "'k cont_ops \<Rightarrow> platform \<Rightarrow> tid \<Rightarrow> (('d, 'k, 'z) mutex_scheme, 'r) prog \<Rightarrow> 'd point \<Rightarrow>
   (('d, 'k, 'z) mutex_scheme, 'r) prog" where
  "acq_then K P t k (S p) = seq (spin_point_code K P t p) k"
| "acq_then K P t k (B p) = seq (block_point_code P t p) k"
| "acq_then K P t k (A p) = seq (async_point_code K p) k"
| "acq_then K P t k _ = Panic park_blocked_msg"

fun acquiring :: "'d point \<Rightarrow> bool" where
  "acquiring (D p) = False"
| "acquiring _ = True"

definition acq_rest ::
  "'k cont_ops \<Rightarrow> platform \<Rightarrow> tid \<Rightarrow> (('d, 'k, 'z) mutex_scheme, 'r) prog \<Rightarrow> 'd point option \<Rightarrow>
   (('d, 'k, 'z) mutex_scheme, 'r) prog" where
  "acq_rest K P t k q = (case q of
       Some p \<Rightarrow> if acquiring p then acq_then K P t k p else k
     | None \<Rightarrow> k)"

definition lock_step ::
  "'k cont_ops \<Rightarrow> platform \<Rightarrow> tid \<Rightarrow> 'd point \<Rightarrow> ('d, 'k, 'z) mutex_scheme \<Rightarrow>
   (('d, 'k, 'z) mutex_scheme \<times> 'd point option) option" where
  "lock_step K P t p s = (if acquiring p then point_step K P t id p s else None)"

lemma acq_then_step [simp]:
  "resume (acq_then K P t k p) s =
    map_option (map_prod id (acq_rest K P t k)) (lock_step K P t p s)"
proof (cases p)
  case (S q) then show ?thesis
    by (cases q) (simp_all add: acq_rest_def lock_step_def split: option.splits)
next
  case (B q) then show ?thesis
    by (cases q) (simp_all add: acq_rest_def lock_step_def block_code_def split: option.splits)
next
  case (A q) then show ?thesis
    by (cases q) (simp_all add: acq_rest_def lock_step_def async_code_def split: option.splits)
qed (simp_all add: lock_step_def)

lemma acq_then_runs: "running (acq_then K P t k p) \<or> acq_then K P t k p = Panic park_blocked_msg"
proof (cases p)
  case (S q) then show ?thesis by (cases q) (simp_all split: option.splits)
next
  case (B q) then show ?thesis by (cases q) (simp_all add: block_code_def split: option.splits)
next
  case (A q) then show ?thesis by (cases q) (simp_all add: async_code_def split: option.splits)
qed simp_all

lemma acq_then_start:
  "acq_then K P t k (start_point P a) = bind (acquire K P t a) (\<lambda>_. k)"
  by (cases a) (simp_all add: lock_sync_def block_code_def async_code_def)

definition drop_then ::
  "'k cont_ops \<Rightarrow> (('d, 'k, 'z) mutex_scheme, 'r) prog \<Rightarrow> 'd dpoint \<Rightarrow>
   (('d, 'k, 'z) mutex_scheme, 'r) prog" where
  "drop_then K k p = seq (drop_point_code K id p) k"

definition drop_rest ::
  "'k cont_ops \<Rightarrow> (('d, 'k, 'z) mutex_scheme, 'r) prog \<Rightarrow> 'd point option \<Rightarrow>
   (('d, 'k, 'z) mutex_scheme, 'r) prog" where
  "drop_rest K k q = (case q of Some (D p) \<Rightarrow> drop_then K k p | _ \<Rightarrow> k)"

lemma drop_then_running [simp]: "running (drop_then K k p)"
  by (cases p) (simp_all add: drop_then_def)

lemma drop_rest_simps [simp]:
  "drop_rest K k (wake_point ts) = seq (wake_sync_then_async K ts) k"
  "drop_rest K k (send_point cs) = seq (for_each cs (send_cont K)) k"
  by (cases ts; cases cs; simp add: drop_rest_def drop_then_def wake_point_def send_point_def)+

lemma drop_then_step [simp]:
  "resume (drop_then K k p) s = map_option (map_prod id (drop_rest K k)) (drop_point_step K id p s)"
proof (cases p)
  case (DSRel ts)
  then show ?thesis by (simp add: drop_then_def)
next
  case (DWake u ts)
  then show ?thesis by (simp add: drop_then_def)
next
  case (DARel cs)
  then show ?thesis by (simp add: drop_then_def)
next
  case (DSend c cs)
  then show ?thesis by (simp add: drop_then_def)
qed (simp_all add: drop_then_def drop_rest_def)

lemma drop_then_store: "drop_then K k DStore = seq (guard_drop K) k"
  by (simp add: drop_then_def)

subsection \<open>The points of a call\<close>

text \<open>How a receiver waits, and the waiter it has put into the list of the condition variable.\<close>

datatype recv_kind = Parked platform tid | Awaited

datatype waiter = ParkedWaiter platform tid | AwaitedWaiter cid

fun waiter_plat :: "waiter \<Rightarrow> platform" where
  "waiter_plat (ParkedWaiter P t) = P" | "waiter_plat (AwaitedWaiter c) = Native"

fun waiter_who :: "waiter \<Rightarrow> tid" where
  "waiter_who (ParkedWaiter P t) = t" | "waiter_who (AwaitedWaiter c) = 0"

text \<open>A thread's work: values to send and receives to make.\<close>

datatype 'a demand = Give strategy 'a | Take recv_kind

fun call_of :: "'a demand \<Rightarrow> 'a chan_op" where
  "call_of (Give how v) = SendOp how v"
| "call_of (Take (Parked P t)) = RecvOp (Blocking P t)"
| "call_of (Take Awaited) = RecvOp Asynchronous"

text \<open>The points of \<open>notify_one\<close> in the spinning (\<open>F\<close>), parked (\<open>T\<close>) and asynchronous (\<open>C\<close>) lists, and
  those of joining a list.\<close>

datatype npoint =
    FSwap | FHint | FPop | FRel "nat option" | FSet nat
  | TSwap | THint | TPop | TRel "tid option" | TUnpark tid
  | CSwap | CHint | CPop | CRel "async_waiter option" | CSend cid

datatype jpoint =
    JSwap | JHint | JPush | JRel
  | JASwap | JAHint | JANew | JAId cid | JAPush cid u64 | JARel cid

datatype 'a cpoint =
    SLoad strategy 'a
  | SLock strategy "'a list point" 'a
  | SCheck 'a | SRead 'a | SWrite "'a list" 'a
  | SFail "'a list dpoint" 'a
  | SDrop "'a list dpoint" 'a
  | SNote npoint 'a
  | RLock recv_kind "'a list point"
  | RRead recv_kind | RWrite recv_kind "'a list" 'a
  | RTake recv_kind "'a list dpoint" 'a
  | RCount recv_kind
  | RGone recv_kind "'a list dpoint"
  | RJoin recv_kind jpoint
  | RDrop recv_kind waiter "'a list dpoint"
  | RWait recv_kind waiter
  | RRelock recv_kind waiter "'a list point"
  | RAgain recv_kind

datatype 'a cthread = In "'a cpoint" "'a outcome list" "'a demand list" | Finished "'a outcome list"

fun plat :: "strategy \<Rightarrow> platform" where
  "plat (Spinning P t) = P" | "plat (Blocking P t) = P" | "plat (Syncing P t) = P"
| "plat Asynchronous = Native"

fun who :: "strategy \<Rightarrow> tid" where
  "who (Spinning P t) = t" | "who (Blocking P t) = t" | "who (Syncing P t) = t"
| "who Asynchronous = 0"

fun acquisition_by :: "strategy \<Rightarrow> acquisition" where
  "acquisition_by (Spinning P t) = LockSpin"
| "acquisition_by (Blocking P t) = LockBlock"
| "acquisition_by (Syncing P t) = LockSync"
| "acquisition_by Asynchronous = LockAsync"

fun recv_plat :: "recv_kind \<Rightarrow> platform" where
  "recv_plat (Parked P t) = P" | "recv_plat Awaited = Native"

fun recv_who :: "recv_kind \<Rightarrow> tid" where
  "recv_who (Parked P t) = t" | "recv_who Awaited = 0"

fun recv_point :: "recv_kind \<Rightarrow> 'd point" where
  "recv_point (Parked P t) = start_point P LockBlock"
| "recv_point Awaited = start_point Native LockAsync"

fun relock_point :: "waiter \<Rightarrow> 'd point" where
  "relock_point (ParkedWaiter P t) = start_point P LockSync"
| "relock_point (AwaitedWaiter c) = start_point Native LockAsync"

fun start_call :: "'a demand \<Rightarrow> 'a cpoint" where
  "start_call (Give how v) = SLoad how v"
| "start_call (Take kind) = RLock kind (recv_point kind)"

subsection \<open>The rest of the program at each point\<close>

definition flag_or :: "'k cont_ops \<Rightarrow> nat option \<Rightarrow> (('d, 'k, 'z) condvar_scheme, unit) prog" where
  "flag_or K r = (case r of Some w \<Rightarrow> set_flag w | None \<Rightarrow> notify_one_sync K)"

definition unpark_or :: "'k cont_ops \<Rightarrow> tid option \<Rightarrow> (('d, 'k, 'z) condvar_scheme, unit) prog" where
  "unpark_or K r = (case r of Some t \<Rightarrow> unpark t | None \<Rightarrow> notify_one_async K)"

definition send_or :: "'k cont_ops \<Rightarrow> async_waiter option \<Rightarrow> (('d, 'k, 'z) condvar_scheme, unit) prog" where
  "send_or K r = (case r of Some w \<Rightarrow> send_cont K (waiter_sender w) | None \<Rightarrow> Return ())"

fun notify_code :: "'k cont_ops \<Rightarrow> npoint \<Rightarrow> (('d, 'k, 'z) condvar_scheme, unit) prog" where
  "notify_code K FSwap = notify_one K"
| "notify_code K FHint = bind (spin_hint cv_spin (pop cv_spin)) (flag_or K)"
| "notify_code K FPop = bind (section_of cv_spin (pop cv_spin)) (flag_or K)"
| "notify_code K (FRel r) = bind (unlocking cv_spin r) (flag_or K)"
| "notify_code K (FSet w) = set_flag w"
| "notify_code K TSwap = notify_one_sync K"
| "notify_code K THint = bind (spin_hint cv_sync (pop cv_sync)) (unpark_or K)"
| "notify_code K TPop = bind (section_of cv_sync (pop cv_sync)) (unpark_or K)"
| "notify_code K (TRel r) = bind (unlocking cv_sync r) (unpark_or K)"
| "notify_code K (TUnpark t) = unpark t"
| "notify_code K CSwap = notify_one_async K"
| "notify_code K CHint = bind (spin_hint cv_async (pop cv_async)) (send_or K)"
| "notify_code K CPop = bind (section_of cv_async (pop cv_async)) (send_or K)"
| "notify_code K (CRel r) = bind (unlocking cv_async r) (send_or K)"
| "notify_code K (CSend c) = send_cont K c"

definition wait_code :: "'k cont_ops \<Rightarrow> waiter \<Rightarrow> (('d, 'k, 'z) condvar_scheme, guard) prog" where
  "wait_code K w = (case w of
       ParkedWaiter P t \<Rightarrow> seq (park P t) (lock_sync P t)
     | AwaitedWaiter c \<Rightarrow> seq (await_cont K c) (lock_async K))"

definition joined :: "'k cont_ops \<Rightarrow> waiter \<Rightarrow> (('d, 'k, 'z) condvar_scheme, guard) prog" where
  "joined K w = seq (guard_drop K) (wait_code K w)"

definition join_thread ::
  "'k cont_ops \<Rightarrow> recv_kind \<Rightarrow> (('d, 'k, 'z) condvar_scheme, unit) prog \<Rightarrow>
   (('d, 'k, 'z) condvar_scheme, guard) prog" where
  "join_thread K kind p = seq p (joined K (ParkedWaiter (recv_plat kind) (recv_who kind)))"

definition join_cont ::
  "'k cont_ops \<Rightarrow> (('d, 'k, 'z) condvar_scheme, cid) prog \<Rightarrow> (('d, 'k, 'z) condvar_scheme, guard) prog" where
  "join_cont K p = bind p (\<lambda>c. joined K (AwaitedWaiter c))"

abbreviation "push_waiter c wid \<equiv>
  seq (push cv_async \<lparr>waiter_id = wid, waiter_sender = c\<rparr>) (Return c)"

fun join_code ::
  "'k cont_ops \<Rightarrow> recv_kind \<Rightarrow> jpoint \<Rightarrow> (('d, 'k, 'z) condvar_scheme, guard) prog" where
  "join_code K kind JSwap = join_thread K kind (with_mut cv_sync (push cv_sync (recv_who kind)))"
| "join_code K kind JHint = join_thread K kind (spin_hint cv_sync (push cv_sync (recv_who kind)))"
| "join_code K kind JPush = join_thread K kind (section_of cv_sync (push cv_sync (recv_who kind)))"
| "join_code K kind JRel = join_thread K kind (unlocking cv_sync ())"
| "join_code K kind JASwap = join_cont K (with_mut cv_async (join_async_list K))"
| "join_code K kind JAHint = join_cont K (spin_hint cv_async (join_async_list K))"
| "join_code K kind JANew = join_cont K (section_of cv_async (join_async_list K))"
| "join_code K kind (JAId c) =
     join_cont K (section_of cv_async (bind next_waiter_id (\<lambda>wid. push_waiter c wid)))"
| "join_code K kind (JAPush c wid) = join_cont K (section_of cv_async (push_waiter c wid))"
| "join_code K kind (JARel c) = join_cont K (unlocking cv_async c)"

fun kind_wait :: "'k cont_ops \<Rightarrow> recv_kind \<Rightarrow> (('d, 'k, 'z) condvar_scheme, guard) prog" where
  "kind_wait K (Parked P t) = wait_block K P t Guard"
| "kind_wait K Awaited = wait_async K Guard"

definition sending ::
  "'a \<Rightarrow> (('a, 'k, 'w::len, 'z) channel_scheme, 'a send_error + unit) prog \<Rightarrow>
   (('a, 'k, 'w, 'z) channel_scheme, 'a outcome) prog" where
  "sending v p = bind p (\<lambda>r. Return (sent_outcome r v))"

definition receiving ::
  "'k cont_ops \<Rightarrow> recv_kind \<Rightarrow> (('a, 'k, 'w::len, 'z) channel_scheme, (recv_error + 'a) option) prog \<Rightarrow>
   (('a, 'k, 'w, 'z) channel_scheme, 'a outcome) prog" where
  "receiving K kind p =
     bind (loop_from (recv_body K (kind_wait K kind)) p) (\<lambda>r. Return (got_outcome r))"

abbreviation "notify_then_ok K \<equiv> seq (notify_one K) (Return (Inr ()))"

fun op_code :: "'k cont_ops \<Rightarrow> 'a cpoint \<Rightarrow> (('a, 'k, 'w::len, 'z) channel_scheme, 'a outcome) prog" where
  "op_code K (SLoad how v) = sending v (send_by K how v)"
| "op_code K (SLock how p v) = acq_then K (plat how) (who how) (sending v (send_locked K v)) p"
| "op_code K (SCheck v) = sending v (send_locked K v)"
| "op_code K (SRead v) = sending v (seq (push_back v) (seq (guard_drop K) (notify_then_ok K)))"
| "op_code K (SWrite q v) =
     sending v (seq (guard_write (q @ [v])) (seq (guard_drop K) (notify_then_ok K)))"
| "op_code K (SFail p v) = sending v (drop_then K (Return (Inl (SendError v))) p)"
| "op_code K (SDrop p v) = sending v (drop_then K (notify_then_ok K) p)"
| "op_code K (SNote p v) = sending v (seq (notify_code K p) (Return (Inr ())))"
| "op_code K (RLock kind p) =
     acq_then K (recv_plat kind) (recv_who kind) (receiving K kind (recv_body K (kind_wait K kind))) p"
| "op_code K (RRead kind) = receiving K kind (recv_body K (kind_wait K kind))"
| "op_code K (RWrite kind q v) =
     receiving K kind (seq (guard_write q) (seq (guard_drop K) (break (Inr v))))"
| "op_code K (RTake kind p v) = receiving K kind (drop_then K (break (Inr v)) p)"
| "op_code K (RCount kind) = receiving K kind (bind load_count (\<lambda>n.
     if n = 0 then seq (guard_drop K) (break (Inl Disconnected)) else seq (kind_wait K kind) continue))"
| "op_code K (RGone kind p) = receiving K kind (drop_then K (break (Inl Disconnected)) p)"
| "op_code K (RJoin kind p) = receiving K kind (seq (join_code K kind p) continue)"
| "op_code K (RDrop kind w p) = receiving K kind (seq (drop_then K (wait_code K w) p) continue)"
| "op_code K (RWait kind w) = receiving K kind (seq (wait_code K w) continue)"
| "op_code K (RRelock kind w p) =
     receiving K kind (acq_then K (waiter_plat w) (waiter_who w) continue p)"
| "op_code K (RAgain kind) = receiving K kind continue"

definition rest_of ::
  "'k cont_ops \<Rightarrow> 'a outcome list \<Rightarrow> 'a demand list \<Rightarrow> 'a outcome \<Rightarrow>
   (('a, 'k, 'w::len, 'z) channel_scheme, 'a outcome list) prog" where
  "rest_of K outs todo out =
     bind (chan_client K (map call_of todo)) (\<lambda>more. Return (outs @ out # more))"

fun thread_code :: "'k cont_ops \<Rightarrow> 'a cthread \<Rightarrow> (('a, 'k, 'w::len, 'z) channel_scheme, 'a outcome list) prog" where
  "thread_code K (In p outs todo) = bind (op_code K p) (rest_of K outs todo)"
| "thread_code K (Finished outs) = Return outs"

subsection \<open>The access made from each point\<close>

definition opt_point :: "('b \<Rightarrow> npoint) \<Rightarrow> npoint option \<Rightarrow> 'b option \<Rightarrow> npoint option" where
  "opt_point found none r = (case r of Some x \<Rightarrow> Some (found x) | None \<Rightarrow> none)"

abbreviation "last_of xs \<equiv> (if xs = [] then None else Some (last xs))"

abbreviation "set_cv_sync l s \<equiv> s\<lparr>cv_sync_threads := l\<rparr>"
abbreviation "set_cv_async l s \<equiv> s\<lparr>cv_async_threads := l\<rparr>"
abbreviation "set_cv_spin l s \<equiv> s\<lparr>cv_spin_threads := l\<rparr>"

fun notify_step ::
  "'k cont_ops \<Rightarrow> npoint \<Rightarrow> ('d, 'k, 'z) condvar_scheme \<Rightarrow> ('d, 'k, 'z) condvar_scheme \<times> npoint option" where
  "notify_step K FSwap s = (set_cv_spin ((cv_spin_threads s)\<lparr>locked := True\<rparr>) s,
     Some (if locked (cv_spin_threads s) then FHint else FPop))"
| "notify_step K FHint s = (s, Some FSwap)"
| "notify_step K FPop s =
     (set_cv_spin ((cv_spin_threads s)\<lparr>data := butlast (data (cv_spin_threads s))\<rparr>) s,
      Some (FRel (last_of (data (cv_spin_threads s)))))"
| "notify_step K (FRel r) s =
     (set_cv_spin ((cv_spin_threads s)\<lparr>locked := False\<rparr>) s, opt_point FSet (Some TSwap) r)"
| "notify_step K (FSet w) s = (s\<lparr>wake_flags := (wake_flags s)(w := True)\<rparr>, None)"
| "notify_step K TSwap s = (set_cv_sync ((cv_sync_threads s)\<lparr>locked := True\<rparr>) s,
     Some (if locked (cv_sync_threads s) then THint else TPop))"
| "notify_step K THint s = (s, Some TSwap)"
| "notify_step K TPop s =
     (set_cv_sync ((cv_sync_threads s)\<lparr>data := butlast (data (cv_sync_threads s))\<rparr>) s,
      Some (TRel (last_of (data (cv_sync_threads s)))))"
| "notify_step K (TRel r) s =
     (set_cv_sync ((cv_sync_threads s)\<lparr>locked := False\<rparr>) s, opt_point TUnpark (Some CSwap) r)"
| "notify_step K (TUnpark t) s = (set_token t s, None)"
| "notify_step K CSwap s = (set_cv_async ((cv_async_threads s)\<lparr>locked := True\<rparr>) s,
     Some (if locked (cv_async_threads s) then CHint else CPop))"
| "notify_step K CHint s = (s, Some CSwap)"
| "notify_step K CPop s =
     (set_cv_async ((cv_async_threads s)\<lparr>data := butlast (data (cv_async_threads s))\<rparr>) s,
      Some (CRel (last_of (data (cv_async_threads s)))))"
| "notify_step K (CRel r) s =
     (set_cv_async ((cv_async_threads s)\<lparr>locked := False\<rparr>) s,
      opt_point (\<lambda>w. CSend (waiter_sender w)) None r)"
| "notify_step K (CSend c) s = (s\<lparr>conts := k_send K c (conts s)\<rparr>, None)"

text \<open>Joining: the next point, or the waiter that has joined.\<close>

fun join_step ::
  "'k cont_ops \<Rightarrow> recv_kind \<Rightarrow> jpoint \<Rightarrow> ('d, 'k, 'z) condvar_scheme \<Rightarrow>
   ('d, 'k, 'z) condvar_scheme \<times> (jpoint + waiter)" where
  "join_step K kind JSwap s = (set_cv_sync ((cv_sync_threads s)\<lparr>locked := True\<rparr>) s,
     Inl (if locked (cv_sync_threads s) then JHint else JPush))"
| "join_step K kind JHint s = (s, Inl JSwap)"
| "join_step K kind JPush s =
     (set_cv_sync ((cv_sync_threads s)\<lparr>data := data (cv_sync_threads s) @ [recv_who kind]\<rparr>) s, Inl JRel)"
| "join_step K kind JRel s = (set_cv_sync ((cv_sync_threads s)\<lparr>locked := False\<rparr>) s,
     Inr (ParkedWaiter (recv_plat kind) (recv_who kind)))"
| "join_step K kind JASwap s = (set_cv_async ((cv_async_threads s)\<lparr>locked := True\<rparr>) s,
     Inl (if locked (cv_async_threads s) then JAHint else JANew))"
| "join_step K kind JAHint s = (s, Inl JASwap)"
| "join_step K kind JANew s = (s\<lparr>conts := snd (k_new K (conts s))\<rparr>, Inl (JAId (fst (k_new K (conts s)))))"
| "join_step K kind (JAId c) s = (s\<lparr>async_waiter_id_counter := async_waiter_id_counter s + 1\<rparr>,
     Inl (JAPush c (async_waiter_id_counter s)))"
| "join_step K kind (JAPush c wid) s =
     (set_cv_async ((cv_async_threads s)\<lparr>data :=
        data (cv_async_threads s) @ [\<lparr>waiter_id = wid, waiter_sender = c\<rparr>]\<rparr>) s, Inl (JARel c))"
| "join_step K kind (JARel c) s =
     (set_cv_async ((cv_async_threads s)\<lparr>locked := False\<rparr>) s, Inr (AwaitedWaiter c))"

text \<open>What follows an access to the mutex: the lock is taken at the point \<open>D p\<close>, and a drop is over
  when there is no next point.\<close>

definition after_acq :: "('d point \<Rightarrow> 'p) \<Rightarrow> 'p \<Rightarrow> 'd point option \<Rightarrow> 'p" where
  "after_acq at held q = (case q of
       Some p \<Rightarrow> if acquiring p then at p else held
     | None \<Rightarrow> held)"

definition after_drop :: "('d dpoint \<Rightarrow> 'p) \<Rightarrow> 'p \<Rightarrow> 'd point option \<Rightarrow> 'p" where
  "after_drop at dropped q = (case q of Some (D p) \<Rightarrow> at p | _ \<Rightarrow> dropped)"

abbreviation "guard_step K p s \<equiv> drop_point_step K id p s"

text \<open>The result is the next point of the call, or its outcome.\<close>

fun op_step ::
  "'k cont_ops \<Rightarrow> 'a cpoint \<Rightarrow> ('a, 'k, 'w::len, 'z) channel_scheme \<Rightarrow>
   (('a, 'k, 'w, 'z) channel_scheme \<times> ('a cpoint + 'a outcome)) option" where
  "op_step K (SLoad how v) s = Some (s,
     if receiver_active s then Inl (SLock how (start_point (plat how) (acquisition_by how)) v)
     else Inr (SendFailed v))"
| "op_step K (SLock how p v) s = map_option
     (map_prod id (after_acq (\<lambda>p. Inl (SLock how p v)) (Inl (SCheck v)))) (lock_step K (plat how) (who how) p s)"
| "op_step K (SCheck v) s = Some (s, Inl (if receiver_active s then SRead v else SFail DStore v))"
| "op_step K (SRead v) s = Some (s, Inl (SWrite (inner s) v))"
| "op_step K (SWrite q v) s = Some (s\<lparr>inner := q @ [v]\<rparr>, Inl (SDrop DStore v))"
| "op_step K (SFail p v) s = map_option
     (map_prod id (after_drop (\<lambda>p. Inl (SFail p v)) (Inr (SendFailed v)))) (guard_step K p s)"
| "op_step K (SDrop p v) s = map_option
     (map_prod id (after_drop (\<lambda>p. Inl (SDrop p v)) (Inl (SNote FSwap v)))) (guard_step K p s)"
| "op_step K (SNote p v) s = (case notify_step K p s of
     (s', Some q) \<Rightarrow> Some (s', Inl (SNote q v)) | (s', None) \<Rightarrow> Some (s', Inr (SentOk v)))"
| "op_step K (RLock kind p) s = map_option
     (map_prod id (after_acq (\<lambda>p. Inl (RLock kind p)) (Inl (RRead kind))))
     (lock_step K (recv_plat kind) (recv_who kind) p s)"
| "op_step K (RRead kind) s =
     Some (s, Inl (case inner s of [] \<Rightarrow> RCount kind | v # q \<Rightarrow> RWrite kind q v))"
| "op_step K (RWrite kind q v) s = Some (s\<lparr>inner := q\<rparr>, Inl (RTake kind DStore v))"
| "op_step K (RTake kind p v) s = map_option
     (map_prod id (after_drop (\<lambda>p. Inl (RTake kind p v)) (Inr (Got v)))) (guard_step K p s)"
| "op_step K (RCount kind) s = Some (s, Inl (if sender_count s = 0 then RGone kind DStore
     else RJoin kind (case kind of Parked P t \<Rightarrow> JSwap | Awaited \<Rightarrow> JASwap)))"
| "op_step K (RGone kind p) s = map_option
     (map_prod id (after_drop (\<lambda>p. Inl (RGone kind p)) (Inr NoValue))) (guard_step K p s)"
| "op_step K (RJoin kind p) s = (case join_step K kind p s of
     (s', Inl q) \<Rightarrow> Some (s', Inl (RJoin kind q)) | (s', Inr w) \<Rightarrow> Some (s', Inl (RDrop kind w DStore)))"
| "op_step K (RDrop kind w p) s = map_option
     (map_prod id (after_drop (\<lambda>p. Inl (RDrop kind w p)) (Inl (RWait kind w)))) (guard_step K p s)"
| "op_step K (RWait kind w) s = (case w of
     ParkedWaiter P t \<Rightarrow>
       if token s t then Some (take_token t s, Inl (RRelock kind w (relock_point w)))
       else if can_block P then None else Some (s, Inl (RRelock kind w Dead))
   | AwaitedWaiter c \<Rightarrow>
       if k_ready K c (conts s) then Some (s, Inl (RRelock kind w (relock_point w))) else None)"
| "op_step K (RRelock kind w p) s = map_option
     (map_prod id (after_acq (\<lambda>p. Inl (RRelock kind w p)) (Inl (RAgain kind))))
     (lock_step K (waiter_plat w) (waiter_who w) p s)"
| "op_step K (RAgain kind) s = Some (s, Inl (RRead kind))"

fun next_call :: "'a outcome list \<Rightarrow> 'a demand list \<Rightarrow> 'a cthread" where
  "next_call outs [] = Finished outs"
| "next_call outs (call # todo) = In (start_call call) outs todo"

fun after_op :: "'a outcome list \<Rightarrow> 'a demand list \<Rightarrow> 'a cpoint + 'a outcome \<Rightarrow> 'a cthread" where
  "after_op outs todo (Inl p) = In p outs todo"
| "after_op outs todo (Inr out) = next_call (outs @ [out]) todo"

fun chan_pstep ::
  "'k cont_ops \<Rightarrow> tid \<Rightarrow> 'a cthread \<Rightarrow> ('a, 'k, 'w::len, 'z) channel_scheme \<Rightarrow>
   (('a, 'k, 'w, 'z) channel_scheme \<times> 'a cthread) option" where
  "chan_pstep K t (In p outs todo) s = map_option (map_prod id (after_op outs todo)) (op_step K p s)"
| "chan_pstep K t (Finished outs) s = None"

subsection \<open>The points are the points of the program\<close>

definition op_rest ::
  "'k cont_ops \<Rightarrow> 'a cpoint + 'a outcome \<Rightarrow> (('a, 'k, 'w::len, 'z) channel_scheme, 'a outcome) prog" where
  "op_rest K r = (case r of Inl p \<Rightarrow> op_code K p | Inr out \<Rightarrow> Return out)"

lemma op_rest_simps [simp]:
  "op_rest K (Inl p) = op_code K p" "op_rest K (Inr out) = Return out"
  by (simp_all add: op_rest_def)

lemma sending_simps [simp]:
  "running p \<Longrightarrow> running (sending v p)"
  "running p \<Longrightarrow> resume (sending v p) s = map_option (map_prod id (sending v)) (resume p s)"
  "sending v (Return r) = Return (sent_outcome r v)"
  by (simp_all add: sending_def [abs_def])

lemma receiving_simps [simp]:
  "running p \<Longrightarrow> running (receiving K kind p)"
  "running p \<Longrightarrow> resume (receiving K kind p) s = map_option (map_prod id (receiving K kind)) (resume p s)"
  "receiving K kind (Return (Some r)) = Return (got_outcome r)"
  "receiving K kind (Panic m) = Panic m"
  "running (receiving K kind continue)"
  "resume (receiving K kind continue) s = Some (s, receiving K kind (recv_body K (kind_wait K kind)))"
  by (simp_all add: receiving_def [abs_def] option.map_comp prod.map_comp comp_def id_def)

lemma acq_rest_eq:
  "acq_rest K P t k = after_acq (acq_then K P t k) k"
  by (rule ext) (simp add: acq_rest_def after_acq_def)

lemma drop_rest_eq:
  "drop_rest K k = after_drop (drop_then K k) k"
  by (rule ext) (simp add: drop_rest_def after_drop_def)

lemma after_fun:
  "f (after_acq at h q) = after_acq (\<lambda>p. f (at p)) (f h) q"
  "f (after_drop at' h' q) = after_drop (\<lambda>p. f (at' p)) (f h') q"
  by (simp_all add: after_acq_def after_drop_def split: option.splits point.splits)

lemma after_drop_bind:
  "bind (after_drop at h q) k = after_drop (\<lambda>p. bind (at p) k) (bind h k) q"
  by (simp add: after_drop_def split: option.splits point.splits)

lemma notify_one_alt: "notify_one K = bind (with_mut cv_spin (pop cv_spin)) (flag_or K)"
  by (simp add: notify_one_def flag_or_def [abs_def])

lemma notify_one_sync_alt: "notify_one_sync K = bind (with_mut cv_sync (pop cv_sync)) (unpark_or K)"
  by (simp add: notify_one_sync_def unpark_or_def [abs_def])

lemma notify_one_async_alt: "notify_one_async K = bind (with_mut cv_async (pop cv_async)) (send_or K)"
  by (simp add: notify_one_async_def send_or_def [abs_def])

lemma after_pop:
  "flag_or K (Some w) = set_flag w" "flag_or K None = notify_one_sync K"
  "unpark_or K (Some t) = unpark t" "unpark_or K None = notify_one_async K"
  "send_or K (Some aw) = send_cont K (waiter_sender aw)" "send_or K None = Return ()"
  by (simp_all add: flag_or_def unpark_or_def send_or_def)

lemma notify_code_running [simp]: "running (notify_code K p)"
  by (cases p) simp_all

lemma notify_code_step:
  "resume (notify_code K p) s = (case notify_step K p s of
     (s', Some q) \<Rightarrow> Some (s', notify_code K q) | (s', None) \<Rightarrow> Some (s', Return ()))"
  by (cases p) (auto simp: notify_one_alt notify_one_sync_alt notify_one_async_alt opt_point_def after_pop split: option.splits)

lemma join_code_running [simp]: "running (join_code K kind p)"
  by (cases p) (simp_all add: join_thread_def join_cont_def)

lemma join_code_step:
  "resume (join_code K kind p) s = (case join_step K kind p s of
     (s', Inl q) \<Rightarrow> Some (s', join_code K kind q) | (s', Inr w) \<Rightarrow> Some (s', joined K w))"
  by (cases p) (simp_all add: join_thread_def [abs_def] join_cont_def [abs_def] join_async_list_def)

lemma lock_by_start [simp]:
  "acq_then K (plat how) (who how) k (start_point (plat how) (acquisition_by how)) = seq (lock_by K how) k"
  by (cases how) (simp_all add: block_code_def async_code_def lock_sync_def some_guard_def bind_assoc)

lemma recv_lock_start [simp]:
  "acq_then K (recv_plat kind) (recv_who kind) k (recv_point kind) =
     seq (case kind of Parked P t \<Rightarrow> lock_block P t | Awaited \<Rightarrow> lock_async K) k"
  by (cases kind) (simp_all add: block_code_def async_code_def lock_sync_def some_guard_def bind_assoc)

lemma relock_start [simp]:
  "acq_then K (waiter_plat w) (waiter_who w) k (relock_point w) =
     seq (case w of ParkedWaiter P t \<Rightarrow> lock_sync P t | AwaitedWaiter c \<Rightarrow> lock_async K) k"
  by (cases w) (simp_all add: block_code_def async_code_def lock_sync_def some_guard_def bind_assoc)

lemma relock_start':
  "acq_then K P t k (relock_point (ParkedWaiter P t)) = seq (lock_sync P t) k"
  "acq_then K Native 0 k (relock_point (AwaitedWaiter c)) = seq (lock_async K) k"
  using relock_start [of K "ParkedWaiter P t" k] relock_start [of K "AwaitedWaiter c" k] by simp_all

lemma running_relock:
  "running (receiving K kind (acq_then K P t k p)) \<or> receiving K kind (acq_then K P t k p) = Panic park_blocked_msg"
  using acq_then_runs [of K P t k p] by auto

lemma resume_relock:
  "resume (receiving K kind (acq_then K P t k p)) s =
     map_option (map_prod id (receiving K kind)) (resume (acq_then K P t k p) s)"
  using acq_then_runs [of K P t k p] by (auto simp del: acq_then_step)

lemma op_code_step:
  "resume (op_code K p) s = map_option (map_prod id (op_rest K)) (op_step K p s)"
proof (cases p)
  case (SLoad how v)
  then show ?thesis by (simp add: send_by_with send_with_def) (simp add: sending_def bind_assoc)
next
  case (SLock how q v)
  then show ?thesis by (simp add: option.map_comp prod.map_comp comp_def id_def acq_rest_eq after_fun)
next
  case (SCheck v)
  then show ?thesis by (simp add: send_locked_def drop_then_store)
next
  case (SDrop q v)
  then show ?thesis by (simp add: option.map_comp prod.map_comp comp_def id_def drop_rest_eq after_fun)
next
  case (SFail q v)
  then show ?thesis by (simp add: option.map_comp prod.map_comp comp_def id_def drop_rest_eq after_fun)
next
  case (SNote q v)
  then show ?thesis by (simp add: notify_code_step split: prod.splits option.splits)
next
  case (RLock kind q)
  then show ?thesis by (simp add: option.map_comp prod.map_comp comp_def id_def acq_rest_eq after_fun)
next
  case (RRead kind)
  then show ?thesis by (simp add: recv_body_def bind_assoc split: list.splits)
next
  case (RTake kind q v)
  then show ?thesis by (simp add: option.map_comp prod.map_comp comp_def id_def drop_rest_eq after_fun)
next
  case (RCount kind)
  then show ?thesis by (cases kind) (simp_all add: drop_then_store wait_block_def wait_async_def join_thread_def join_cont_def joined_def wait_code_def)
next
  case (RGone kind q)
  then show ?thesis by (simp add: option.map_comp prod.map_comp comp_def id_def drop_rest_eq after_fun)
next
  case (RJoin kind q)
  then show ?thesis by (simp add: join_code_step joined_def drop_then_store split: prod.splits sum.splits)
next
  case (RDrop kind w q)
  then show ?thesis
    by (simp add: option.map_comp prod.map_comp comp_def id_def drop_rest_eq after_drop_bind
        after_fun(2) [where f = "receiving K kind"] after_fun(2) [where f = "op_rest K"])
next
  case (RWait kind w)
  then show ?thesis by (cases w) (simp_all add: wait_code_def relock_start' del: relock_point.simps)
next
  case (RRelock kind w q)
  then show ?thesis
    by (simp add: resume_relock option.map_comp prod.map_comp comp_def id_def acq_rest_eq
        after_fun(1) [where f = "receiving K kind"] after_fun(1) [where f = "op_rest K"])
qed (simp_all add: drop_then_store)

lemma wait_code_running [simp]: "running (wait_code K w)"
  by (cases w) (simp_all add: wait_code_def)

lemma kind_wait_running [simp]: "running (kind_wait K kind)"
  by (cases kind) simp_all

lemma op_code_runs:
  fixes c :: "(('a, 'k, 'w::len, 'z) channel_scheme, 'a outcome) prog"
  assumes "c = op_code K p"
  shows "running c \<or> c = Panic park_blocked_msg"
  unfolding assms
  by (cases p) (simp_all add: acq_then_runs running_relock send_by_with)

lemma start_call_code: "op_code K (start_call call) = run_chan_op K (call_of call)"
proof (cases call)
  case (Give how v)
  then show ?thesis by (simp add: sending_def)
next
  case (Take kind)
  show ?thesis unfolding Take start_call.simps op_code.simps recv_lock_start
    by (cases kind) (simp_all add: receiving_def recv_block_def recv_async_def recv_with_def bind_assoc)
qed

lemma next_call_code:
  "thread_code K (next_call outs todo) =
     bind (chan_client K (map call_of todo)) (\<lambda>more. Return (outs @ more))"
  by (cases todo) (simp_all add: start_call_code rest_of_def [abs_def] bind_assoc)

lemma after_op_code:
  "thread_code K (after_op outs todo r) = bind (op_rest K r) (rest_of K outs todo)"
  by (cases r) (simp_all add: next_call_code rest_of_def)

lemma thread_code_step:
  fixes s :: "('a, 'k, 'w::len, 'z) channel_scheme" and pc :: "'a cthread"
  shows "resume (thread_code K pc) s = map_option (map_prod id (thread_code K)) (chan_pstep K t pc s)"
proof (cases pc)
  case (In p outs todo)
  define c :: "(('a, 'k, 'w, 'z) channel_scheme, 'a outcome) prog" where "c = op_code K p"
  note step = op_code_step [of K p s, folded c_def]
  from op_code_runs [OF c_def] show ?thesis
  proof
    assume "running c"
    with In step show ?thesis
      by (simp add: c_def option.map_comp prod.map_comp comp_def id_def after_op_code)
  next
    assume dead: "c = Panic park_blocked_msg"
    with step have "op_step K p s = None" by (simp add: option.map_disc_iff)
    with In dead show ?thesis by (simp add: c_def)
  qed
qed simp

interpretation chan_points: pc_program "\<lambda>_. thread_code K" "chan_pstep K" for K
  by unfold_locales (rule thread_code_step)

end
