(* ===== verification/Mpsc_Protocol.thy ===== *)
theory Mpsc_Protocol
  imports Mpsc_Machine Mutex_Correct
begin

section \<open>One step of a sender or of a waiting receiver\<close>

text \<open>
  The proof that no message is left behind puts two protocols together: that of the mutex, whose
  invariant \<open>lists_inv\<close> is used for the part of each thread that it concerns (\<open>view\<close>), and that of
  the condition variable. Here are the notions of both and what one step of a thread does to
  them; the invariant and the theorem are in \<open>Mpsc_Liveness\<close>.
\<close>

subsection \<open>The part of a thread that the mutex sees\<close>

fun op_view :: "'a cpoint \<Rightarrow> 'a list point option" where
  "op_view (SLoad how v) = None"
| "op_view (SLock how p v) = Some p"
| "op_view (SFail p v) = Some (D p)"
| "op_view (SDrop p v) = Some (D p)"
| "op_view (SNote p v) = None"
| "op_view (RLock kind p) = Some p"
| "op_view (RTake kind p v) = Some (D p)"
| "op_view (RGone kind p) = Some (D p)"
| "op_view (RDrop kind w p) = Some (D p)"
| "op_view (RWait kind w) = None"
| "op_view (RRelock kind w p) = Some p"
| "op_view _ = Some (D Read)"

definition mutex_part :: "'d point option \<Rightarrow> 'd mthread" where
  "mutex_part q = next_thread id [] q"

fun view :: "'a cthread \<Rightarrow> 'a list mthread" where
  "view (In p outs todo) = mutex_part (op_view p)"
| "view (Finished outs) = Idle []"

fun after_view :: "'a cpoint + 'a outcome \<Rightarrow> 'a list mthread" where
  "after_view (Inl p) = mutex_part (op_view p)"
| "after_view (Inr out) = Idle []"

lemma mutex_part_simps [simp]:
  "mutex_part None = Idle []" "mutex_part (Some p) = At p id []"
  by (simp_all add: mutex_part_def)

text \<open>The points at which the thread holds the lock and uses the queue.\<close>

fun in_queue :: "'a cpoint \<Rightarrow> bool" where
  "in_queue (SCheck v) = True"
| "in_queue (SRead v) = True"
| "in_queue (SWrite q v) = True"
| "in_queue (RRead kind) = True"
| "in_queue (RWrite kind q v) = True"
| "in_queue (RCount kind) = True"
| "in_queue (RJoin kind p) = True"
| "in_queue (RAgain kind) = True"
| "in_queue _ = False"

lemma in_queue_view: "in_queue p \<Longrightarrow> op_view p = Some (D Read)"
  by (cases p) simp_all

subsection \<open>Where each thread can be\<close>

text \<open>\<open>lock_ok i P t p\<close>: an acquisition without a deadline that thread \<open>i\<close> may be in.\<close>

definition lock_ok :: "tid \<Rightarrow> platform \<Rightarrow> tid \<Rightarrow> 'd point \<Rightarrow> bool" where
  "lock_ok i P t p \<longleftrightarrow> acquiring p \<and> p \<noteq> Dead \<and> unconditional_point p \<and>
     (case p of B q \<Rightarrow> can_block P \<and> t = i | _ \<Rightarrow> True)"

definition drop_ok :: "'d dpoint \<Rightarrow> bool" where
  "drop_ok p \<longleftrightarrow> (case p of Read \<Rightarrow> False | Write v \<Rightarrow> False | _ \<Rightarrow> True)"

fun strategy_ok :: "tid \<Rightarrow> strategy \<Rightarrow> bool" where
  "strategy_ok i (Spinning P t) = True"
| "strategy_ok i (Blocking P t) = (can_block P \<and> t = i)"
| "strategy_ok i (Syncing P t) = (t = i)"
| "strategy_ok i Asynchronous = True"

fun kind_ok :: "recv_kind \<Rightarrow> bool" where
  "kind_ok (Parked P t) = (can_block P \<and> t = 0)"
| "kind_ok Awaited = True"

fun waiter_ok :: "recv_kind \<Rightarrow> waiter \<Rightarrow> bool" where
  "waiter_ok (Parked P t) w = (w = ParkedWaiter P t)"
| "waiter_ok Awaited w = (\<exists>c. w = AwaitedWaiter c)"

fun join_ok :: "recv_kind \<Rightarrow> jpoint \<Rightarrow> bool" where
  "join_ok (Parked P t) p = (p \<in> {JSwap, JHint, JPush, JRel})"
| "join_ok Awaited p = (p \<notin> {JSwap, JHint, JPush, JRel})"

text \<open>No one waits in the spinning list, and no one parks when the receiver awaits.\<close>

fun note_ok :: "recv_kind \<Rightarrow> npoint \<Rightarrow> bool" where
  "note_ok kind (FRel r) = (r = None)"
| "note_ok kind (FSet w) = False"
| "note_ok kind (TRel r) = (kind = Awaited \<longrightarrow> r = None)"
| "note_ok kind (TUnpark t) = (kind \<noteq> Awaited)"
| "note_ok kind _ = True"

fun point_ok :: "recv_kind \<Rightarrow> tid \<Rightarrow> 'a cpoint \<Rightarrow> bool" where
  "point_ok kd i (SLoad how v) = (i \<noteq> 0 \<and> strategy_ok i how)"
| "point_ok kd i (SLock how p v) = (i \<noteq> 0 \<and> lock_ok i (plat how) (who how) p)"
| "point_ok kd i (SCheck v) = (i \<noteq> 0)"
| "point_ok kd i (SRead v) = (i \<noteq> 0)"
| "point_ok kd i (SWrite q v) = (i \<noteq> 0)"
| "point_ok kd i (SFail p v) = False"
| "point_ok kd i (SDrop p v) = (i \<noteq> 0 \<and> drop_ok p)"
| "point_ok kd i (SNote p v) = (i \<noteq> 0 \<and> note_ok kd p)"
| "point_ok kd i (RLock kind p) = (i = 0 \<and> kind = kd \<and> lock_ok i (recv_plat kind) (recv_who kind) p)"
| "point_ok kd i (RRead kind) = (i = 0 \<and> kind = kd)"
| "point_ok kd i (RWrite kind q v) = (i = 0 \<and> kind = kd)"
| "point_ok kd i (RTake kind p v) = (i = 0 \<and> kind = kd \<and> drop_ok p)"
| "point_ok kd i (RCount kind) = (i = 0 \<and> kind = kd)"
| "point_ok kd i (RGone kind p) = False"
| "point_ok kd i (RJoin kind p) = (i = 0 \<and> kind = kd \<and> join_ok kind p)"
| "point_ok kd i (RDrop kind w p) = (i = 0 \<and> kind = kd \<and> waiter_ok kind w \<and> drop_ok p)"
| "point_ok kd i (RWait kind w) = (i = 0 \<and> kind = kd \<and> waiter_ok kind w)"
| "point_ok kd i (RRelock kind w p) =
     (i = 0 \<and> kind = kd \<and> waiter_ok kind w \<and> lock_ok i (waiter_plat w) (waiter_who w) p)"
| "point_ok kd i (RAgain kind) = (i = 0 \<and> kind = kd)"

fun demand_ok :: "recv_kind \<Rightarrow> tid \<Rightarrow> 'a demand \<Rightarrow> bool" where
  "demand_ok kd i (Give how v) = (i \<noteq> 0 \<and> strategy_ok i how)"
| "demand_ok kd i (Take kind) = (i = 0 \<and> kind = kd)"

fun thread_ok :: "recv_kind \<Rightarrow> tid \<Rightarrow> 'a cthread \<Rightarrow> bool" where
  "thread_ok kd i (In p outs todo) = (point_ok kd i p \<and> (\<forall>d\<in>set todo. demand_ok kd i d))"
| "thread_ok kd i (Finished outs) = True"

lemma drop_ok_simps [simp]:
  "drop_ok DStore" "drop_ok DSSwap" "drop_ok DSHint" "drop_ok DSTake" "drop_ok (DSRel ts)"
  "drop_ok (DWake t ts)" "drop_ok DASwap" "drop_ok DAHint" "drop_ok DATake" "drop_ok (DARel cs)"
  "drop_ok (DSend c cs)" "\<not> drop_ok Read" "\<not> drop_ok (Write v)"
  by (simp_all add: drop_ok_def)

lemma lock_ok_step:
  assumes "lock_ok i P t p" and "point_step K P t id p s = Some (s', q)"
  shows "q = Some (D Read) \<or> (\<exists>p'. q = Some p' \<and> lock_ok i P t p')"
proof (cases p)
  case (S b) with assms show ?thesis
    by (cases b) (auto simp: lock_ok_def split: if_splits option.splits)
next
  case (B b) with assms show ?thesis
    by (cases b) (auto simp: lock_ok_def split: if_splits option.splits)
next
  case (A b) with assms show ?thesis
    by (cases b) (auto simp: lock_ok_def split: if_splits option.splits)
qed (use assms in \<open>auto simp: lock_ok_def\<close>)

lemma drop_ok_step:
  assumes "drop_ok p" and "drop_point_step K id p s = Some (s', q)"
  shows "q = None \<or> (\<exists>p'. q = Some (D p') \<and> drop_ok p')"
  using assms by (cases p) (auto simp: wake_point_def send_point_def split: list.splits if_splits)

lemma lock_ok_start:
  "strategy_ok i how \<Longrightarrow> lock_ok i (plat how) (who how) (start_point (plat how) (acquisition_by how))"
  "kind_ok kind \<Longrightarrow> i = 0 \<Longrightarrow> lock_ok i (recv_plat kind) (recv_who kind) (recv_point kind)"
  "kind_ok kind \<Longrightarrow> waiter_ok kind w \<Longrightarrow> i = 0 \<Longrightarrow>
    lock_ok i (waiter_plat w) (waiter_who w) (relock_point w)"
  by ((cases how; simp add: lock_ok_def), (cases kind; simp add: lock_ok_def),
      (cases kind; auto simp: lock_ok_def))

text \<open>A step of the mutex code leaves the rest of the channel as it is.\<close>

definition channel_kept ::
  "('a, 'k, 'w::len, 'z) channel_scheme \<Rightarrow> ('a, 'k, 'w, 'z) channel_scheme \<Rightarrow> bool" where
  "channel_kept s s' \<longleftrightarrow> inner s' = inner s \<and> receiver_active s' = receiver_active s \<and>
     sender_count s' = sender_count s \<and> cv_sync_threads s' = cv_sync_threads s \<and>
     cv_async_threads s' = cv_async_threads s \<and> cv_spin_threads s' = cv_spin_threads s"

lemma lock_keeps:
  assumes "acquiring p" and "point_step K P t id p s = Some (s', q)"
  shows "channel_kept s s'"
proof (cases p)
  case (S b) with assms show ?thesis
    by (cases b) (auto simp: channel_kept_def split: if_splits)
next
  case (B b) with assms show ?thesis
    by (cases b) (auto simp: channel_kept_def take_token_def split: if_splits)
next
  case (A b) with assms show ?thesis
    by (cases b) (auto simp: channel_kept_def split: if_splits)
qed (use assms in auto)

lemma drop_keeps:
  assumes "drop_ok p" and "drop_point_step K id p s = Some (s', q)"
  shows "channel_kept s s'"
  using assms by (cases p) (auto simp: channel_kept_def set_token_def split: if_splits)

text \<open>What a step keeps of the signals: only a thread itself takes its token.\<close>

definition signals_kept :: "'k cont_ops \<Rightarrow> tid \<Rightarrow> ('k, 'z) runtime_scheme \<Rightarrow> ('k, 'z) runtime_scheme \<Rightarrow> bool" where
  "signals_kept K i s s' \<longleftrightarrow>
     (\<forall>t. token s t \<longrightarrow> t \<noteq> i \<longrightarrow> token s' t) \<and> (\<forall>c. signalled K s c \<longrightarrow> signalled K s' c)"

lemma point_signals:
  assumes "mutex_pstep K P i (At p f ops) s = Some (s', pc')"
  shows "signals_kept K i s s'"
  using conjunct1 [OF sync_effect [OF assms]] conjunct1 [OF async_effect [OF assms]]
  unfolding signals_kept_def sync_waits_def by blast

lemma drop_signals:
  assumes "drop_point_step K id p s = Some (s', q)"
  shows "signals_kept K i s s' \<and> (token s i \<longrightarrow> token s' i)"
proof -
  have "mutex_pstep K Native i (At (D p) id []) s = Some (s', next_thread id [] q)"
    using assms by simp
  from point_signals [OF this] conjunct1 [OF sync_effect [OF this]] show ?thesis
    by (simp add: sync_waits_def)
qed

subsection \<open>The invariant of the condition variable\<close>

text \<open>The waiter a receiver has registered; whether it has its signal; whether a thread is about
  to give it; and whether its entry is the next that a notification takes.\<close>

fun registered :: "'a cpoint \<Rightarrow> waiter option" where
  "registered (RJoin (Parked P t) JRel) = Some (ParkedWaiter P t)"
| "registered (RJoin kind (JARel c)) = Some (AwaitedWaiter c)"
| "registered (RDrop kind w p) = Some w"
| "registered (RWait kind w) = Some w"
| "registered _ = None"

fun woken_up :: "'k cont_ops \<Rightarrow> waiter \<Rightarrow> ('k, 'z) runtime_scheme \<Rightarrow> bool" where
  "woken_up K (ParkedWaiter P t) s = token s t"
| "woken_up K (AwaitedWaiter c) s = signalled K s c"

fun wakes_by :: "waiter \<Rightarrow> npoint \<Rightarrow> bool" where
  "wakes_by (ParkedWaiter P t) p = (p = TRel (Some t) \<or> p = TUnpark t)"
| "wakes_by (AwaitedWaiter c) p = ((\<exists>aw. p = CRel (Some aw) \<and> waiter_sender aw = c) \<or> p = CSend c)"

fun wakes :: "waiter \<Rightarrow> 'a cpoint \<Rightarrow> bool" where
  "wakes w (SNote p v) = wakes_by w p"
| "wakes w _ = False"

fun is_next :: "waiter \<Rightarrow> ('d, 'k, 'z) condvar_scheme \<Rightarrow> bool" where
  "is_next (ParkedWaiter P t) s =
     (data (cv_sync_threads s) \<noteq> [] \<and> last (data (cv_sync_threads s)) = t)"
| "is_next (AwaitedWaiter c) s =
     (data (cv_async_threads s) \<noteq> [] \<and> waiter_sender (last (data (cv_async_threads s))) = c)"

text \<open>A sender that has put its value into the queue and has yet to take an entry from the list the
  receiver waits in.\<close>

fun owes_at :: "recv_kind \<Rightarrow> npoint \<Rightarrow> bool" where
  "owes_at kd (TRel r) = (kd = Awaited)"
| "owes_at kd CSwap = (kd = Awaited)"
| "owes_at kd CHint = (kd = Awaited)"
| "owes_at kd CPop = (kd = Awaited)"
| "owes_at kd (FSet w) = False"
| "owes_at kd (TUnpark t) = False"
| "owes_at kd (CRel r) = False"
| "owes_at kd (CSend c) = False"
| "owes_at kd _ = True"

fun owes :: "recv_kind \<Rightarrow> 'a cpoint \<Rightarrow> bool" where
  "owes kd (SDrop p v) = True"
| "owes kd (SNote p v) = owes_at kd p"
| "owes kd _ = False"

text \<open>A receiver that has seen the queue empty and has not registered yet.\<close>

fun joining :: "jpoint \<Rightarrow> bool" where
  "joining JRel = False"
| "joining (JARel c) = False"
| "joining _ = True"

fun saw_empty :: "'a cpoint \<Rightarrow> bool" where
  "saw_empty (RCount kind) = True"
| "saw_empty (RJoin kind p) = joining p"
| "saw_empty _ = False"

fun at_op :: "('a cpoint \<Rightarrow> bool) \<Rightarrow> 'a cthread \<Rightarrow> bool" where
  "at_op Q (In p outs todo) = Q p"
| "at_op Q (Finished outs) = False"

fun at_next :: "('a cpoint \<Rightarrow> bool) \<Rightarrow> 'a cpoint + 'a outcome \<Rightarrow> bool" where
  "at_next Q (Inl p) = Q p"
| "at_next Q (Inr out) = False"

definition lists_ok :: "recv_kind \<Rightarrow> ('d, 'k, 'z) condvar_scheme \<Rightarrow> bool" where
  "lists_ok kd s \<longleftrightarrow> data (cv_spin_threads s) = [] \<and>
     (kd = Awaited \<longrightarrow> data (cv_sync_threads s) = [])"

lemma kept_facts:
  assumes "channel_kept s s'"
  shows "lists_ok kd s' = lists_ok kd s" and "is_next w s' = is_next w s"
    and "inner s' = inner s" and "receiver_active s' = receiver_active s"
    and "sender_count s' = sender_count s"
  using assms by (simp_all add: channel_kept_def lists_ok_def) (cases w; simp)

subsection \<open>One step and the mutex\<close>

lemma same_role_simps [simp]:
  "same_role pc pc"
  "same_role (Idle []) (At (start_point P a) id [])"
  "same_role (At (D Read) id []) (At (D DStore) id [])"
  by (simp_all add: same_role_def async_waits_def fun_eq_iff)

lemma role_of_starts [simp]:
  "same_role (Idle []) (At (recv_point kind) id [])"
  "same_role (Idle []) (At (relock_point w) id [])"
  by (cases kind; cases w; simp del: start_point.simps)+

lemma role_of_next: "same_role (after_view r) (view (after_op outs todo r))"
proof (cases r)
  case (Inr out)
  then show ?thesis
  proof (cases todo)
    case (Cons d ds)
    with Inr show ?thesis by (cases d) simp_all
  qed simp
qed simp

text \<open>The points between the acquisitions and drops are accesses of the thread's own.\<close>

fun own_point :: "'a cpoint \<Rightarrow> bool" where
  "own_point (SLoad how v) = True"
| "own_point (SNote p v) = True"
| "own_point (RWait kind w) = True"
| "own_point p = in_queue p"

lemma notify_effect:
  assumes "notify_step K p s = (s', q)"
  shows "data_lock s' = data_lock s \<and> waiting_sync_threads s' = waiting_sync_threads s \<and>
    waiting_async_threads s' = waiting_async_threads s \<and> inner s' = inner s \<and>
    (\<forall>t. token s t \<longrightarrow> token s' t) \<and> (\<forall>c. signalled K s c \<longrightarrow> signalled K s' c)"
  using assms by (cases p) (auto simp: set_token_def signalled_def cont_lawsD)

lemma notify_effect_channel:
  assumes "notify_step K p s = (s', q)"
  shows "receiver_active s' = receiver_active s \<and> sender_count s' = sender_count s"
  using assms by (cases p) (auto simp: set_token_def)

lemma join_effect:
  assumes "join_step K kind p s = (s', q)"
  shows "data_lock s' = data_lock s \<and> waiting_sync_threads s' = waiting_sync_threads s \<and>
    waiting_async_threads s' = waiting_async_threads s \<and> inner s' = inner s \<and>
    token s' = token s \<and> (\<forall>c. signalled K s c \<longrightarrow> signalled K s' c) \<and> cv_spin_threads s' = cv_spin_threads s"
  using assms by (cases p) (auto simp: signalled_def cont_lawsD)

lemma join_effect_channel:
  assumes "join_step K kind p s = (s', q)"
  shows "receiver_active s' = receiver_active s \<and> sender_count s' = sender_count s"
  using assms by (cases p) auto

lemma own_effect:
  assumes "own_point p" and "point_ok kd i p" and "kind_ok kd" and "op_step K p s = Some (s', r)"
    and "receiver_active s" and "sender_count s \<noteq> 0"
  shows "data_lock s' = data_lock s \<and> waiting_sync_threads s' = waiting_sync_threads s \<and>
    waiting_async_threads s' = waiting_async_threads s \<and> signals_kept K i s s' \<and>
    same_role (mutex_part (op_view p)) (after_view r) \<and>
    \<not> at_point sync_waits_point (mutex_part (op_view p))"
proof (cases p)
  case (SNote q v)
  with assms notify_effect [of K q s] show ?thesis
    by (auto simp: signals_kept_def split: prod.splits option.splits)
next
  case (RJoin kind q)
  with assms join_effect [of K kind q s] show ?thesis
    by (auto simp: signals_kept_def split: prod.splits sum.splits)
next
  case (RWait kind w)
  with assms show ?thesis
    by (cases kind; cases w) (auto simp: signals_kept_def take_token_def split: if_splits
      simp del: relock_point.simps)
qed (use assms in \<open>auto simp: signals_kept_def split: list.splits\<close>)

subsection \<open>One step of a call\<close>

text \<open>The value a sender is sending, and what may come of a step.\<close>

fun value_of :: "'a cpoint \<Rightarrow> 'a option" where
  "value_of (SLoad how v) = Some v"
| "value_of (SLock how p v) = Some v"
| "value_of (SCheck v) = Some v"
| "value_of (SRead v) = Some v"
| "value_of (SWrite q v) = Some v"
| "value_of (SFail p v) = Some v"
| "value_of (SDrop p v) = Some v"
| "value_of (SNote p v) = Some v"
| "value_of _ = None"

definition outcome_ok :: "'a option \<Rightarrow> 'a outcome \<Rightarrow> bool" where
  "outcome_ok x out \<longleftrightarrow> (case x of Some v \<Rightarrow> out = SentOk v | None \<Rightarrow> \<exists>v. out = Got v)"

fun result_ok :: "recv_kind \<Rightarrow> tid \<Rightarrow> 'a cpoint \<Rightarrow> 'a cpoint + 'a outcome \<Rightarrow> bool" where
  "result_ok kd i p (Inl p') = (point_ok kd i p' \<and> value_of p' = value_of p)"
| "result_ok kd i p (Inr out) = outcome_ok (value_of p) out"

fun next_registered :: "'a cpoint + 'a outcome \<Rightarrow> waiter option" where
  "next_registered (Inl p) = registered p"
| "next_registered (Inr out) = None"

text \<open>A step of an acquisition and a step of a drop, from any call.\<close>

lemma lock_step_facts:
  assumes "lock_ok i P t q" and "point_step K P t id q s = Some (s', q')"
    and "r = after_acq (\<lambda>q. Inl (at q)) (Inl held) q'"
    and "\<And>q. op_view (at q) = Some q" and "op_view held = Some (D Read)"
    and "\<And>q. lock_ok i P t q \<Longrightarrow> point_ok kd i (at q) \<and> value_of (at q) = x \<and> registered (at q) = None \<and>
      \<not> saw_empty (at q)"
    and "point_ok kd i held" and "value_of held = x" and "registered held = None" and "\<not> saw_empty held"
  shows "\<exists>p'. r = Inl p' \<and> after_view r = mutex_part q' \<and> point_ok kd i p' \<and> value_of p' = x \<and>
    registered p' = None \<and> \<not> saw_empty p'"
  using lock_ok_step [OF assms(1,2)] assms(3-)
  by (auto simp: after_acq_def lock_ok_def)

lemma op_step_cases:
  assumes "point_ok kd i p" and "kind_ok kd" and "op_step K p s = Some (s', r)"
  obtains (own) "own_point p"
  | (lock) P t q q' p' where "op_view p = Some q" "lock_ok i P t q" "point_step K P t id q s = Some (s', q')"
      "r = Inl p'" "after_view r = mutex_part q'" "point_ok kd i p'" "value_of p' = value_of p"
      "registered p' = None" "\<not> saw_empty p'" "\<not> owes kd p" "\<And>w. \<not> wakes w p"
  | (drop) q q' where "op_view p = Some (D q)" "drop_ok q" "drop_point_step K id q s = Some (s', q')"
      "after_view r = mutex_part q'" "result_ok kd i p r" "next_registered r = registered p"
      "\<not> at_next saw_empty r" "owes kd p \<Longrightarrow> at_next (owes kd) r" "\<And>w. \<not> wakes w p"
proof (cases p)
  case (SLock how q v)
  with assms(1,3) obtain q' where step: "lock_ok i (plat how) (who how) q" "i \<noteq> 0"
    "point_step K (plat how) (who how) id q s = Some (s', q')"
    "r = after_acq (\<lambda>p. Inl (SLock how p v)) (Inl (SCheck v)) q'"
    by (auto simp: lock_step_def split: if_splits)
  from lock_step_facts [OF step(1,3,4), of kd "Some v"] step(2) obtain p' where p':
    "r = Inl p'" "after_view r = mutex_part q'" "point_ok kd i p'" "value_of p' = Some v"
    "registered p' = None" "\<not> saw_empty p'" by auto
  show ?thesis by (rule that(2) [of q "plat how" "who how" q' p']) (use SLock step(1-3) p' in simp_all)
next
  case (RLock kind q)
  with assms(1,3) obtain q' where step: "lock_ok i (recv_plat kind) (recv_who kind) q" "i = 0" "kind = kd"
    "point_step K (recv_plat kind) (recv_who kind) id q s = Some (s', q')"
    "r = after_acq (\<lambda>p. Inl (RLock kind p)) (Inl (RRead kind)) q'"
    by (auto simp: lock_step_def split: if_splits)
  from lock_step_facts [OF step(1,4,5), of kd None] step(2,3) obtain p' where p':
    "r = Inl p'" "after_view r = mutex_part q'" "point_ok kd i p'" "value_of p' = None"
    "registered p' = None" "\<not> saw_empty p'" by auto
  show ?thesis by (rule that(2) [of q "recv_plat kind" "recv_who kind" q' p']) (use RLock step(1-4) p' in simp_all)
next
  case (RRelock kind w q)
  with assms(1,3) obtain q' where step: "lock_ok i (waiter_plat w) (waiter_who w) q" "i = 0" "kind = kd"
    "waiter_ok kd w" "point_step K (waiter_plat w) (waiter_who w) id q s = Some (s', q')"
    "r = after_acq (\<lambda>p. Inl (RRelock kind w p)) (Inl (RAgain kind)) q'"
    by (auto simp: lock_step_def split: if_splits)
  from lock_step_facts [OF step(1,5,6), of kd None] step(2-4) obtain p' where p':
    "r = Inl p'" "after_view r = mutex_part q'" "point_ok kd i p'" "value_of p' = None"
    "registered p' = None" "\<not> saw_empty p'" by auto
  show ?thesis by (rule that(2) [of q "waiter_plat w" "waiter_who w" q' p']) (use RRelock step(1-5) p' in simp_all)
next
  case (SDrop q v)
  with assms(1,3) obtain q' where step: "drop_ok q" "i \<noteq> 0" "drop_point_step K id q s = Some (s', q')"
    "r = after_drop (\<lambda>p. Inl (SDrop p v)) (Inl (SNote FSwap v)) q'" by auto
  with SDrop drop_ok_step [OF step(1,3)] that(3) [of q q'] show ?thesis
    by (auto simp: after_drop_def)
next
  case (RTake kind q v)
  with assms(1,3) obtain q' where step: "drop_ok q" "i = 0" "kind = kd" "drop_point_step K id q s = Some (s', q')"
    "r = after_drop (\<lambda>p. Inl (RTake kind p v)) (Inr (Got v)) q'" by auto
  with RTake drop_ok_step [OF step(1,4)] that(3) [of q q'] show ?thesis
    by (auto simp: after_drop_def outcome_ok_def)
next
  case (RDrop kind w q)
  with assms(1,3) obtain q' where step: "drop_ok q" "i = 0" "kind = kd" "waiter_ok kd w"
    "drop_point_step K id q s = Some (s', q')"
    "r = after_drop (\<lambda>p. Inl (RDrop kind w p)) (Inl (RWait kind w)) q'" by auto
  with RDrop drop_ok_step [OF step(1,5)] that(3) [of q q'] show ?thesis
    by (auto simp: after_drop_def)
qed (use assms that(1) in auto)

lemma lock_ok_own:
  assumes "lock_ok i P t q"
  shows "point_step K P t f q s = point_step K P i f q s"
  using assms by (cases q) (auto simp: lock_ok_def)

lemma view_step:
  assumes inv: "lists_inv K s vs" and vi: "vs i = mutex_part (op_view p)"
    and ok: "point_ok kd i p" "kind_ok kd" and st: "op_step K p s = Some (s', r)"
    and chan: "receiver_active s" "sender_count s \<noteq> 0"
  shows "lists_inv K s' (vs(i := after_view r))"
  using ok st
proof (cases rule: op_step_cases)
  case own
  note e = own_effect [OF own ok st chan]
  from e inv vi have "lists_inv K s (vs(i := after_view r))"
    by (intro lists_inv_relabel) simp_all
  moreover have "\<not> at_point sync_waits_point (after_view r)" using e by (auto simp: same_role_def)
  ultimately show ?thesis
    using e by (elim lists_inv_mono) (auto simp: signals_kept_def split: if_splits)
next
  case (lock P t q q' p')
  then have "mutex_pstep K P i (vs i) s = Some (s', after_view r)"
    by (simp add: vi mutex_part_def lock_ok_own)
  with inv show ?thesis by (rule lists_inv_step)
next
  case (drop q q')
  then have "mutex_pstep K Native i (vs i) s = Some (s', after_view r)"
    by (simp add: vi mutex_part_def)
  with inv show ?thesis by (rule lists_inv_step)
qed

lemma own_result:
  assumes "own_point p" and "point_ok kd i p" and "kind_ok kd" and "op_step K p s = Some (s', r)"
    and "receiver_active s" and "sender_count s \<noteq> 0" and "lists_ok kd s"
  shows "result_ok kd i p r \<and> receiver_active s' \<and> sender_count s' = sender_count s \<and> lists_ok kd s'"
proof (cases p)
  case (SLoad how v)
  with assms lock_ok_start(1) [of i how] show ?thesis by (auto simp: lists_ok_def)
next
  case (SNote q v)
  have "receiver_active s' \<and> sender_count s' = sender_count s"
    using SNote assms notify_effect_channel [of K q s] by (auto split: prod.splits option.splits)
  moreover have "result_ok kd i p r \<and> lists_ok kd s'"
    using SNote assms by (cases q)
      (auto simp: lists_ok_def opt_point_def outcome_ok_def set_token_def split: option.splits)
  ultimately show ?thesis by blast
next
  case (RJoin kind q)
  have "receiver_active s' \<and> sender_count s' = sender_count s"
    using RJoin assms join_effect_channel [of K kind q s] by (auto split: prod.splits sum.splits)
  moreover have "result_ok kd i p r \<and> lists_ok kd s'"
    using RJoin assms by (cases kind; cases q) (auto simp: lists_ok_def)
  ultimately show ?thesis by blast
next
  case (RWait kind w)
  with assms lock_ok_start(3) [of kind w i] show ?thesis
    by (cases w; cases kind) (auto simp: lists_ok_def take_token_def split: if_splits simp del: relock_point.simps)
next
  case (RCount kind)
  with assms show ?thesis by (cases kind) (auto simp: lists_ok_def)
qed (use assms in \<open>auto simp: lists_ok_def split: list.splits\<close>)

lemma op_step_result:
  assumes ok: "point_ok kd i p" "kind_ok kd" and st: "op_step K p s = Some (s', r)"
    and chan: "receiver_active s" "sender_count s \<noteq> 0" "lists_ok kd s"
  shows "result_ok kd i p r \<and> receiver_active s' \<and> sender_count s' = sender_count s \<and> lists_ok kd s'"
  using ok st
proof (cases rule: op_step_cases)
  case own
  then show ?thesis by (rule own_result) (rule ok st chan)+
next
  case (lock P t q q' p')
  with lock_keeps [of q K P t s s' q'] chan show ?thesis
    by (simp add: kept_facts lock_ok_def)
next
  case (drop q q')
  with drop_keeps [of q K s s' q'] chan show ?thesis by (simp add: kept_facts)
qed

text \<open>What a sender's step does to the queue and to the waiter of the receiver.\<close>

lemma woken_up_kept:
  assumes "signals_kept K i s s'" and "i \<noteq> 0" and "kind_ok kd" and "waiter_ok kd w"
  shows "woken_up K w s \<longrightarrow> woken_up K w s'"
  using assms by (cases kd; cases w) (auto simp: signals_kept_def)

lemma note_effect:
  assumes "notify_step K q s = (s', q')" and "note_ok kd q" and "lists_ok kd s" and "waiter_ok kd w"
  shows "(wakes_by w q \<longrightarrow> pred_option (wakes_by w) q' \<and> q' \<noteq> None \<or> woken_up K w s') \<and>
    (is_next w s \<longrightarrow> pred_option (wakes_by w) q' \<and> q' \<noteq> None \<or>
       is_next w s' \<and> (owes_at kd q \<longrightarrow> pred_option (owes_at kd) q' \<and> q' \<noteq> None))"
proof (cases kd)
  case (Parked P t)
  with assms show ?thesis
    by (cases q) (auto simp: lists_ok_def set_token_def opt_point_def split: option.splits)
next
  case Awaited
  with assms show ?thesis
    by (cases q) (auto simp: lists_ok_def set_token_def opt_point_def split: option.splits)
qed

lemma sender_effect:
  assumes ok: "point_ok kd i p" "kind_ok kd" "i \<noteq> 0" and st: "op_step K p s = Some (s', r)"
    and chan: "receiver_active s" "lists_ok kd s" and w: "waiter_ok kd w"
  shows "(inner s' = inner s \<or> in_queue p \<and> at_next (owes kd) r) \<and>
    (woken_up K w s \<longrightarrow> woken_up K w s') \<and>
    (wakes w p \<longrightarrow> at_next (wakes w) r \<or> woken_up K w s') \<and>
    (is_next w s \<longrightarrow> at_next (wakes w) r \<or> is_next w s' \<and> (owes kd p \<longrightarrow> at_next (owes kd) r))"
  using ok(1,2) st
proof (cases rule: op_step_cases)
  case own
  show ?thesis
  proof (cases p)
    case (SNote q v)
    obtain s1 q' where n: "notify_step K q s = (s1, q')" by fastforce
    then have "s1 = s'" "q' = None \<and> r = Inr (SentOk v) \<or> (\<exists>p'. q' = Some p' \<and> r = Inl (SNote p' v))"
      using st SNote by (auto split: option.splits)
    with n SNote ok note_effect [OF n, of kd w] notify_effect [OF n] chan w woken_up_kept [of K i s s' kd w]
    show ?thesis by (auto simp: signals_kept_def)
  next
    case (SWrite q v)
    with st w show ?thesis by (cases w) auto
  qed (use ok st own chan in auto)
next
  case (lock P t q q' p')
  then have "channel_kept s s'" by (auto simp: lock_ok_def intro: lock_keeps)
  moreover from lock have "signals_kept K i s s'"
    by (intro point_signals [of K P i q id "[]" s s' "mutex_part q'"]) (simp add: mutex_part_def lock_ok_own)
  ultimately show ?thesis
    using lock woken_up_kept [OF _ ok(3,2) w] by (simp add: kept_facts)
next
  case (drop q q')
  then have "channel_kept s s'" by (auto intro: drop_keeps)
  moreover have "signals_kept K i s s'" using drop_signals [OF drop(3)] by simp
  ultimately show ?thesis
    using drop woken_up_kept [OF _ ok(3,2) w] by (simp add: kept_facts)
qed

lemma registered_fits: "point_ok kd i p \<Longrightarrow> registered p = Some w \<Longrightarrow> waiter_ok kd w"
  by (cases p rule: registered.cases; cases kd) auto

text \<open>What the receiver's own step does.\<close>

lemma receiver_effect:
  assumes ok: "point_ok kd 0 p" "kind_ok kd" and st: "op_step K p s = Some (s', r)"
    and chan: "receiver_active s" "sender_count s \<noteq> 0"
  shows "(at_next saw_empty r \<longrightarrow> (saw_empty p \<or> inner s = []) \<and> inner s' = inner s) \<and>
    (\<forall>w. next_registered r = Some w \<longrightarrow> inner s' = inner s \<and>
       (registered p = Some w \<and> (woken_up K w s \<longrightarrow> woken_up K w s') \<and> (is_next w s \<longrightarrow> is_next w s') \<or>
        saw_empty p \<and> is_next w s'))"
  using ok st
proof (cases rule: op_step_cases)
  case own
  show ?thesis
  proof (cases p)
    case (RJoin kind q)
    with ok st show ?thesis
      by (cases kind; cases q) (auto simp: signalled_def split: if_splits)
  next
    case (RWait kind w)
    with st show ?thesis by (cases w) (auto split: if_splits)
  qed (use ok st own chan in \<open>auto split: list.splits recv_kind.splits\<close>)
next
  case (lock P t q q' p')
  then show ?thesis by simp
next
  case (drop q q')
  then have kept: "channel_kept s s'" by (auto intro: drop_keeps)
  have "woken_up K w s \<longrightarrow> woken_up K w s'" if "waiter_ok kd w" for w
    using drop_signals [OF drop(3), of 0] that ok(2) by (cases kd; cases w) (auto simp: signals_kept_def)
  moreover have "waiter_ok kd w" if "registered p = Some w" for w
    using ok(1) that by (rule registered_fits)
  ultimately show ?thesis using drop kept by (auto simp: kept_facts)
qed

end
