(* ===== verification/Mpsc_Liveness.thy ===== *)
theory Mpsc_Liveness
  imports Mpsc_Protocol
begin

section \<open>No message is left behind\<close>

text \<open>
  Any number of senders and one receiver that parks or awaits, under every interleaving: when
  nothing can move any more, the senders have sent everything and the receiver has either all the
  values it asked for, or has been given every value there was.
\<close>

subsection \<open>The whole invariant\<close>

fun registered_in :: "'a cthread \<Rightarrow> waiter option" where
  "registered_in (In p outs todo) = registered p"
| "registered_in (Finished outs) = None"

definition delivers ::
  "'k cont_ops \<Rightarrow> recv_kind \<Rightarrow> ('a, 'k, 'w::len, 'z) channel_scheme \<Rightarrow> (tid \<Rightarrow> 'a cthread) \<Rightarrow> bool" where
  "delivers K kd s pcs \<longleftrightarrow> (at_op saw_empty (pcs 0) \<longrightarrow> inner s = []) \<and>
     (\<forall>w. registered_in (pcs 0) = Some w \<longrightarrow>
        woken_up K w s \<or> (\<exists>t. at_op (wakes w) (pcs t)) \<or>
        is_next w s \<and> (inner s = [] \<or> (\<exists>t. at_op (owes kd) (pcs t))))"

fun given :: "'a demand \<Rightarrow> 'a option" where
  "given (Give how v) = Some v"
| "given (Take kind) = None"

definition outcomes_ok :: "'a demand list \<Rightarrow> 'a outcome list \<Rightarrow> bool" where
  "outcomes_ok = list_all2 (\<lambda>d. outcome_ok (given d))"

fun results_ok :: "'a demand list \<Rightarrow> 'a cthread \<Rightarrow> bool" where
  "results_ok ds (In p outs todo) =
     (\<exists>finished call. ds = finished @ call # todo \<and> outcomes_ok finished outs \<and> value_of p = given call)"
| "results_ok ds (Finished outs) = outcomes_ok ds outs"

definition chan_inv ::
  "'k cont_ops \<Rightarrow> recv_kind \<Rightarrow> (tid \<Rightarrow> 'a demand list) \<Rightarrow> ('a, 'k, 'w::len, 'z) channel_scheme \<Rightarrow>
   (tid \<Rightarrow> 'a cthread) \<Rightarrow> bool" where
  "chan_inv K kd ds s pcs \<longleftrightarrow> kind_ok kd \<and> lists_inv K s (\<lambda>t. view (pcs t)) \<and> receiver_active s \<and>
     sender_count s = 1 \<and> lists_ok kd s \<and>
     (\<forall>t. thread_ok kd t (pcs t) \<and> results_ok (ds t) (pcs t)) \<and> delivers K kd s pcs"

lemma start_call_facts [simp]:
  "\<not> owes kd (start_call d)" "\<not> wakes w (start_call d)" "\<not> saw_empty (start_call d)"
  "registered (start_call d) = None" "value_of (start_call d) = given d"
  by (cases d; simp)+

lemma start_call_ok: "demand_ok kd i d \<Longrightarrow> kind_ok kd \<Longrightarrow> point_ok kd i (start_call d)"
  by (cases d) (simp_all add: lock_ok_start del: recv_point.simps)

lemma after_op_facts [simp]:
  "at_op (owes kd) (after_op outs todo r) = at_next (owes kd) r"
  "at_op (wakes w) (after_op outs todo r) = at_next (wakes w) r"
  "at_op saw_empty (after_op outs todo r) = at_next saw_empty r"
  "registered_in (after_op outs todo r) = next_registered r"
  by (cases r; cases todo; simp)+

lemma thread_ok_step:
  assumes "thread_ok kd i (In p outs todo)" and "kind_ok kd" and "result_ok kd i p r"
  shows "thread_ok kd i (after_op outs todo r)"
  using assms by (cases r; cases todo) (auto simp: start_call_ok)

lemma results_ok_step:
  assumes "results_ok ds (In p outs todo)" and "result_ok kd i p r"
  shows "results_ok ds (after_op outs todo r)"
proof (cases r)
  case (Inl p')
  with assms show ?thesis by auto
next
  case (Inr out)
  from assms(1) obtain finished call where ds: "ds = (finished @ [call]) @ todo" and
    "outcomes_ok finished outs" "value_of p = given call" by auto
  with assms(2) Inr have "outcomes_ok (finished @ [call]) (outs @ [out])"
    by (simp add: outcomes_ok_def list_all2_appendI)
  then show ?thesis unfolding ds Inr by (cases todo) auto
qed

lemma role_holds: "at_op saw_empty pc \<Longrightarrow> at_point holds_point (view pc)"
proof (cases pc)
  case (In p outs todo)
  then show "at_op saw_empty pc \<Longrightarrow> ?thesis" by (cases p) simp_all
qed simp

lemma delivers_sender:
  assumes del: "delivers K kd s pcs" and pc: "pcs i = In p outs todo" and i: "i \<noteq> 0"
    and eff: "\<And>w. registered_in (pcs 0) = Some w \<Longrightarrow>
      (woken_up K w s \<longrightarrow> woken_up K w s') \<and>
      (wakes w p \<longrightarrow> at_next (wakes w) r \<or> woken_up K w s') \<and>
      (is_next w s \<longrightarrow> at_next (wakes w) r \<or> is_next w s' \<and> (owes kd p \<longrightarrow> at_next (owes kd) r))"
    and inner: "inner s' = inner s \<or> \<not> at_op saw_empty (pcs 0) \<and> at_next (owes kd) r"
  shows "delivers K kd s' (pcs(i := after_op outs todo r))"
  unfolding delivers_def
proof (intro conjI allI impI)
  assume "at_op saw_empty ((pcs(i := after_op outs todo r)) 0)"
  with i inner del show "inner s' = []" by (auto simp: delivers_def)
next
  let ?pcs = "pcs(i := after_op outs todo r)"
  have at: "at_op Q (pcs t) \<Longrightarrow> t \<noteq> i \<Longrightarrow> at_op Q (?pcs t)" for Q t by simp
  have me: "at_op (wakes w) (?pcs i) = at_next (wakes w) r" "at_op (owes kd) (?pcs i) = at_next (owes kd) r" for w
    by simp_all
  fix w assume "registered_in (?pcs 0) = Some w"
  with i have reg: "registered_in (pcs 0) = Some w" by simp
  note e = eff [OF reg]
  have wakes: "(\<exists>t. at_op (wakes w) (?pcs t)) \<or> woken_up K w s'" if "at_op (wakes w) (pcs t)" for t
  proof (cases "t = i")
    case True
    with that pc e me show ?thesis by (metis at_op.simps(1))
  qed (use that at in blast)
  have owes: "\<exists>t. at_op (owes kd) (?pcs t)" if "at_op (owes kd) (pcs t)" "owes kd p \<longrightarrow> at_next (owes kd) r" for t
  proof (cases "t = i")
    case True
    with that pc me show ?thesis by (metis at_op.simps(1))
  qed (use that at in blast)
  from del reg consider "woken_up K w s" | t where "at_op (wakes w) (pcs t)"
    | "is_next w s" "inner s = [] \<or> (\<exists>t. at_op (owes kd) (pcs t))" by (auto simp: delivers_def)
  then show "woken_up K w s' \<or> (\<exists>t. at_op (wakes w) (?pcs t)) \<or>
    is_next w s' \<and> (inner s' = [] \<or> (\<exists>t. at_op (owes kd) (?pcs t)))"
  proof cases
    case 3
    with e owes inner me show ?thesis by metis
  qed (use e wakes in blast)+
qed

lemma delivers_receiver:
  assumes del: "delivers K kd s pcs" and pc: "pcs 0 = In p outs todo"
    and eff: "(at_next saw_empty r \<longrightarrow> (saw_empty p \<or> inner s = []) \<and> inner s' = inner s) \<and>
    (\<forall>w. next_registered r = Some w \<longrightarrow> inner s' = inner s \<and>
       (registered p = Some w \<and> (woken_up K w s \<longrightarrow> woken_up K w s') \<and> (is_next w s \<longrightarrow> is_next w s') \<or>
        saw_empty p \<and> is_next w s'))"
    and none: "\<And>w. \<not> wakes w p" "\<not> owes kd p"
  shows "delivers K kd s' (pcs(0 := after_op outs todo r))"
  unfolding delivers_def
proof (intro conjI allI impI)
  assume "at_op saw_empty ((pcs(0 := after_op outs todo r)) 0)"
  with eff del pc show "inner s' = []" by (auto simp: delivers_def)
next
  let ?pcs = "pcs(0 := after_op outs todo r)"
  have at: "(\<exists>t. at_op (wakes w) (pcs t)) \<Longrightarrow> \<exists>t. at_op (wakes w) (?pcs t)"
    "(\<exists>t. at_op (owes kd) (pcs t)) \<Longrightarrow> \<exists>t. at_op (owes kd) (?pcs t)" for w
    using none pc by (metis at_op.simps(1) fun_upd_apply)+
  fix w assume "registered_in (?pcs 0) = Some w"
  then have next_w: "next_registered r = Some w" by simp
  with eff consider "registered p = Some w" "woken_up K w s \<longrightarrow> woken_up K w s'" "is_next w s \<longrightarrow> is_next w s'"
      "inner s' = inner s"
    | "saw_empty p" "is_next w s'" "inner s' = inner s" by blast
  then show "woken_up K w s' \<or> (\<exists>t. at_op (wakes w) (?pcs t)) \<or>
    is_next w s' \<and> (inner s' = [] \<or> (\<exists>t. at_op (owes kd) (?pcs t)))"
  proof cases
    case 1
    with del pc have "woken_up K w s \<or> (\<exists>t. at_op (wakes w) (pcs t)) \<or>
      is_next w s \<and> (inner s = [] \<or> (\<exists>t. at_op (owes kd) (pcs t)))" by (auto simp: delivers_def)
    with 1 at show ?thesis by metis
  next
    case 2
    with del pc have "inner s = []" by (simp add: delivers_def)
    with 2 show ?thesis by simp
  qed
qed

lemma chan_inv_step:
  assumes inv: "chan_inv K kd ds s pcs" and st: "chan_pstep K i (pcs i) s = Some (s', pc')"
  shows "chan_inv K kd ds s' (pcs(i := pc'))"
proof (cases "pcs i")
  case (In p outs todo)
  with st obtain r where r: "op_step K p s = Some (s', r)" and pc': "pc' = after_op outs todo r" by auto
  from inv have kind: "kind_ok kd" and lists: "lists_inv K s (\<lambda>t. view (pcs t))"
    and chan: "receiver_active s" "sender_count s = 1" "lists_ok kd s"
    and threads: "\<And>t. thread_ok kd t (pcs t)" "\<And>t. results_ok (ds t) (pcs t)"
    and del: "delivers K kd s pcs" by (auto simp: chan_inv_def)
  from threads(1) [of i] In have ok: "point_ok kd i p" by simp
  have count: "sender_count s \<noteq> 0" using chan(2) by simp
  note result = op_step_result [OF ok kind r chan(1) count chan(3)]
  have "lists_inv K s' ((\<lambda>t. view (pcs t))(i := after_view r))"
    using view_step [OF lists _ ok kind r chan(1) count] In by simp
  from lists_inv_relabel [OF this, of i "view pc'"]
  have "lists_inv K s' ((\<lambda>t. view (pcs t))(i := view pc'))" by (simp add: pc' role_of_next)
  moreover have "(\<lambda>t. view (pcs t))(i := view pc') = (\<lambda>t. view ((pcs(i := pc')) t))" by auto
  ultimately have "lists_inv K s' (\<lambda>t. view ((pcs(i := pc')) t))" by simp
  moreover have "thread_ok kd t ((pcs(i := pc')) t) \<and> results_ok (ds t) ((pcs(i := pc')) t)" for t
    using threads(1) [of i] threads(2) [of i] threads(1) [of t] threads(2) [of t] In result kind
      thread_ok_step results_ok_step unfolding pc' by (cases "t = i") fastforce+
  moreover have "delivers K kd s' (pcs(i := pc'))"
  proof (cases "i = 0")
    case True
    with ok have "\<not> wakes w p" "\<not> owes kd p" for w by (cases p; simp)+
    with True del In receiver_effect [OF _ kind r chan(1) count] ok show ?thesis
      unfolding pc' by (blast intro: delivers_receiver)
  next
    case False
    have waiter: "waiter_ok kd w" if "registered_in (pcs 0) = Some w" for w
    proof (cases "pcs 0")
      case (In q outs0 todo0)
      with that threads(1) [of 0] show ?thesis by (auto intro: registered_fits)
    qed (use that in simp)
    have "inner s' = inner s \<or> \<not> at_op saw_empty (pcs 0) \<and> at_next (owes kd) r"
    proof -
      from kind obtain w where "waiter_ok kd w" by (cases kd) auto
      from sender_effect [OF ok kind False r chan(1,3) this]
      have "inner s' = inner s \<or> in_queue p \<and> at_next (owes kd) r" by blast
      moreover have "\<not> at_op saw_empty (pcs 0)" if "in_queue p"
      proof
        assume "at_op saw_empty (pcs 0)"
        then have "at_point holds_point (view (pcs 0))" by (rule role_holds)
        moreover have "at_point holds_point (view (pcs i))" using In in_queue_view [OF that] by simp
        ultimately have "i = 0" using lists exclD(2) unfolding lists_inv_def by blast
        with False show False by simp
      qed
      ultimately show ?thesis by blast
    qed
    with False del In sender_effect [OF ok kind False r chan(1,3) waiter] show ?thesis
      unfolding pc' by (intro delivers_sender) blast+
  qed
  ultimately show ?thesis
    using result chan kind unfolding chan_inv_def by simp
qed (use st in simp)

lemma chan_inv_env:
  assumes inv: "chan_inv K kd ds s pcs" and env: "runtime_env K s s'"
  shows "chan_inv K kd ds s' pcs"
proof -
  have "token s t \<Longrightarrow> token s' t" and "signalled K s c \<Longrightarrow> signalled K s' c" for t c
    using env by (cases; auto simp: set_token_def signalled_def cont_lawsD)+
  then have "woken_up K w s \<Longrightarrow> woken_up K w s'" for w by (cases w) auto
  moreover have "inner s' = inner s \<and> cv_sync_threads s' = cv_sync_threads s \<and> cv_spin_threads s' = cv_spin_threads s \<and>
    cv_async_threads s' = cv_async_threads s \<and> receiver_active s' = receiver_active s \<and> sender_count s' = sender_count s"
    using env by (cases) (auto simp: set_token_def)
  moreover from this have "is_next w s' = is_next w s" for w by (cases w) simp_all
  ultimately show ?thesis
    using inv lists_inv_env [OF _ env, of "\<lambda>t. view (pcs t)"]
    unfolding chan_inv_def delivers_def lists_ok_def by (auto; blast)
qed

interpretation chan_protocol: pc_invariant "\<lambda>_. thread_code K" "chan_pstep K" "runtime_env K" "chan_inv K kd ds"
  for K kd ds
  by unfold_locales (blast intro: chan_inv_step chan_inv_env)+

subsection \<open>When nothing can move\<close>

lemma blocked_point:
  assumes ok: "point_ok kd i p" "kind_ok kd" and st: "op_step K p s = None"
  defines "v \<equiv> mutex_part (op_view p)"
  shows "(sync_waits v i i \<and> \<not> token s i \<or> (\<exists>c. async_waits v i c \<and> \<not> k_ready K c (conts s)) \<or>
      (\<exists>w. p = RWait kd w \<and> (cont_laws K \<longrightarrow> \<not> woken_up K w s))) \<and>
    \<not> at_point holds_point v \<and> \<not> at_point sync_take_point v \<and> \<not> at_point async_take_point v \<and>
    of_point to_wake_point v = {} \<and> of_point to_send_point v = {}"
proof -
  have lock: ?thesis if "op_view p = Some q" "lock_ok i P t q" "lock_step K P t q s = None" for P t q
  proof -
    from that have "point_step K P i id q s = None" "q \<noteq> Dead"
      by (auto simp: lock_step_def lock_ok_own lock_ok_def)
    from point_blocked [OF this(1)] this(2) that(1) show ?thesis
      by (auto simp: v_def sync_waits_def async_waits_def)
  qed
  have drop: "drop_point_step K id q s \<noteq> None" if "drop_ok q" for q
    using that by (cases q) simp_all
  show ?thesis
  proof (cases p)
    case (SLock how q v)
    then show ?thesis using ok st lock by auto
  next
    case (RLock kind q)
    then show ?thesis using ok st lock by auto
  next
    case (RRelock kind w q)
    then show ?thesis using ok st lock by auto
  next
    case (RWait kind w)
    then show ?thesis using ok st
      by (cases w) (auto simp: v_def signalled_def split: if_splits)
  next
    case (SNote q v)
    then show ?thesis using st by (auto split: prod.splits option.splits)
  next
    case (RJoin kind q)
    then show ?thesis using st by (auto split: prod.splits sum.splits)
  qed (use ok st drop in auto)
qed

lemma chan_stuck:
  assumes laws: "cont_laws K" and inv: "chan_inv K kd ds s pcs"
    and stuck: "\<And>t. chan_pstep K t (pcs t) s = None"
  shows "(\<exists>outs. pcs t = Finished outs \<and> outcomes_ok (ds t) outs) \<or> t = 0 \<and> inner s = []"
proof (cases "pcs t")
  case (Finished outs)
  with inv show ?thesis by (auto simp: chan_inv_def dest!: spec [of _ t])
next
  case (In p outs todo)
  from inv have kind: "kind_ok kd" and lists: "lists_inv K s (\<lambda>t. view (pcs t))"
    and threads: "\<And>t. thread_ok kd t (pcs t)" and del: "delivers K kd s pcs" by (auto simp: chan_inv_def)
  have blocked: "point_ok kd u q" "op_step K q s = None" if "pcs u = In q os td" for u q os td
    using that threads [of u] stuck [of u] by auto
  have "\<not> at_point holds_point (view (pcs u)) \<and> \<not> at_point sync_take_point (view (pcs u)) \<and>
      \<not> at_point async_take_point (view (pcs u)) \<and> of_point to_wake_point (view (pcs u)) = {} \<and>
      of_point to_send_point (view (pcs u)) = {}" for u
  proof (cases "pcs u")
    case (In q os td)
    from blocked_point [OF blocked(1) [OF In] kind blocked(2) [OF In]] In show ?thesis by simp
  qed simp
  note signalled = nobody_forgotten [OF laws lists this]
  have waiting: "\<exists>w. q = RWait kd w \<and> \<not> woken_up K w s" if "pcs u = In q os td" for u q os td
  proof -
    from that have "mutex_part (op_view q) = view (pcs u)" by simp
    from conjunct1 [OF blocked_point [OF blocked(1) [OF that] kind blocked(2) [OF that], unfolded this]]
    show ?thesis using signalled [of u] laws by blast
  qed
  from waiting [OF In] obtain w where w: "p = RWait kd w" "\<not> woken_up K w s" by blast
  with In threads [of t] have "t = 0" by simp
  have "\<not> at_op (wakes w') (pcs u) \<and> \<not> at_op (owes kd) (pcs u)" for w' u
  proof (cases "pcs u")
    case (In q os td)
    with waiting [OF this] show ?thesis by auto
  qed simp
  with del In w \<open>t = 0\<close> have "inner s = []" by (auto simp: delivers_def)
  with \<open>t = 0\<close> show ?thesis by simp
qed

subsection \<open>The channel delivers what was sent\<close>

fun parks_or_awaits :: "tid \<Rightarrow> strategy \<Rightarrow> bool" where
  "parks_or_awaits me (Spinning P t) = False"
| "parks_or_awaits me (Blocking P t) = (can_block P \<and> t = me)"
| "parks_or_awaits me (Syncing P t) = (can_block P \<and> t = me)"
| "parks_or_awaits me Asynchronous = True"

fun kind_of :: "strategy \<Rightarrow> recv_kind" where
  "kind_of Asynchronous = Awaited"
| "kind_of how = Parked (plat how) (who how)"

definition many_to_one :: "strategy \<Rightarrow> nat \<Rightarrow> (tid \<Rightarrow> (strategy \<times> 'a) list) \<Rightarrow> tid \<Rightarrow> 'a chan_op list" where
  "many_to_one how n sends t =
     (if t = 0 then replicate n (RecvOp how) else map (\<lambda>(how, v). SendOp how v) (sends t))"

definition demands :: "strategy \<Rightarrow> nat \<Rightarrow> (tid \<Rightarrow> (strategy \<times> 'a) list) \<Rightarrow> tid \<Rightarrow> 'a demand list" where
  "demands how n sends t =
     (if t = 0 then replicate n (Take (kind_of how)) else map (\<lambda>(how, v). Give how v) (sends t))"

lemma run_recv_call:
  "parks_or_awaits me how \<Longrightarrow> run_chan_op K (call_of (Take (kind_of how))) = run_chan_op K (RecvOp how)"
  by (cases how) (simp_all add: recv_sync_def recv_block_def lock_sync_def wait_sync_def)

lemma client_of_demands:
  fixes sends :: "tid \<Rightarrow> (strategy \<times> 'a) list"
  assumes "parks_or_awaits 0 how"
  shows "chan_client K (map call_of (demands how n sends t)) = chan_client K (many_to_one how n sends t)"
proof (cases "t = 0")
  case True
  have "chan_client K (replicate n (call_of (Take (kind_of how)))) = chan_client K (replicate n (RecvOp how))"
    by (induction n) (simp_all only: replicate.simps chan_client.simps run_recv_call [OF assms])
  with True show ?thesis by (simp add: demands_def many_to_one_def)
next
  case False
  have "map call_of (map (\<lambda>(how, v). Give how v) hvs) = map (\<lambda>(how, v). SendOp how v) hvs" for hvs :: "(strategy \<times> 'a) list"
    by (induction hvs) auto
  with False show ?thesis by (simp only: demands_def many_to_one_def if_False)
qed

lemma kind_ok_of: "parks_or_awaits 0 how \<Longrightarrow> kind_ok (kind_of how)"
  by (cases how) simp_all

lemma received_all: "outcomes_ok (replicate n (Take kd)) outs \<Longrightarrow> \<exists>vs. length vs = n \<and> outs = map Got vs"
proof (induction n arbitrary: outs)
  case (Suc n)
  then obtain out rest where outs: "outs = out # rest" "outcome_ok None out" "outcomes_ok (replicate n (Take kd)) rest"
    by (auto simp: outcomes_ok_def list_all2_Cons1)
  from Suc.IH [OF outs(3)] obtain vs where "length vs = n" "rest = map Got vs" by blast
  moreover from outs(2) obtain v where "out = Got v" by (auto simp: outcome_ok_def)
  ultimately show ?case using outs(1) by (intro exI [of _ "v # vs"]) simp
qed (simp add: outcomes_ok_def)

lemma sent_all: "outcomes_ok (map (\<lambda>(how, v). Give how v) hvs) outs \<Longrightarrow> outs = map (\<lambda>(how, v). SentOk v) hvs"
  by (induction hvs arbitrary: outs) (auto simp: outcomes_ok_def outcome_ok_def list_all2_Cons1)

lemma chan_inv_start:
  assumes "parks_or_awaits 0 how" and sends: "\<And>t h v. (h, v) \<in> set (sends t) \<Longrightarrow> strategy_ok t h"
  shows "chan_inv K (kind_of how) (demands how n sends) (channel_new r ids :: ('a, 'k, 'w::len) channel)
    (\<lambda>t. next_call [] (demands how n sends t))"
proof -
  let ?s = "channel_new r ids :: ('a, 'k, 'w) channel" and ?ds = "demands how n sends"
  let ?pcs = "\<lambda>t. next_call [] (?ds t)"
  note kind = kind_ok_of [OF assms(1)]
  have demand: "demand_ok (kind_of how) t d" if "d \<in> set (?ds t)" for t d
    using that sends by (auto simp: demands_def split: if_splits)
  have "lists_inv K ?s (\<lambda>t. Idle [])"
    by (auto simp: lists_inv_def covered_def promised_def sync_listed_def async_listed_def sync_waits_def
        async_waits_def spinlock_new_def channel_new_def condvar_new_def condvar.extend_def intro!: excl_none)
  moreover have "same_role (Idle []) (view (?pcs 0))"
    by (cases n) (simp_all add: demands_def del: recv_point.simps)
  ultimately have "lists_inv K ?s ((\<lambda>t. Idle [])(0 := view (?pcs 0)))" by (intro lists_inv_relabel) simp_all
  moreover have "(\<lambda>t. Idle [])(0 := view (?pcs 0)) = (\<lambda>t. view (?pcs t))"
  proof
    fix t
    have "view (?pcs t) = Idle []" if "t \<noteq> 0"
      using that by (cases "sends t") (auto simp: demands_def)
    then show "((\<lambda>t. Idle [])(0 := view (?pcs 0))) t = view (?pcs t)" by simp
  qed
  ultimately have "lists_inv K ?s (\<lambda>t. view (?pcs t))" by simp
  moreover have "thread_ok (kind_of how) t (?pcs t) \<and> results_ok (?ds t) (?pcs t)" for t
    using demand [of _ t] kind start_call_ok by (cases "?ds t") (auto simp: outcomes_ok_def)
  moreover have "delivers K (kind_of how) ?s ?pcs"
    using after_op_facts(3,4) [of "[]" "?ds 0"] by (cases "?ds 0") (simp_all add: delivers_def)
  ultimately show ?thesis
    using kind by (simp add: chan_inv_def lists_ok_def channel_new_def condvar_new_def condvar.extend_def spinlock_new_def)
qed

text \<open>C3: nothing stays in the channel while the receiver waits for it. Thread 0 receives \<open>n\<close> values,
  parking or awaiting; every other thread sends its values by any strategy. Under every
  interleaving and any spurious wakeups, if no thread can move any more then every send has
  succeeded, and the receiver either has its \<open>n\<close> values or has been handed every value: the queue
  is empty.\<close>

theorem channel_delivers:
  assumes "cont_laws K" and "parks_or_awaits 0 how" and "\<forall>t. \<forall>(h, v)\<in>set (sends t). strategy_ok t h"
    and "sys_reach (runtime_env K) (channel_new r ids :: ('a, 'k, 'w::len) channel,
      \<lambda>t. chan_client K (many_to_one how n sends t)) (s, ps)"
    and "stuck (s, ps)"
  shows "(\<forall>t. t \<noteq> 0 \<longrightarrow> ps t = Return (map (\<lambda>(h, v). SentOk v) (sends t))) \<and>
    ((\<exists>vs. length vs = n \<and> ps 0 = Return (map Got vs)) \<or> inner s = [])"
proof -
  let ?ds = "demands how n sends"
  have "sys_reach (runtime_env K) (channel_new r ids :: ('a, 'k, 'w) channel,
      \<lambda>t. thread_code K (next_call [] (?ds t))) (s, ps)"
    using assms(4) by (simp add: next_call_code client_of_demands [OF assms(2)])
  moreover have "chan_inv K (kind_of how) ?ds (channel_new r ids :: ('a, 'k, 'w) channel) (\<lambda>t. next_call [] (?ds t))"
    using assms(2,3) by (intro chan_inv_start) auto
  ultimately obtain pcs where ps: "ps = (\<lambda>t. thread_code K (pcs t))" and inv: "chan_inv K (kind_of how) ?ds s pcs"
    by (rule chan_protocol.reach_inv)
  have "chan_pstep K t (pcs t) s = None" for t
    using assms(5) ps thread_code_step [of K "pcs t" s t] by (simp add: stuck_def)
  note end_of = chan_stuck [OF assms(1) inv this]
  have "ps t = Return (map (\<lambda>(h, v). SentOk v) (sends t))" if "t \<noteq> 0" for t
    using end_of [of t] that sent_all [of "sends t"] by (auto simp: ps demands_def)
  moreover have "(\<exists>vs. length vs = n \<and> ps 0 = Return (map Got vs)) \<or> inner s = []"
    using end_of [of 0] received_all by (auto simp: ps demands_def)
  ultimately show ?thesis by blast
qed

text \<open>The receiver asks for three values, parks at once, and is sent two.\<close>

definition two_sent :: "tid \<Rightarrow> (strategy \<times> nat) list" where
  "two_sent t = (if t = 1 then [(Blocking Native 1, 7), (Asynchronous, 8)] else [])"

definition two_sent_end :: "((nat, nat \<times> nat set, 32) channel, nat outcome list) config" where
  "two_sent_end = run_schedule (replicate 20 0 @ replicate 60 1 @ replicate 60 0)
     (channel_new fresh_runtime 0, \<lambda>t. chan_client set_conts (many_to_one (Blocking Native 0) 3 two_sent t))"

lemmas many_to_one_run_defs = two_sent_end_def many_to_one_def two_sent_def cv_run_defs numeral_eq_Suc
  channel_new_def condvar.extend_def send_block_def send_async_def send_with_def send_locked_def
  recv_block_def recv_with_def recv_body_def notify_one_def notify_one_sync_def notify_one_async_def

lemma two_sent_end_facts:
  "resume (snd two_sent_end t) (fst two_sent_end) = None" "running (snd two_sent_end 0)"
  by (simp_all add: many_to_one_run_defs)

lemma channel_delivers_witness:
  "snd two_sent_end 1 = Return [SentOk 7, SentOk 8] \<and> inner (fst two_sent_end) = []"
proof -
  have "sys_reach (runtime_env set_conts) (channel_new fresh_runtime 0 :: (nat, nat \<times> nat set, 32) channel,
      \<lambda>t. chan_client set_conts (many_to_one (Blocking Native 0) 3 two_sent t)) (fst two_sent_end, snd two_sent_end)"
    unfolding two_sent_end_def by (simp only: prod.collapse run_schedule_start)
  note delivers = channel_delivers [OF set_conts_laws _ _ this]
  have "(\<forall>t. t \<noteq> 0 \<longrightarrow> snd two_sent_end t = Return (map (\<lambda>(h, v). SentOk v) (two_sent t))) \<and>
    ((\<exists>vs. length vs = 3 \<and> snd two_sent_end 0 = Return (map Got vs)) \<or> inner (fst two_sent_end) = [])"
    by (rule delivers) (auto simp: two_sent_def stuck_def two_sent_end_facts)
  then show ?thesis using two_sent_end_facts(2) by (auto simp: two_sent_def)
qed

end
