(* ===== verification/Wasm_Park.thy ===== *)
theory Wasm_Park
  imports Runtime
begin

section \<open>Parking on WebAssembly (\<open>src/wasm/wasm_utils.rs\<close>, \<open>src/wasm/thread_api.rs\<close>)\<close>

text \<open>
  Each thread has one 32-bit cell in the shared memory: 0 for no token, 1 for a token. The
  JavaScript side takes a token with a compare-exchange, or waits on the cell with
  \<open>Atomics.wait\<close>. The state is the cells, who sleeps on its cell, and a clock in milliseconds.
  \<open>Atomics.wait(i32, index, 0)\<close> compares and goes to sleep in one step; \<open>Atomics.notify\<close>
  removes one sleeper; only the owner of a cell waits on it.
\<close>

record park_cells =
  parking_state :: "tid \<Rightarrow> u32"
  sleeping :: "tid \<Rightarrow> bool"
  millis :: nat

datatype wait_result = WaitOk | NotEqual | TimedOut | Unsupported

definition compare_exchange :: "tid \<Rightarrow> u32 \<Rightarrow> u32 \<Rightarrow> (park_cells, u32) prog" where
  "compare_exchange t old new = atomic (\<lambda>s.
     (if parking_state s t = old then s\<lparr>parking_state := (parking_state s)(t := new)\<rparr> else s,
      parking_state s t))"

definition store_cell :: "tid \<Rightarrow> u32 \<Rightarrow> (park_cells, unit) prog" where
  "store_cell t v = atomic (\<lambda>s. (s\<lparr>parking_state := (parking_state s)(t := v)\<rparr>, ()))"

definition notify :: "tid \<Rightarrow> (park_cells, unit) prog" where
  "notify t = atomic (\<lambda>s. (s\<lparr>sleeping := (sleeping s)(t := False)\<rparr>, ()))"

text \<open>\<open>Atomics.wait\<close> with the time at which it gives up, if any. Where waiting is not allowed it
  throws; the \<open>catch\<close> of the callers makes that \<open>"unsupported"\<close>.\<close>

definition asleep :: "tid \<Rightarrow> nat option \<Rightarrow> (park_cells, wait_result) prog" where
  "asleep t until = Act (\<lambda>s.
     if \<not> sleeping s t then Some (s, Return WaitOk)
     else case until of
       Some w \<Rightarrow> if w \<le> millis s then Some (s\<lparr>sleeping := (sleeping s)(t := False)\<rparr>, Return TimedOut) else None
     | None \<Rightarrow> None)"

definition atomics_wait :: "platform \<Rightarrow> tid \<Rightarrow> nat option \<Rightarrow> (park_cells, wait_result) prog" where
  "atomics_wait P t timeout = Act (\<lambda>s.
     if \<not> can_block P then Some (s, Return Unsupported)
     else if parking_state s t \<noteq> 0 then Some (s, Return NotEqual)
     else Some (s\<lparr>sleeping := (sleeping s)(t := True)\<rparr>, asleep t (map_option ((+) (millis s)) timeout)))"

subsection \<open>The three JavaScript functions and their callers\<close>

definition park_wait_at_addr :: "platform \<Rightarrow> tid \<Rightarrow> (park_cells, wait_result) prog" where
  "park_wait_at_addr P t =
     bind (compare_exchange t 1 0) (\<lambda>old.
       if old = 1 then Return WaitOk
       else bind (atomics_wait P t None) (\<lambda>result.
         if result = Unsupported then Return Unsupported
         else seq (store_cell t 0) (Return result)))"

definition park_wait_timeout_at_addr :: "platform \<Rightarrow> tid \<Rightarrow> nat \<Rightarrow> (park_cells, wait_result) prog" where
  "park_wait_timeout_at_addr P t timeout_ms =
     bind (compare_exchange t 1 0) (\<lambda>old.
       if old = 1 then Return WaitOk
       else bind (atomics_wait P t (Some timeout_ms)) (\<lambda>result.
         if result = WaitOk then seq (store_cell t 0) (Return result)
         else Return result))"

definition park_notify_at_addr :: "tid \<Rightarrow> (park_cells, unit) prog" where
  "park_notify_at_addr t = seq (store_cell t 1) (notify t)"

definition or_panic :: "wait_result \<Rightarrow> (park_cells, unit) prog" where
  "or_panic result = (if result = Unsupported then Panic park_blocked_msg else Return ())"

definition wasm_park :: "platform \<Rightarrow> tid \<Rightarrow> (park_cells, unit) prog" where
  "wasm_park P t = bind (park_wait_at_addr P t) or_panic"

definition wasm_park_timeout :: "platform \<Rightarrow> tid \<Rightarrow> nat \<Rightarrow> (park_cells, unit) prog" where
  "wasm_park_timeout P t dur = bind (park_wait_timeout_at_addr P t dur) or_panic"

definition wasm_unpark :: "tid \<Rightarrow> (park_cells, unit) prog" where
  "wasm_unpark t = park_notify_at_addr t"

subsection \<open>Steps\<close>

lemma park_cell_steps [simp]:
  "running (compare_exchange t a b)" "running (store_cell t v)" "running (notify t)"
  "running (asleep t u)" "running (atomics_wait P t u)"
  "resume (compare_exchange t a b) s =
     Some (if parking_state s t = a then s\<lparr>parking_state := (parking_state s)(t := b)\<rparr> else s,
       Return (parking_state s t))"
  "resume (store_cell t v) s = Some (s\<lparr>parking_state := (parking_state s)(t := v)\<rparr>, Return ())"
  "resume (notify t) s = Some (s\<lparr>sleeping := (sleeping s)(t := False)\<rparr>, Return ())"
  "resume (asleep t u) s = (if \<not> sleeping s t then Some (s, Return WaitOk)
     else case u of
       Some w \<Rightarrow> if w \<le> millis s then Some (s\<lparr>sleeping := (sleeping s)(t := False)\<rparr>, Return TimedOut) else None
     | None \<Rightarrow> None)"
  "resume (atomics_wait P t d) s =
     (if \<not> can_block P then Some (s, Return Unsupported)
      else if parking_state s t \<noteq> 0 then Some (s, Return NotEqual)
      else Some (s\<lparr>sleeping := (sleeping s)(t := True)\<rparr>, asleep t (map_option ((+) (millis s)) d)))"
  by (simp_all add: compare_exchange_def store_cell_def notify_def asleep_def atomics_wait_def)

text \<open>The rest of the two park calls after their compare-exchange, and after waking up.\<close>

definition park_end :: "tid \<Rightarrow> wait_result \<Rightarrow> (park_cells, unit) prog" where
  "park_end t r = bind (if r = Unsupported then Return Unsupported else seq (store_cell t 0) (Return r)) or_panic"

definition park_timeout_end :: "tid \<Rightarrow> wait_result \<Rightarrow> (park_cells, unit) prog" where
  "park_timeout_end t r = bind (if r = WaitOk then seq (store_cell t 0) (Return r) else Return r) or_panic"

lemma ends_of_parks [simp]:
  "park_end t Unsupported = Panic park_blocked_msg"
  "r \<noteq> Unsupported \<Longrightarrow> park_end t r = store_cell t 0"
  "park_timeout_end t WaitOk = store_cell t 0"
  "park_timeout_end t NotEqual = Return ()" "park_timeout_end t TimedOut = Return ()"
  "park_timeout_end t Unsupported = Panic park_blocked_msg"
  by (simp_all add: park_end_def park_timeout_end_def or_panic_def bind_assoc)

definition end_of :: "tid \<Rightarrow> nat option \<Rightarrow> wait_result \<Rightarrow> (park_cells, unit) prog" where
  "end_of t d = (case d of None \<Rightarrow> park_end t | Some _ \<Rightarrow> park_timeout_end t)"

fun park_for :: "platform \<Rightarrow> tid \<Rightarrow> nat option \<Rightarrow> (park_cells, unit) prog" where
  "park_for P t None = wasm_park P t"
| "park_for P t (Some dur) = wasm_park_timeout P t dur"

lemma park_for_code:
  "park_for P t d = bind (compare_exchange t 1 0) (\<lambda>old.
     if old = 1 then Return () else bind (atomics_wait P t d) (end_of t d))"
  by (cases d) (simp_all add: wasm_park_def wasm_park_timeout_def park_wait_at_addr_def
      park_wait_timeout_at_addr_def bind_assoc or_panic_def end_of_def park_end_def [abs_def]
      park_timeout_end_def [abs_def] if_distrib [of "\<lambda>p. bind p k" for k] cong: if_cong)

end
