(* ===== verification/Wasm_Park_Refines.thy ===== *)
theory Wasm_Park_Refines
  imports Wasm_Park
begin

section \<open>The WebAssembly parking protocol implements park tokens\<close>

text \<open>
  Threads that park (with or without a timeout) and unpark each other, run on the cells of the
  WebAssembly side and, as the specification, on the park tokens of \<open>Runtime\<close>. Every reachable
  state of the first is matched by a reachable state of the second with the same tokens and clock,
  and the first is stuck only where the second is.
\<close>

datatype park_op = ParkOp "nat option" | UnparkOp tid

fun park_client :: "platform \<Rightarrow> tid \<Rightarrow> park_op list \<Rightarrow> (park_cells, unit) prog" where
  "park_client P t [] = Return ()"
| "park_client P t (ParkOp d # ops) = seq (park_for P t d) (park_client P t ops)"
| "park_client P t (UnparkOp u # ops) = seq (wasm_unpark u) (park_client P t ops)"

text \<open>The specification: the same operations on tokens.\<close>

fun token_park :: "platform \<Rightarrow> tid \<Rightarrow> nat option \<Rightarrow> ('k runtime, unit) prog" where
  "token_park P t None = park P t"
| "token_park P t (Some dur) = park_timeout P t dur"

fun token_client :: "platform \<Rightarrow> tid \<Rightarrow> park_op list \<Rightarrow> ('k runtime, unit) prog" where
  "token_client P t [] = Return ()"
| "token_client P t (ParkOp d # ops) = seq (token_park P t d) (token_client P t ops)"
| "token_client P t (UnparkOp u # ops) = seq (unpark u) (token_client P t ops)"

inductive tick_env :: "park_cells \<Rightarrow> park_cells \<Rightarrow> bool" where
  "millis s \<le> n \<Longrightarrow> tick_env s (s\<lparr>millis := n\<rparr>)"

definition cells_new :: "nat \<Rightarrow> park_cells" where
  "cells_new n = \<lparr>parking_state = (\<lambda>_. 0), sleeping = (\<lambda>_. False), millis = n\<rparr>"

subsection \<open>Control points\<close>

text \<open>The operations still to do after the current one are the last argument. \<open>AsleepAt d w\<close> sleeps
  until \<open>w\<close>; \<open>StoreAt w\<close> has woken up and is about to clear its cell.\<close>

datatype park_pc =
    ClientAt "park_op list"
  | WaitAt "nat option" "park_op list"
  | AsleepAt "nat option" "nat option" "park_op list"
  | StoreAt "nat option" "park_op list"
  | NotifyAt tid "park_op list"
  | PanickedAt

fun park_code :: "platform \<Rightarrow> tid \<Rightarrow> park_pc \<Rightarrow> (park_cells, unit) prog" where
  "park_code P t (ClientAt ops) = park_client P t ops"
| "park_code P t (WaitAt d ops) = seq (bind (atomics_wait P t d) (end_of t d)) (park_client P t ops)"
| "park_code P t (AsleepAt d w ops) = seq (bind (asleep t w) (end_of t d)) (park_client P t ops)"
| "park_code P t (StoreAt w ops) = seq (store_cell t 0) (park_client P t ops)"
| "park_code P t (NotifyAt u ops) = seq (notify u) (park_client P t ops)"
| "park_code P t PanickedAt = Panic park_blocked_msg"

fun after_wait :: "nat option \<Rightarrow> park_op list \<Rightarrow> wait_result \<Rightarrow> park_pc" where
  "after_wait d ops Unsupported = PanickedAt"
| "after_wait d ops WaitOk = StoreAt d ops"
| "after_wait d ops NotEqual = (if d = None then StoreAt None ops else ClientAt ops)"
| "after_wait d ops TimedOut = (if d = None then StoreAt None ops else ClientAt ops)"

fun park_pstep :: "platform \<Rightarrow> tid \<Rightarrow> park_pc \<Rightarrow> park_cells \<Rightarrow> (park_cells \<times> park_pc) option" where
  "park_pstep P t (ClientAt []) s = None"
| "park_pstep P t (ClientAt (ParkOp d # ops)) s =
     Some (if parking_state s t = 1
       then (s\<lparr>parking_state := (parking_state s)(t := 0)\<rparr>, ClientAt ops)
       else (s, WaitAt d ops))"
| "park_pstep P t (ClientAt (UnparkOp u # ops)) s =
     Some (s\<lparr>parking_state := (parking_state s)(u := 1)\<rparr>, NotifyAt u ops)"
| "park_pstep P t (WaitAt d ops) s =
     Some (if \<not> can_block P then (s, PanickedAt)
       else if parking_state s t \<noteq> 0 then (s, after_wait d ops NotEqual)
       else (s\<lparr>sleeping := (sleeping s)(t := True)\<rparr>, AsleepAt d (map_option ((+) (millis s)) d) ops))"
| "park_pstep P t (AsleepAt d w ops) s =
     (if \<not> sleeping s t then Some (s, StoreAt w ops)
      else case w of
        None \<Rightarrow> None
      | Some w' \<Rightarrow> if w' \<le> millis s
          then Some (s\<lparr>sleeping := (sleeping s)(t := False)\<rparr>, if d = None then StoreAt None ops else ClientAt ops) else None)"
| "park_pstep P t (StoreAt w ops) s =
     Some (s\<lparr>parking_state := (parking_state s)(t := 0)\<rparr>, ClientAt ops)"
| "park_pstep P t (NotifyAt u ops) s = Some (s\<lparr>sleeping := (sleeping s)(u := False)\<rparr>, ClientAt ops)"
| "park_pstep P t PanickedAt s = None"

lemma end_of_simps [simp]:
  "end_of t d Unsupported = Panic park_blocked_msg"
  "end_of t d WaitOk = store_cell t 0"
  "end_of t d NotEqual = (if d = None then store_cell t 0 else Return ())"
  "end_of t d TimedOut = (if d = None then store_cell t 0 else Return ())"
  by (cases d; simp add: end_of_def)+

lemma park_code_step:
  "resume (park_code P t pc) s = map_option (map_prod id (park_code P t)) (park_pstep P t pc s)"
  by (induction P t pc s rule: park_pstep.induct)
    (auto simp: park_for_code wasm_unpark_def park_notify_at_addr_def split: option.splits)

subsection \<open>The matching specification state\<close>

definition tokens :: "'k runtime \<Rightarrow> park_cells \<Rightarrow> 'k runtime" where
  "tokens r s = r\<lparr>token := (\<lambda>t. parking_state s t = 1), clock := millis s\<rparr>"

lemma tokens_fields [simp]:
  "token (tokens r s) t \<longleftrightarrow> parking_state s t = 1" "clock (tokens r s) = millis s"
  "tokens r (s\<lparr>sleeping := z\<rparr>) = tokens r s"
  by (simp_all add: tokens_def)

lemma tokens_store:
  "tokens r (s\<lparr>parking_state := (parking_state s)(t := 1)\<rparr>) = set_token t (tokens r s)"
  "tokens r (s\<lparr>parking_state := (parking_state s)(t := 0)\<rparr>) = take_token t (tokens r s)"
  by (simp_all add: tokens_def set_token_def take_token_def fun_eq_iff runtime.surjective)

lemma set_token_again: "parking_state s t = 1 \<Longrightarrow> set_token t (take_token t (tokens r s)) = tokens r s"
proof -
  assume "parking_state s t = 1"
  then have "(\<lambda>t. parking_state s t = 1)(t := True) = (\<lambda>t. parking_state s t = 1)"
    by (simp add: fun_eq_iff)
  then show ?thesis by (simp add: tokens_def set_token_def take_token_def)
qed

fun token_asleep :: "platform \<Rightarrow> tid \<Rightarrow> nat option \<Rightarrow> ('k runtime, unit) prog" where
  "token_asleep P t None = park P t"
| "token_asleep P t (Some w) = park_until P t w"

text \<open>An operation takes effect in the specification: parking when the cell is cleared or the time
  is over, unparking when the cell is set; where waiting is impossible the park that finds no token
  panics at once.\<close>

fun token_code :: "platform \<Rightarrow> tid \<Rightarrow> park_pc \<Rightarrow> ('k runtime, unit) prog" where
  "token_code P t (ClientAt ops) = token_client P t ops"
| "token_code P t (WaitAt d ops) =
     (if can_block P then token_client P t (ParkOp d # ops) else Panic park_blocked_msg)"
| "token_code P t (AsleepAt d w ops) = seq (token_asleep P t w) (token_client P t ops)"
| "token_code P t (StoreAt w ops) = seq (token_asleep P t w) (token_client P t ops)"
| "token_code P t (NotifyAt u ops) = token_client P t ops"
| "token_code P t PanickedAt = Panic park_blocked_msg"

fun asleep_at :: "park_pc \<Rightarrow> bool" where
  "asleep_at (AsleepAt d w ops) = True"
| "asleep_at _ = False"

fun pc_ok :: "platform \<Rightarrow> park_pc \<Rightarrow> bool" where
  "pc_ok P (AsleepAt d w ops) \<longleftrightarrow> (d = None \<longleftrightarrow> w = None) \<and> can_block P"
| "pc_ok P (StoreAt w ops) \<longleftrightarrow> can_block P"
| "pc_ok P _ \<longleftrightarrow> True"

lemma token_asleep_takes:
  "token s t \<Longrightarrow> resume (token_asleep P t w) s = Some (take_token t s, Return ())"
  by (cases w) simp_all

lemma running_token_asleep [simp]: "running (token_asleep P t w)"
  by (cases w) simp_all

lemma solo_take_and_return:
  assumes "parking_state s t = 1"
  shows "solo (runtime_env K) (seq (token_asleep P t w) p) (tokens r s) p (tokens r s)"
proof (rule solo_step)
  show "resume (seq (token_asleep P t w) p) (tokens r s) = Some (take_token t (tokens r s), p)"
    using assms by (simp add: token_asleep_takes)
  have "runtime_env K (take_token t (tokens r s)) (tokens r s)"
    using stray_token [of K "take_token t (tokens r s)" t] by (simp only: set_token_again [OF assms])
  then show "solo (runtime_env K) p (take_token t (tokens r s)) p (tokens r s)"
    by (rule solo_env) (rule solo_here)
qed

lemma solo_take:
  "solo (runtime_env K) (seq (token_asleep P t w) p) (tokens r s) p (take_token t (tokens r s))"
proof (rule solo_env)
  show "runtime_env K (tokens r s) (set_token t (tokens r s))" by (rule stray_token)
  have "take_token t (set_token t (tokens r s)) = take_token t (tokens r s)"
    by (simp add: take_token_def set_token_def)
  then have "resume (seq (token_asleep P t w) p) (set_token t (tokens r s)) = Some (take_token t (tokens r s), p)"
    using token_asleep_takes [of "set_token t (tokens r s)" t P w] by (simp add: set_token_def)
  then show "solo (runtime_env K) (seq (token_asleep P t w) p) (set_token t (tokens r s)) p (take_token t (tokens r s))"
    by (rule solo_step) (rule solo_here)
qed

text \<open>A timed park first reads the clock.\<close>

lemma solo_enter:
  assumes "solo (runtime_env K) (seq (token_asleep P t (map_option ((+) (millis s)) d)) p) (tokens r s) q s'"
  shows "solo (runtime_env K) (seq (token_park P t d) p) (tokens r s) q s'"
proof (cases d)
  case (Some dur)
  show ?thesis
    by (rule solo_step [of _ _ "tokens r s" "seq (token_asleep P t (map_option ((+) (millis s)) d)) p"])
      (use assms Some in simp_all)
qed (use assms in simp)

lemma token_step_simulated:
  assumes "park_pstep P t pc s = Some (s', pc')" and "pc_ok P pc" and "\<forall>u. parking_state s u \<in> {0, 1}"
  shows "solo (runtime_env K) (token_code P t pc) (tokens r s) (token_code P t pc') (tokens r s')"
  using assms
proof (induction P t pc s rule: park_pstep.induct)
  case (2 P t d ops s)
  show ?case
  proof (cases "parking_state s t = 1")
    case True
    have "solo (runtime_env K) (seq (token_asleep P t (map_option ((+) (millis s)) d)) (token_client P t ops))
        (tokens r s) (token_client P t ops) (take_token t (tokens r s))"
      by (rule solo_take)
    from solo_enter [OF this] show ?thesis using 2 True by (auto simp: tokens_store)
  next
    case False
    have "solo (runtime_env K) (seq (token_asleep P t (map_option ((+) (millis s)) d)) (token_client P t ops))
        (tokens r s) (Panic park_blocked_msg) (tokens r s)" if "\<not> can_block P"
      by (rule solo_step [OF _ solo_here]) (use False that in \<open>cases d; simp\<close>)
    from solo_enter [OF this] show ?thesis using 2 False by (auto intro: solo_here)
  qed
next
  case (4 P t d ops s)
  show ?case
  proof (cases "can_block P \<and> d \<noteq> None \<or> can_block P \<and> parking_state s t = 0")
    case True
    have "solo (runtime_env K) (seq (token_asleep P t (map_option ((+) (millis s)) d)) (token_client P t ops))
        (tokens r s) (token_client P t ops) (tokens r s)" if "parking_state s t = 1"
      using that by (rule solo_take_and_return)
    moreover have "solo (runtime_env K) (seq (token_asleep P t (map_option ((+) (millis s)) d)) (token_client P t ops))
        (tokens r s) (seq (token_asleep P t (map_option ((+) (millis s)) d)) (token_client P t ops)) (tokens r s)"
      by (rule solo_here)
    ultimately show ?thesis
      using 4 True solo_enter [of K P t s d "token_client P t ops" r] by (auto split: if_splits)
  next
    case False
    then show ?thesis using 4 by (auto intro: solo_here split: if_splits)
  qed
next
  case (5 P t d w ops s)
  have "solo (runtime_env K) (seq (token_asleep P t w) (token_client P t ops)) (tokens r s)
      (token_client P t ops) (tokens r s)" if "w = Some w'" "w' \<le> millis s" for w'
  proof (cases "parking_state s t = 1")
    case True
    then show ?thesis by (rule solo_take_and_return)
  next
    case False
    show ?thesis by (rule solo_step [OF _ solo_here]) (use 5(2) False that in simp)
  qed
  then show ?case using 5 by (auto intro: solo_here split: if_splits option.splits)
next
  case (3 P t u ops s)
  then show ?case by (auto simp: tokens_store intro: solo_step [OF _ solo_here])
next
  case (6 P t w ops s)
  then show ?case by (auto simp: tokens_store solo_take)
next
  case (7 P t u ops s)
  then show ?case by (auto intro: solo_here)
qed simp_all

subsection \<open>The invariant\<close>

definition park_inv ::
  "'k cont_ops \<Rightarrow> platform \<Rightarrow> 'k runtime \<Rightarrow> ('k runtime, unit) config \<Rightarrow> park_cells \<Rightarrow> (tid \<Rightarrow> park_pc) \<Rightarrow> bool"
  where
  "park_inv K P r c0 s pcs \<longleftrightarrow>
     (\<forall>t. parking_state s t \<in> {0, 1}) \<and> (\<forall>t. pc_ok P (pcs t)) \<and>
     (\<forall>t. sleeping s t \<longrightarrow> asleep_at (pcs t)) \<and>
     (\<forall>t. sleeping s t \<and> parking_state s t = 1 \<longrightarrow> (\<exists>u ops. pcs u = NotifyAt t ops)) \<and>
     sys_reach (runtime_env K) c0 (tokens r s, \<lambda>t. token_code P t (pcs t))"

lemma park_cells_step:
  assumes "park_pstep P i pc s = Some (s', pc')" and "\<forall>t. parking_state s t \<in> {0, 1}" and "pc_ok P pc"
    and "sleeping s i \<longrightarrow> asleep_at pc"
  shows "\<forall>t. parking_state s' t \<in> {0, 1}" and "pc_ok P pc'" and "sleeping s' i \<longrightarrow> asleep_at pc'"
    and "t \<noteq> i \<Longrightarrow> sleeping s' t \<Longrightarrow> sleeping s t"
    and "sleeping s' t \<Longrightarrow> parking_state s' t = 1 \<Longrightarrow>
      (\<exists>ops. pc' = NotifyAt t ops) \<or> sleeping s t \<and> parking_state s t = 1 \<and> (\<forall>ops. pc \<noteq> NotifyAt t ops)"
  using assms
  by (induction P i pc s rule: park_pstep.induct; auto split: if_splits option.splits)+

lemma park_inv_move:
  assumes "park_inv K P r c0 s pcs" and "park_pstep P i (pcs i) s = Some (s', pc')"
  shows "park_inv K P r c0 s' (pcs(i := pc'))"
proof -
  have I: "\<forall>t. parking_state s t \<in> {0, 1}" "\<forall>t. pc_ok P (pcs t)" "\<forall>t. sleeping s t \<longrightarrow> asleep_at (pcs t)"
    "\<And>t. sleeping s t \<Longrightarrow> parking_state s t = 1 \<Longrightarrow> \<exists>u ops. pcs u = NotifyAt t ops"
    "sys_reach (runtime_env K) c0 (tokens r s, \<lambda>t. token_code P t (pcs t))"
    using assms(1) by (auto simp: park_inv_def)
  note step = park_cells_step [OF assms(2) I(1)]
  have ok: "pc_ok P (pcs i)" "sleeping s i \<longrightarrow> asleep_at (pcs i)" using I by auto
  have code: "(\<lambda>t. token_code P t ((pcs(i := pc')) t)) = (\<lambda>t. token_code P t (pcs t))(i := token_code P i pc')"
    by auto
  have "solo (runtime_env K) (token_code P i (pcs i)) (tokens r s) (token_code P i pc') (tokens r s')"
    by (rule token_step_simulated [OF assms(2) ok(1) I(1)])
  from solo_reach [OF this I(5)] have "sys_reach (runtime_env K) c0 (tokens r s', \<lambda>t. token_code P t ((pcs(i := pc')) t))"
    unfolding code by simp
  moreover have "\<exists>u ops. (pcs(i := pc')) u = NotifyAt t ops" if "sleeping s' t" "parking_state s' t = 1" for t
    using step(5) [OF ok that] I(4) [of t] by (metis fun_upd_apply)
  moreover have "sleeping s' t \<longrightarrow> asleep_at ((pcs(i := pc')) t)" for t
    using step(3,4) [OF ok] I(3) by auto
  ultimately show ?thesis using step(1,2) [OF ok] I(2) unfolding park_inv_def by auto
qed

lemma park_inv_tick:
  assumes "park_inv K P r c0 s pcs" and "tick_env s s'"
  shows "park_inv K P r c0 s' pcs"
proof -
  obtain n where s': "s' = s\<lparr>millis := n\<rparr>" "millis s \<le> n" using assms(2) by (auto elim: tick_env.cases)
  have eq: "tokens r s' = tokens r s\<lparr>clock := n\<rparr>" by (simp add: tokens_def s'(1))
  have "runtime_env K (tokens r s) (tokens r s')"
    unfolding eq by (rule tick) (simp add: s'(2))
  moreover have "sys_reach (runtime_env K) c0 (tokens r s, \<lambda>t. token_code P t (pcs t))"
    using assms(1) by (simp add: park_inv_def)
  ultimately have "sys_reach (runtime_env K) c0 (tokens r s', \<lambda>t. token_code P t (pcs t))"
    by (blast intro: reach_next env_step)
  with assms(1) show ?thesis by (simp add: park_inv_def s'(1))
qed

interpretation wasm_park: pc_invariant "park_code P" "park_pstep P" tick_env "park_inv K P r c0"
  for P K r c0
  by unfold_locales (fact park_code_step, fact park_inv_move, fact park_inv_tick)

definition park_system :: "nat \<Rightarrow> platform \<Rightarrow> (tid \<Rightarrow> park_op list) \<Rightarrow> (park_cells, unit) config" where
  "park_system n P ops = (cells_new n, \<lambda>t. park_client P t (ops t))"

definition token_system :: "'k runtime \<Rightarrow> platform \<Rightarrow> (tid \<Rightarrow> park_op list) \<Rightarrow> ('k runtime, unit) config" where
  "token_system r P ops = (r, \<lambda>t. token_client P t (ops t))"

lemma park_inv_start:
  assumes "token r = (\<lambda>_. False)"
  shows "park_inv K P r (token_system r P ops) (cells_new (clock r)) (\<lambda>t. ClientAt (ops t))"
proof -
  have "tokens r (cells_new (clock r)) = r" using assms by (simp add: tokens_def cells_new_def)
  then show ?thesis
    by (simp add: park_inv_def cells_new_def token_system_def reach_start)
qed

lemma park_code_alive: "pc \<noteq> ClientAt [] \<Longrightarrow> pc \<noteq> PanickedAt \<Longrightarrow> running (park_code P t pc)"
  by (induction P t pc "cells_new 0" rule: park_pstep.induct)
    (simp_all add: park_for_code wasm_unpark_def park_notify_at_addr_def)

lemma park_code_running:
  "park_code P t pc = Return () \<Longrightarrow> pc = ClientAt []"
  "park_code P t pc = Panic m \<Longrightarrow> pc = PanickedAt \<and> m = park_blocked_msg"
  using park_code_alive [of pc P t] by (cases "pc = ClientAt []"; cases "pc = PanickedAt"; force)+

lemma token_stuck:
  assumes inv: "park_inv K P r c0 s pcs" and st: "\<And>t. park_pstep P t (pcs t) s = None"
  shows "resume (token_code P t (pcs t)) (tokens r s) = None"
proof -
  have no: "pcs u \<noteq> NotifyAt t ops" for u t ops using st [of u] by auto
  have "parking_state s t \<noteq> 1" if "sleeping s t" using inv no that by (auto simp: park_inv_def)
  moreover have "pc_ok P (pcs t)" using inv by (simp add: park_inv_def)
  ultimately show ?thesis using st [of t]
    by (cases "(P, t, pcs t, s)" rule: park_pstep.cases) (auto split: if_splits option.splits)
qed


text \<open>Two threads: thread 0 parks and sleeps, thread 1 unparks it, and thread 0 wakes up only after
  both halves of the unpark.\<close>

definition park_and_unpark :: "tid \<Rightarrow> park_op list" where
  "park_and_unpark t = (if t = 0 then [ParkOp None] else if t = 1 then [UnparkOp 0] else [])"

definition unparked_end :: "(park_cells, unit) config" where
  "unparked_end = run_schedule [0, 0, 1, 0, 1, 0, 0] (park_system 0 Native park_and_unpark)"

lemma unparked_end_facts:
  "snd unparked_end = (\<lambda>_. Return ())" "parking_state (fst unparked_end) t = 0"
  unfolding unparked_end_def
  by (auto simp: park_system_def park_and_unpark_def cells_new_def park_for_code wasm_unpark_def
      park_notify_at_addr_def fun_eq_iff)


text \<open>A token is kept until the next \<open>park\<close>, which takes it and returns at once; tokens do not
  add up, so two unparks are worth one; and where the platform cannot wait, \<open>park\<close> without a
  token panics and leaves the cell alone.\<close>

lemma unpark_then_park:
  assumes "parking_state s t = 0"
  shows "ends (seq (wasm_unpark t) (wasm_park P t)) s (Return ()) (s\<lparr>sleeping := (sleeping s)(t := False)\<rparr>) \<and>
    ends (seq (wasm_unpark t) (seq (wasm_unpark t) (wasm_park P t))) s (Return ())
      (s\<lparr>sleeping := (sleeping s)(t := False)\<rparr>) \<and>
    (\<not> can_block P \<longrightarrow> ends (wasm_park P t) s (Panic park_blocked_msg) s)"
proof (intro conjI impI)
  have same: "s\<lparr>sleeping := z, parking_state := (parking_state s)(t := 0)\<rparr> = s\<lparr>sleeping := z\<rparr>" for z
    using assms by (simp add: fun_upd_idem)
  note park = park_for_code [of P t None, simplified] wasm_unpark_def park_notify_at_addr_def
  show "ends (seq (wasm_unpark t) (wasm_park P t)) s (Return ()) (s\<lparr>sleeping := (sleeping s)(t := False)\<rparr>)"
    by (rule run_alone_ends [of 3]) (simp_all add: park numeral_eq_Suc same)
  show "ends (seq (wasm_unpark t) (seq (wasm_unpark t) (wasm_park P t))) s (Return ())
      (s\<lparr>sleeping := (sleeping s)(t := False)\<rparr>)"
    by (rule run_alone_ends [of 5]) (simp_all add: park numeral_eq_Suc same)
  show "ends (wasm_park P t) s (Panic park_blocked_msg) s" if "\<not> can_block P"
    by (rule run_alone_ends [of 2]) (use that assms in \<open>simp_all add: park numeral_eq_Suc\<close>)
qed

lemma unpark_then_park_witness:
  "\<exists>s. ends (seq (wasm_unpark 3) (wasm_park Native 3)) (cells_new 7) (Return ()) s"
  using unpark_then_park [of "cells_new 7" 3 Native] by (auto simp: cells_new_def)

text \<open>The same race with and without a timeout: thread 0 finds no token, thread 1 unparks it, and only
  then does thread 0 call \<open>Atomics.wait\<close>, which returns \<open>"not-equal"\<close>.\<close>

definition timed_and_unpark :: "nat option \<Rightarrow> tid \<Rightarrow> park_op list" where
  "timed_and_unpark d t = (if t = 0 then [ParkOp d] else if t = 1 then [UnparkOp 0] else [])"

definition late_token_end :: "nat option \<Rightarrow> (park_cells, unit) config" where
  "late_token_end d = run_schedule [0, 1, 1, 0, 0] (park_system 0 Native (timed_and_unpark d))"

lemma late_token_facts:
  "snd (late_token_end None) = (\<lambda>_. Return ())" "parking_state (fst (late_token_end None)) 0 = 0"
  "snd (late_token_end (Some 5)) = (\<lambda>_. Return ())" "parking_state (fst (late_token_end (Some 5))) 0 = 1"
  unfolding late_token_end_def
  by (auto simp: park_system_def timed_and_unpark_def cells_new_def park_for_code wasm_unpark_def
      park_notify_at_addr_def fun_eq_iff end_of_def)


end
