(* ===== verification/Wasm_Exit.thy ===== *)
theory Wasm_Exit
  imports Runtime
begin

section \<open>Waiting for a worker's exit (\<open>wait_for_exit_async\<close> and \<open>signalExit\<close> in \<open>src/wasm.rs\<close>)\<close>

text \<open>
  The handle's asynchronous join waits for the exit code in shared memory to become non-zero. This
  theory has the JavaScript protocol access by access: a store and a notification on one side, and
  on the other \<open>Atomics.waitAsync\<close>, or polling where it is missing. \<open>wait_for_exit\<close> of
  \<open>Wasm_Threads\<close> is its abstraction: one access that blocks until the code is there.
\<close>

text \<open>The cell with the code, whether a \<open>waitAsync\<close> is registered on it, and whether its promise is
  resolved.\<close>

record exit_cell =
  cell_code :: u32
  waiting :: bool
  resolved :: bool

definition exit_cell_new :: exit_cell where
  "exit_cell_new = \<lparr>cell_code = 0, waiting = False, resolved = False\<rparr>"

subsection \<open>The two sides\<close>

definition js_store :: "u32 \<Rightarrow> (exit_cell, unit) prog" where
  "js_store code = atomic (\<lambda>s. (s\<lparr>cell_code := code\<rparr>, ()))"

definition js_load :: "(exit_cell, u32) prog" where
  "js_load = atomic (\<lambda>s. (s, cell_code s))"

text \<open>\<open>Atomics.notify\<close> wakes a registered waiter; \<open>Atomics.waitAsync\<close> registers one unless the value has
  changed, and says whether it did.\<close>

definition js_notify :: "(exit_cell, unit) prog" where
  "js_notify = atomic (\<lambda>s. (if waiting s then s\<lparr>waiting := False, resolved := True\<rparr> else s, ()))"

definition js_wait_async :: "(exit_cell, bool) prog" where
  "js_wait_async = atomic (\<lambda>s. if cell_code s = 0 then (s\<lparr>waiting := True\<rparr>, True) else (s, False))"

definition js_promise :: "(exit_cell, unit) prog" where
  "js_promise = await resolved (\<lambda>s. (s, ()))"

definition signal_exit_js :: "u32 \<Rightarrow> (exit_cell, unit) prog" where
  "signal_exit_js code = seq (js_store code) js_notify"

definition wait_for_exit_async :: "bool \<Rightarrow> (exit_cell, u32) prog" where
  "wait_for_exit_async has_wait_async =
     bind js_load (\<lambda>current.
       if current \<noteq> 0 then Return current
       else if has_wait_async
       then bind js_wait_async (\<lambda>async. if async then seq js_promise js_load else js_load)
       else loop (bind js_load (\<lambda>val. if val \<noteq> 0 then break val else continue)))"

subsection \<open>Both at once\<close>

text \<open>Thread 0 waits and thread 1 signals; the control points of both.\<close>

datatype xpoint = WStart bool | WAsync | WPromise | WLoad | WPoll | WAgain | Told u32 | SStore u32 | SNotify

definition poll_body :: "(exit_cell, u32 option) prog" where
  "poll_body = bind js_load (\<lambda>val. if val \<noteq> 0 then break val else continue)"

fun xcode :: "xpoint \<Rightarrow> (exit_cell, u32) prog" where
  "xcode (WStart b) = wait_for_exit_async b"
| "xcode WAsync = bind js_wait_async (\<lambda>async. if async then seq js_promise js_load else js_load)"
| "xcode WPromise = seq js_promise js_load"
| "xcode WLoad = js_load"
| "xcode WPoll = loop poll_body"
| "xcode WAgain = loop_from poll_body continue"
| "xcode (Told c) = Return c"
| "xcode (SStore c) = seq (signal_exit_js c) (Return 0)"
| "xcode SNotify = seq js_notify (Return 0)"

fun xstep :: "xpoint \<Rightarrow> exit_cell \<Rightarrow> (exit_cell \<times> xpoint) option" where
  "xstep (WStart b) s = Some (s, if cell_code s \<noteq> 0 then Told (cell_code s) else if b then WAsync else WPoll)"
| "xstep WAsync s = Some (if cell_code s = 0 then (s\<lparr>waiting := True\<rparr>, WPromise) else (s, WLoad))"
| "xstep WPromise s = (if resolved s then Some (s, WLoad) else None)"
| "xstep WLoad s = Some (s, Told (cell_code s))"
| "xstep WPoll s = Some (s, if cell_code s \<noteq> 0 then Told (cell_code s) else WAgain)"
| "xstep WAgain s = Some (s, WPoll)"
| "xstep (Told c) s = None"
| "xstep (SStore c) s = Some (s\<lparr>cell_code := c\<rparr>, SNotify)"
| "xstep SNotify s = Some (if waiting s then s\<lparr>waiting := False, resolved := True\<rparr> else s, Told 0)"

lemma xcode_step: "resume (xcode x) s = map_option (map_prod id xcode) (xstep x s)"
proof -
  note defs = js_store_def js_load_def js_notify_def js_wait_async_def js_promise_def
  have "running poll_body" "resume poll_body s = Some (s, if cell_code s \<noteq> 0 then break (cell_code s) else continue)"
    by (simp_all add: poll_body_def defs)
  moreover have "loop (bind js_load (\<lambda>val. if val \<noteq> 0 then break val else continue)) = loop poll_body"
    by (simp add: poll_body_def)
  ultimately show ?thesis
    by (cases x) (simp_all add: wait_for_exit_async_def signal_exit_js_def defs bind_assoc)
qed

definition xcell_inv :: "u32 \<Rightarrow> exit_cell \<Rightarrow> (tid \<Rightarrow> xpoint) \<Rightarrow> bool" where
  "xcell_inv c s pcs \<longleftrightarrow> (\<forall>i>1. pcs i = Told 0) \<and>
     pcs 1 \<in> {SStore c, SNotify, Told 0} \<and>
     cell_code s = (if pcs 1 = SStore c then 0 else c) \<and>
     (case pcs 0 of
        WPromise \<Rightarrow> if resolved s then pcs 1 = Told 0 else waiting s \<and> pcs 1 \<noteq> Told 0
      | WLoad \<Rightarrow> pcs 1 \<noteq> SStore c
      | Told v \<Rightarrow> v = c
      | SStore _ \<Rightarrow> False
      | SNotify \<Rightarrow> False
      | _ \<Rightarrow> \<not> waiting s \<and> \<not> resolved s)"

lemma xcell_inv_move:
  assumes "xcell_inv c s pcs" and "c \<noteq> 0" and "xstep (pcs i) s = Some (s', pc')"
  shows "xcell_inv c s' (pcs(i := pc'))"
proof -
  consider "i = 0" | "i = 1" | "i > 1" by linarith
  then show ?thesis
  proof cases
    case 1
    then show ?thesis using assms by (cases "pcs 0") (auto simp: xcell_inv_def split: if_splits)
  next
    case 2
    then show ?thesis using assms by (cases "pcs 0") (auto simp: xcell_inv_def split: if_splits)
  next
    case 3
    then show ?thesis using assms by (auto simp: xcell_inv_def)
  qed
qed

definition exit_points :: "bool \<Rightarrow> u32 \<Rightarrow> tid \<Rightarrow> xpoint" where
  "exit_points has_wait_async c i = (if i = 0 then WStart has_wait_async else if i = 1 then SStore c else Told 0)"

definition exit_system :: "bool \<Rightarrow> u32 \<Rightarrow> tid \<Rightarrow> (exit_cell, u32) prog" where
  "exit_system has_wait_async c i =
     (if i = 0 then wait_for_exit_async has_wait_async
      else if i = 1 then seq (signal_exit_js c) (Return 0) else Return 0)"

interpretation exit: pc_program "\<lambda>_. xcode" "\<lambda>_. xstep"
  by unfold_locales (rule xcode_step)

lemma exit_reach:
  assumes "sys_reach (\<lambda>_ _. False) (exit_cell_new, exit_system b c) (s, ps)" and "c \<noteq> 0"
  obtains pcs where "ps = (\<lambda>t. xcode (pcs t))" and "xcell_inv c s pcs"
proof -
  have "exit_system b c = (\<lambda>t. xcode (exit_points b c t))"
    by (auto simp: fun_eq_iff exit_system_def exit_points_def)
  then obtain pcs where "ps = (\<lambda>t. xcode (pcs t))"
    and "pc_reach (\<lambda>_ _. False) (\<lambda>_. xstep) (exit_cell_new, exit_points b c) (s, pcs)"
    using exit.reach_has_pcs [of "\<lambda>_ _. False" exit_cell_new "exit_points b c" "(s, ps)"] assms(1) by auto
  moreover from this(2) have "xcell_inv c s pcs"
  proof (induction "(s, pcs)" arbitrary: s pcs rule: pc_reach.induct)
    case pc_start
    then show ?case by (simp add: xcell_inv_def exit_points_def exit_cell_new_def)
  next
    case (pc_move s pcs i s' pc')
    then show ?case using xcell_inv_move [OF _ assms(2)] by blast
  qed simp
  ultimately show thesis using that by blast
qed

text \<open>C37: the end of a worker is never missed. However the accesses of \<open>wait_for_exit_async\<close> and
  \<open>signalExit\<close> interleave, with \<open>Atomics.waitAsync\<close> or without, the waiting side only ever answers
  the code that was stored, and when nothing can move any more it has answered.\<close>

theorem exit_is_never_missed:
  assumes "sys_reach (\<lambda>_ _. False) (exit_cell_new, exit_system has_wait_async c) (s, ps)" and "c \<noteq> 0"
  shows "(\<forall>v. ps 0 = Return v \<longrightarrow> v = c) \<and> (stuck (s, ps) \<longrightarrow> ps 0 = Return c \<and> ps 1 = Return 0)"
proof -
  obtain pcs where ps: "ps = (\<lambda>t. xcode (pcs t))" and inv: "xcell_inv c s pcs"
    using exit_reach [OF assms] .
  have told: "xcode x = Return v \<Longrightarrow> x = Told v" for x v
  proof -
    have "running (xcode x)" if "\<nexists>u. x = Told u"
      using that by (cases x) (simp_all add: wait_for_exit_async_def signal_exit_js_def js_store_def js_load_def
          js_notify_def js_wait_async_def js_promise_def poll_body_def)
    then show "xcode x = Return v \<Longrightarrow> x = Told v" by fastforce
  qed
  have answer: "v = c" if "ps 0 = Return v" for v
    using told [of "pcs 0" v] that inv by (simp add: ps xcell_inv_def)
  have "ps 0 = Return c \<and> ps 1 = Return 0" if "stuck (s, ps)"
  proof -
    have none: "xstep (pcs i) s = None" for i
      using that exit.code_stuck_iff [of "pcs i" s] by (simp add: stuck_def ps)
    have one: "pcs 1 = Told 0" using none [of 1] inv by (auto simp: xcell_inv_def)
    then have "pcs 0 = Told c" using none [of 0] inv
      by (cases "pcs 0") (auto simp: xcell_inv_def split: if_splits)
    with one show ?thesis by (simp add: ps)
  qed
  with answer show ?thesis by blast
qed

text \<open>A run in which the notification finds the registered waiter.\<close>

lemma exit_is_never_missed_witness:
  "\<exists>s ps. sys_reach (\<lambda>_ _. False) (exit_cell_new, exit_system True 1) (s, ps) \<and> ps 0 = Return 1 \<and> ps 1 = Return 0"
proof -
  define c where c: "c = run_schedule [0, 0, 1, 1, 0, 0] (exit_cell_new, exit_system True 1)"
  note defs = js_store_def js_load_def js_notify_def js_wait_async_def js_promise_def
  have reach: "sys_reach (\<lambda>_ _. False) (exit_cell_new, exit_system True 1) (fst c, snd c)"
    unfolding c by (simp only: prod.collapse run_schedule_start)
  have now: "resume (snd c i) (fst c) = None" for i
    by (simp add: c exit_system_def exit_cell_new_def wait_for_exit_async_def signal_exit_js_def defs)
  have "(\<forall>v. snd c 0 = Return v \<longrightarrow> v = 1) \<and> (stuck (fst c, snd c) \<longrightarrow> snd c 0 = Return 1 \<and> snd c 1 = Return 0)"
    by (rule exit_is_never_missed [OF reach]) simp
  then have "snd c 0 = Return 1 \<and> snd c 1 = Return 0" using now by (simp add: stuck_def)
  with reach show ?thesis by blast
qed

end
