(* ===== verification/Wasm_Threads.thy ===== *)
theory Wasm_Threads
  imports Threads
begin

section \<open>Spawning and joining on WebAssembly (\<open>src/wasm.rs\<close>, \<open>src/wasm/thread_api.rs\<close>)\<close>

text \<open>
  A spawned thread is a worker. Its result goes through a channel as on the standard library; a
  panic cannot be caught, so a panic hook sends it before the worker aborts (no destructor runs
  then). The handle and the worker share an \<open>exit_state\<close> in linear memory, an exit code and a
  reference count, which the last of the two frees. Reading or writing it after that, or freeing it
  twice, is modelled as a panic.
\<close>

record (overloaded) ('a, 'k, 'w) worker = "(string + 'a, 'k, 'w::len) channel" +
  finished :: bool
  exit_code :: u32
  ref_count :: u32
  freed :: bool
  cleanup_handler :: bool

definition worker_new :: "'k runtime \<Rightarrow> u64 \<Rightarrow> bool \<Rightarrow> ('a, 'k, 'w::len) worker" where
  "worker_new r ids handler = channel.extend (channel_new r ids)
     \<lparr>finished = False, exit_code = 0, ref_count = 2, freed = False, cleanup_handler = handler\<rparr>"

subsection \<open>The exit state\<close>

definition use_after_free_msg :: string where
  "use_after_free_msg = ''use after free''"

definition on_exit_state ::
  "(('a, 'k, 'w::len, 'z) worker_scheme \<Rightarrow> ('a, 'k, 'w, 'z) worker_scheme \<times> 'r) \<Rightarrow>
   (('a, 'k, 'w, 'z) worker_scheme, 'r) prog" where
  "on_exit_state f = Act (\<lambda>s. if freed s then Some (s, Panic use_after_free_msg)
     else Some (fst (f s), Return (snd (f s))))"

definition free_exit_state :: "(('a, 'k, 'w::len, 'z) worker_scheme, unit) prog" where
  "free_exit_state = on_exit_state (\<lambda>s. (s\<lparr>freed := True\<rparr>, ()))"

definition sub_ref :: "(('a, 'k, 'w::len, 'z) worker_scheme, u32) prog" where
  "sub_ref = on_exit_state (\<lambda>s. (s\<lparr>ref_count := ref_count s - 1\<rparr>, ref_count s))"

definition store_exit_code :: "u32 \<Rightarrow> (('a, 'k, 'w::len, 'z) worker_scheme, unit) prog" where
  "store_exit_code code = on_exit_state (\<lambda>s. (s\<lparr>exit_code := code\<rparr>, ()))"

definition load_cleanup_handler :: "(('a, 'k, 'w::len, 'z) worker_scheme, bool) prog" where
  "load_cleanup_handler = atomic (\<lambda>s. (s, cleanup_handler s))"

text \<open>The handle's \<open>Drop\<close> and the JavaScript \<open>decrementRefCountAndCleanup\<close>; the second frees only
  where the handler was registered.\<close>

definition exit_state_drop :: "(('a, 'k, 'w::len, 'z) worker_scheme, unit) prog" where
  "exit_state_drop = bind sub_ref (\<lambda>old_ref_count. if old_ref_count = 1 then free_exit_state else Return ())"

definition decrement_and_cleanup :: "(('a, 'k, 'w::len, 'z) worker_scheme, unit) prog" where
  "decrement_and_cleanup = bind sub_ref (\<lambda>old.
     if old = 1 then bind load_cleanup_handler (\<lambda>h. if h then free_exit_state else Return ())
     else Return ())"

definition signal_exit :: "u32 \<Rightarrow> (('a, 'k, 'w::len, 'z) worker_scheme, unit) prog" where
  "signal_exit code = store_exit_code code"

text \<open>The exit event of a worker.\<close>

definition worker_exit :: "bool \<Rightarrow> (('a, 'k, 'w::len, 'z) worker_scheme, unit) prog" where
  "worker_exit ok = seq (signal_exit (if ok then 1 else 2)) decrement_and_cleanup"

text \<open>\<open>wait_for_exit_async\<close>: the promise resolves when the code is no longer 0.\<close>

definition wait_for_exit :: "(('a, 'k, 'w::len, 'z) worker_scheme, u32) prog" where
  "wait_for_exit = Act (\<lambda>s. if freed s then Some (s, Panic use_after_free_msg)
     else if exit_code s = 0 then None else Some (s, Return (exit_code s)))"

subsection \<open>The worker's closure\<close>

definition store_finished :: "(('a, 'k, 'w::len, 'z) worker_scheme, unit) prog" where
  "store_finished = atomic (\<lambda>s. (s\<lparr>finished := True\<rparr>, ()))"

definition is_finished :: "(('a, 'k, 'w::len, 'z) worker_scheme, bool) prog" where
  "is_finished = atomic (\<lambda>s. (s, finished s))"

text \<open>The panic hook runs where the panic happens and the worker then aborts.\<close>

definition on_panic :: "('s, 'a) prog \<Rightarrow> (string \<Rightarrow> ('s, unit) prog) \<Rightarrow> ('s, 'a) prog" where
  "on_panic p hook = bind (catch_unwind p) (\<lambda>r. case r of
       Inr x \<Rightarrow> Return x
     | Inl m \<Rightarrow> seq (hook m) (Panic m))"

text \<open>The closure stored in \<open>PANIC_SENDER\<close>; it owns a clone of the sender. \<open>info\<close> is how the panic
  message reads (\<open>PanicHookInfo::to_string\<close>).\<close>

definition panic_sender ::
  "'k cont_ops \<Rightarrow> platform \<Rightarrow> tid \<Rightarrow> (string \<Rightarrow> string) \<Rightarrow> string \<Rightarrow> (('a, 'k, 'w::len, 'z) worker_scheme, unit) prog"
  where
  "panic_sender K P me info m =
     seq store_finished
       (seq (ignore (send_sync K P me (Inl (info m))))
         (sender_drop K))"

definition worker_main ::
  "'k cont_ops \<Rightarrow> platform \<Rightarrow> tid \<Rightarrow> (string \<Rightarrow> string) \<Rightarrow> (('a, 'k, 'w::len, 'z) worker_scheme, unit) prog \<Rightarrow>
   (('a, 'k, 'w, 'z) worker_scheme, 'a) prog \<Rightarrow> (('a, 'k, 'w, 'z) worker_scheme, unit) prog" where
  "worker_main K P me info hooks f =
     seq sender_clone
       (bind (on_panic (seq hooks f) (panic_sender K P me info)) (\<lambda>result.
         seq (sender_drop K)
           (seq store_finished
             (seq (ignore (send_sync K P me (Inr result)))
               (sender_drop K)))))"

subsection \<open>Joining\<close>

definition main_thread_msg :: string where
  "main_thread_msg = ''Can't join from the main thread on wasm32''"

text \<open>Dropping the handle: its own \<open>Drop\<close>, then the receiver.\<close>

definition handle_drop :: "'k cont_ops \<Rightarrow> (('a, 'k, 'w::len, 'z) worker_scheme, unit) prog" where
  "handle_drop K = seq exit_state_drop (receiver_drop K)"

definition wasm_join ::
  "bool \<Rightarrow> 'k cont_ops \<Rightarrow> platform \<Rightarrow> tid \<Rightarrow> (('a, 'k, 'w::len, 'z) worker_scheme, string + 'a) prog" where
  "wasm_join is_main_thread K P me =
     bind (if is_main_thread then Return (Inl main_thread_msg)
       else bind (recv_sync K P me) (\<lambda>r. case r of
           Inl Disconnected \<Rightarrow> Return (Inl ''Disconnected'')
         | Inr (Inl e) \<Rightarrow> Return (Inl e)
         | Inr (Inr v) \<Rightarrow> Return (Inr v)))
     (\<lambda>r. seq (handle_drop K) (Return r))"

definition wasm_join_async :: "'k cont_ops \<Rightarrow> (('a, 'k, 'w::len, 'z) worker_scheme, string + 'a) prog" where
  "wasm_join_async K =
     bind (bind (recv_async K) (\<lambda>r. case r of
           Inl Disconnected \<Rightarrow> Return (Inl ''Disconnected'')
         | Inr (Inl e) \<Rightarrow> Return (Inl e)
         | Inr (Inr v) \<Rightarrow> bind wait_for_exit (\<lambda>code.
             if code = 2 then Return (Inl ''Worker exited with error'') else Return (Inr v))))
     (\<lambda>r. seq (handle_drop K) (Return r))"

end
