(* ===== verification/Wasm_Threads_Correct.thy ===== *)
theory Wasm_Threads_Correct
  imports Wasm_Threads
begin

section \<open>Workers: results, panics and the exit state\<close>

text \<open>
  What joining a worker returns, in every case; and that the exit state shared by the worker and
  its handle is never used after it was freed and is freed exactly once, however the two interleave.
\<close>

lemma exit_state_steps [simp]:
  "running (on_exit_state f)" "running free_exit_state" "running sub_ref" "running (store_exit_code c)"
  "running load_cleanup_handler" "running exit_state_drop" "running decrement_and_cleanup"
  "running (worker_exit ok)" "running wait_for_exit" "running store_finished"
  "resume free_exit_state s = Some (if freed s then (s, Panic use_after_free_msg) else (s\<lparr>freed := True\<rparr>, Return ()))"
  "resume sub_ref s = Some (if freed s then (s, Panic use_after_free_msg)
     else (s\<lparr>ref_count := ref_count s - 1\<rparr>, Return (ref_count s)))"
  "resume (store_exit_code c) s = Some (if freed s then (s, Panic use_after_free_msg)
     else (s\<lparr>exit_code := c\<rparr>, Return ()))"
  "resume load_cleanup_handler s = Some (s, Return (cleanup_handler s))"
  "resume wait_for_exit s = (if freed s then Some (s, Panic use_after_free_msg)
     else if exit_code s = 0 then None else Some (s, Return (exit_code s)))"
  "resume store_finished s = Some (s\<lparr>finished := True\<rparr>, Return ())"
  by (simp_all add: on_exit_state_def free_exit_state_def sub_ref_def store_exit_code_def
      load_cleanup_handler_def exit_state_drop_def decrement_and_cleanup_def worker_exit_def
      signal_exit_def wait_for_exit_def store_finished_def)

subsection \<open>The exit state is freed exactly once\<close>

text \<open>Thread 0 is the worker's exit event, thread 1 the handle: dropped at once, or after a
  \<open>join_async\<close> has waited for the exit.\<close>

definition exit_clients ::
  "bool \<Rightarrow> bool \<Rightarrow> tid \<Rightarrow> (('a, 'k, 'w::len, 'z) worker_scheme, unit) prog" where
  "exit_clients ok waits t =
     (if t = 0 then worker_exit ok
      else if t = 1 then (if waits then seq wait_for_exit exit_state_drop else exit_state_drop)
      else Return ())"

datatype exit_pc = WStore bool | WSub | WLoad | WFree | HWait | HSub | HFree | Ended | Crashed

fun exit_code_at :: "exit_pc \<Rightarrow> (('a, 'k, 'w::len, 'z) worker_scheme, unit) prog" where
  "exit_code_at (WStore ok) = worker_exit ok"
| "exit_code_at WSub = decrement_and_cleanup"
| "exit_code_at WLoad = bind load_cleanup_handler (\<lambda>h. if h then free_exit_state else Return ())"
| "exit_code_at WFree = free_exit_state"
| "exit_code_at HWait = seq wait_for_exit exit_state_drop"
| "exit_code_at HSub = exit_state_drop"
| "exit_code_at HFree = free_exit_state"
| "exit_code_at Ended = Return ()"
| "exit_code_at Crashed = Panic use_after_free_msg"

fun exit_pstep :: "exit_pc \<Rightarrow> ('a, 'k, 'w::len, 'z) worker_scheme \<Rightarrow>
    (('a, 'k, 'w, 'z) worker_scheme \<times> exit_pc) option" where
  "exit_pstep (WStore ok) s = Some (if freed s then (s, Crashed)
     else (s\<lparr>exit_code := if ok then 1 else 2\<rparr>, WSub))"
| "exit_pstep WSub s = Some (if freed s then (s, Crashed)
     else (s\<lparr>ref_count := ref_count s - 1\<rparr>, if ref_count s = 1 then WLoad else Ended))"
| "exit_pstep WLoad s = Some (s, if cleanup_handler s then WFree else Ended)"
| "exit_pstep WFree s = Some (if freed s then (s, Crashed) else (s\<lparr>freed := True\<rparr>, Ended))"
| "exit_pstep HWait s = (if freed s then Some (s, Crashed)
     else if exit_code s = 0 then None else Some (s, HSub))"
| "exit_pstep HSub s = Some (if freed s then (s, Crashed)
     else (s\<lparr>ref_count := ref_count s - 1\<rparr>, if ref_count s = 1 then HFree else Ended))"
| "exit_pstep HFree s = Some (if freed s then (s, Crashed) else (s\<lparr>freed := True\<rparr>, Ended))"
| "exit_pstep Ended s = None"
| "exit_pstep Crashed s = None"

lemma exit_code_step: "resume (exit_code_at pc) s = map_option (map_prod id exit_code_at) (exit_pstep pc s)"
  by (cases pc) (simp_all add: worker_exit_def signal_exit_def decrement_and_cleanup_def exit_state_drop_def)

fun holds_ref :: "exit_pc \<Rightarrow> bool" where
  "holds_ref (WStore ok) = True" | "holds_ref WSub = True"
| "holds_ref HWait = True" | "holds_ref HSub = True" | "holds_ref _ = False"

fun frees :: "exit_pc \<Rightarrow> bool" where
  "frees WLoad = True" | "frees WFree = True" | "frees HFree = True" | "frees _ = False"

fun worker_side :: "exit_pc \<Rightarrow> bool" where
  "worker_side (WStore ok) = True" | "worker_side WSub = True" | "worker_side WLoad = True"
| "worker_side WFree = True" | "worker_side Ended = True" | "worker_side _ = False"

fun handle_side :: "exit_pc \<Rightarrow> bool" where
  "handle_side HWait = True" | "handle_side HSub = True" | "handle_side HFree = True"
| "handle_side Ended = True" | "handle_side _ = False"

text \<open>The count is the number of owners left; only one side frees, and only when nobody owns it.\<close>

definition exit_pair_inv :: "bool \<Rightarrow> u32 \<Rightarrow> ('a, 'k, 'w::len, 'z) worker_scheme \<Rightarrow> exit_pc \<Rightarrow> exit_pc \<Rightarrow> bool" where
  "exit_pair_inv h c s w j \<longleftrightarrow>
     worker_side w \<and> handle_side j \<and> cleanup_handler s = h \<and>
     ref_count s = of_bool (holds_ref w) + of_bool (holds_ref j) \<and>
     \<not> (frees w \<and> frees j) \<and>
     (freed s \<or> frees w \<or> frees j \<longrightarrow> \<not> holds_ref w \<and> \<not> holds_ref j) \<and>
     (freed s \<longrightarrow> \<not> frees w \<and> \<not> frees j) \<and>
     (\<not> holds_ref w \<or> w = WSub \<longrightarrow> exit_code s = c) \<and> c \<noteq> 0 \<and>
     (\<forall>ok. w = WStore ok \<longrightarrow> c = (if ok then 1 else 2)) \<and>
     (\<not> holds_ref w \<and> \<not> holds_ref j \<and> \<not> frees w \<and> \<not> frees j \<longrightarrow> freed s \<or> \<not> h)"

definition exit_inv ::
  "bool \<Rightarrow> u32 \<Rightarrow> ('a, 'k, 'w::len, 'z) worker_scheme \<Rightarrow> (tid \<Rightarrow> exit_pc) \<Rightarrow> bool" where
  "exit_inv h c s pcs \<longleftrightarrow> exit_pair_inv h c s (pcs 0) (pcs 1) \<and> (\<forall>t\<ge>2. pcs t = Ended)"

lemma worker_moves:
  "exit_pair_inv h c s w j \<Longrightarrow> exit_pstep w s = Some (s', w') \<Longrightarrow> exit_pair_inv h c s' w' j"
  unfolding exit_pair_inv_def
  by (cases w; cases "holds_ref j"; auto split: if_splits)

lemma handle_moves:
  "exit_pair_inv h c s w j \<Longrightarrow> exit_pstep j s = Some (s', j') \<Longrightarrow> exit_pair_inv h c s' w j'"
  unfolding exit_pair_inv_def
  by (cases j; cases "holds_ref w"; auto split: if_splits)

lemma exit_inv_move:
  assumes "exit_inv h c s pcs" and "exit_pstep (pcs i) s = Some (s', pc')"
  shows "exit_inv h c s' (pcs(i := pc'))"
proof (cases "i < 2")
  case True
  then consider "i = 0" | "i = 1" by linarith
  then show ?thesis
    using assms worker_moves [of h c s "pcs 0" "pcs 1" s' pc'] handle_moves [of h c s "pcs 0" "pcs 1" s' pc']
    by cases (auto simp: exit_inv_def)
next
  case False
  with assms show ?thesis by (auto simp: exit_inv_def)
qed

interpretation exit_state: pc_invariant "\<lambda>_. exit_code_at" "\<lambda>_. exit_pstep" "\<lambda>_ _. False" "exit_inv h c" for h c
  by unfold_locales (simp_all add: exit_code_step exit_inv_move)

lemma exit_code_Panic: "exit_code_at pc = Panic m \<Longrightarrow> pc = Crashed"
  by (cases pc) (auto dest: arg_cong [of _ _ running])

text \<open>C27: the exit state is safe. However the worker's exit and the handle's drop (after waiting for
  the exit or not) interleave, neither touches the memory after it was freed and it is never freed
  twice; both sides complete; afterwards the count is 0 and the memory was freed, except that a
  worker that exits last in a realm without the cleanup handler leaves it unfreed.\<close>

theorem exit_state_freed_once:
  fixes s0 :: "('a, 'k, 'w::len, 'z) worker_scheme"
  assumes "sys_reach (\<lambda>_ _. False) (s0, exit_clients ok waits) (s, ps)"
    and "ref_count s0 = 2" and "\<not> freed s0" and "exit_code s0 = 0"
  shows "ps t \<noteq> Panic m \<and>
    (stuck (s, ps) \<longrightarrow> ps t = Return () \<and> ref_count s = 0 \<and> exit_code s = (if ok then 1 else 2) \<and>
      (freed s \<or> \<not> cleanup_handler s0))"
proof -
  let ?c = "if ok then 1 else 2 :: u32"
  let ?pcs = "\<lambda>t. if t = 0 then WStore ok else if t = 1 then (if waits then HWait else HSub) else Ended"
  have start: "exit_inv (cleanup_handler s0) ?c s0 ?pcs"
    using assms(2-4) by (simp add: exit_inv_def exit_pair_inv_def)
  have reach: "sys_reach (\<lambda>_ _. False) (s0, \<lambda>t. exit_code_at (?pcs t)) (s, ps)"
    using assms(1) by (simp add: exit_clients_def [abs_def] if_distrib [of exit_code_at] cong: if_cong)
  obtain pcs where ps: "ps = (\<lambda>t. exit_code_at (pcs t))" and inv: "exit_inv (cleanup_handler s0) ?c s pcs"
    by (rule exit_state.reach_inv [OF reach start])
  have sides: "worker_side (pcs 0)" "handle_side (pcs 1)" "t \<ge> 2 \<longrightarrow> pcs t = Ended"
    using inv by (auto simp: exit_inv_def exit_pair_inv_def)
  then have "pcs t \<noteq> Crashed" by (cases "t = 0"; cases "t = 1") auto
  then have "ps t \<noteq> Panic m" using exit_code_Panic ps by metis
  moreover have "ps t = Return () \<and> ref_count s = 0 \<and> exit_code s = ?c \<and> (freed s \<or> \<not> cleanup_handler s0)"
    if "stuck (s, ps)"
  proof -
    have none: "exit_pstep (pcs u) s = None" for u
      using that ps exit_code_step [of "pcs u" s] by (simp add: stuck_def)
    have w: "pcs 0 = Ended" using none [of 0] sides(1) by (cases "pcs 0") (auto split: if_splits)
    then have "exit_code s \<noteq> 0" using inv by (auto simp: exit_inv_def exit_pair_inv_def split: if_splits)
    then have j: "pcs 1 = Ended" using none [of 1] sides(2) by (cases "pcs 1") (auto split: if_splits)
    have "pcs t = Ended" using w j sides(3) by (cases "t = 0"; cases "t = 1") auto
    with w j inv ps show ?thesis by (simp add: exit_inv_def exit_pair_inv_def)
  qed
  ultimately show ?thesis by blast
qed

subsection \<open>What the calls keep of the worker's fields\<close>

lemma worker_fields [simp]:
  fixes s :: "('a, 'k, 'w::len, 'z) worker_scheme"
  shows "exit_code (woken K s) = exit_code s" "ref_count (woken K s) = ref_count s"
  "freed (woken K s) = freed s" "finished (woken K s) = finished s"
  "exit_code (notified_one K s) = exit_code s" "ref_count (notified_one K s) = ref_count s"
  "freed (notified_one K s) = freed s" "finished (notified_one K s) = finished s"
  "exit_code (notified_all K s) = exit_code s" "ref_count (notified_all K s) = ref_count s"
  "freed (notified_all K s) = freed s" "finished (notified_all K s) = finished s"
  by (simp_all add: woken_def notified_one_def notified_all_def set_token_def)

lemma worker_after [simp]:
  fixes s :: "('a, 'k, 'w::len, 'z) worker_scheme"
  shows "exit_code (after_send K v s) = exit_code s" "ref_count (after_send K v s) = ref_count s"
  "freed (after_send K v s) = freed s" "finished (after_send K v s) = finished s"
  "exit_code (after_recv K s) = exit_code s" "ref_count (after_recv K s) = ref_count s"
  "freed (after_recv K s) = freed s" "finished (after_recv K s) = finished s"
  by (simp_all add: after_send_def after_recv_def)

lemma ready_worker_fields [simp]:
  fixes s :: "('a, 'k, 'w::len, 'z) worker_scheme"
  shows "channel_ready n (s\<lparr>finished := b\<rparr>) = channel_ready n s" "channel_ready n (s\<lparr>exit_code := c\<rparr>) = channel_ready n s"
  "channel_ready n (s\<lparr>ref_count := r\<rparr>) = channel_ready n s" "channel_ready n (s\<lparr>freed := b\<rparr>) = channel_ready n s"
  "channel_quiet (s\<lparr>finished := b\<rparr>) = channel_quiet s"
  by (simp_all add: channel_ready_def channel_quiet_def mutex_quiet_def cv_quiet_def)

definition same_exit_state :: "('a, 'k, 'w::len, 'z) worker_scheme \<Rightarrow> ('a, 'k, 'w, 'z) worker_scheme \<Rightarrow> bool" where
  "same_exit_state s s' \<longleftrightarrow> exit_code s' = exit_code s \<and> ref_count s' = ref_count s \<and> freed s' = freed s"

lemma ends_drop_worker_sender:
  assumes "channel_ready 2 s"
  shows "ends (sender_drop K) s (Return ()) (s\<lparr>sender_count := 1\<rparr>)"
  using ends_drop_one_of_many [of s K] assms by (simp add: channel_ready_def)

lemma ends_sent:
  assumes "channel_ready n s" and "inner s = []"
  shows "ends (ignore (send_sync K P t r)) s (Return ()) (after_send K r s) \<and>
    channel_ready n (after_send K r s) \<and> inner (after_send K r s) = [r]"
  using ends_send_by [of s K "Syncing P t" r] assms ends_ignore
  by (auto simp: channel_ready_def)

lemma ends_store_finished: "ends store_finished s (Return ()) (s\<lparr>finished := True\<rparr>)"
  by (rule ends_one) simp

lemma worker_ends_well:
  fixes s :: "('a, 'k, 'w::len, 'z) worker_scheme"
  assumes "channel_ready 1 s" and "ends (seq hooks f) (s\<lparr>sender_count := 2\<rparr>) (Return v) s2"
    and "channel_ready 2 s2" and "inner s2 = []"
  shows "\<exists>s3. ends (worker_main K P me info hooks f) s (Return ()) s3 \<and> channel_ready 0 s3 \<and>
    inner s3 = [Inr v] \<and> finished s3 \<and> same_exit_state s2 s3"
proof -
  let ?a = "s2\<lparr>sender_count := 1\<rparr>"
  let ?b = "?a\<lparr>finished := True\<rparr>"
  let ?c = "after_send K (Inr v) ?b"
  let ?d = "notified_all K (?c\<lparr>sender_count := 0\<rparr>)"
  have clone: "ends sender_clone s (Return ()) (s\<lparr>sender_count := 2\<rparr>)"
    using ends_clones [of 1 s] assms(1) by (simp add: channel_ready_def)
  have run: "ends (on_panic (seq hooks f) (panic_sender K P me info)) (s\<lparr>sender_count := 2\<rparr>) (Return v) s2"
    unfolding on_panic_def
    by (rule ends_bind [OF ends_catch_unwind [OF assms(2), unfolded catch_unwind_simps]]) (simp add: ends_Return)
  have ready: "channel_ready 1 ?b" "inner ?b = []"
    using assms(3,4) by (simp_all) (simp add: channel_ready_def)
  note sent = ends_sent [OF ready, of K P me "Inr v"]
  have last: "ends (sender_drop K) ?c (Return ()) ?d"
    using sent by (intro ends_last_sender_drop) (simp_all add: channel_ready_def channel_quiet_def)
  have "ends (worker_main K P me info hooks f) s (Return ()) ?d"
    unfolding worker_main_def
    by (rule ends_bind [OF clone], rule ends_bind [OF run],
        rule ends_bind [OF ends_drop_worker_sender [OF assms(3)]], rule ends_bind [OF ends_store_finished],
        rule ends_bind [OF conjunct1 [OF sent] last])
  moreover have "channel_ready 0 ?d" "inner ?d = [Inr v]" "finished ?d" "same_exit_state s2 ?d"
    using sent by (simp_all add: channel_ready_def channel_quiet_def same_exit_state_def)
  ultimately show ?thesis by blast
qed

lemma worker_panics:
  fixes s :: "('a, 'k, 'w::len, 'z) worker_scheme"
  assumes "channel_ready 1 s" and "ends (seq hooks f) (s\<lparr>sender_count := 2\<rparr>) (Panic m) s2"
    and "channel_ready 2 s2" and "inner s2 = []"
  shows "\<exists>s3. ends (worker_main K P me info hooks f) s (Panic m) s3 \<and> channel_ready 1 s3 \<and>
    inner s3 = [Inl (info m)] \<and> finished s3 \<and> same_exit_state s2 s3"
proof -
  let ?b = "s2\<lparr>finished := True\<rparr>"
  let ?c = "after_send K (Inl (info m)) ?b"
  let ?d = "?c\<lparr>sender_count := 1\<rparr>"
  have clone: "ends sender_clone s (Return ()) (s\<lparr>sender_count := 2\<rparr>)"
    using ends_clones [of 1 s] assms(1) by (simp add: channel_ready_def)
  have ready: "channel_ready 2 ?b" "inner ?b = []" using assms(3,4) by simp_all
  note sent = ends_sent [OF ready, of K P me "Inl (info m)"]
  have hook: "ends (panic_sender K P me info m) s2 (Return ()) ?d"
    unfolding panic_sender_def
    by (rule ends_bind [OF ends_store_finished], rule ends_bind [OF conjunct1 [OF sent]],
        rule ends_drop_worker_sender) (use sent in blast)
  have run: "ends (on_panic (seq hooks f) (panic_sender K P me info)) (s\<lparr>sender_count := 2\<rparr>) (Panic m) ?d"
    unfolding on_panic_def
    by (rule ends_bind [OF ends_catch_unwind [OF assms(2), unfolded catch_unwind_simps]])
      (simp, rule ends_bind [OF hook ends_Panic])
  have "ends (worker_main K P me info hooks f) s (Panic m) ?d"
    unfolding worker_main_def by (rule ends_bind [OF clone ends_bind_Panic [OF run]])
  moreover have "channel_ready 1 ?d" "inner ?d = [Inl (info m)]" "finished ?d" "same_exit_state s2 ?d"
    using sent by (simp_all add: channel_ready_def same_exit_state_def)
  ultimately show ?thesis by blast
qed

subsection \<open>Joining a worker\<close>

lemma ends_exit_state_drop:
  assumes "\<not> freed s"
  shows "ends exit_state_drop s (Return ())
    (if ref_count s = 1 then s\<lparr>ref_count := 0, freed := True\<rparr> else s\<lparr>ref_count := ref_count s - 1\<rparr>)"
proof -
  have "ends sub_ref s (Return (ref_count s)) (s\<lparr>ref_count := ref_count s - 1\<rparr>)"
    by (rule ends_one) (simp add: assms)
  moreover have "ends free_exit_state (s\<lparr>ref_count := 0\<rparr>) (Return ()) (s\<lparr>ref_count := 0, freed := True\<rparr>)"
    by (rule ends_one) (simp add: assms)
  ultimately show ?thesis unfolding exit_state_drop_def
    by (auto intro: ends_bind simp: ends_Return)
qed

lemma ends_handle_drop:
  assumes "channel_ready n s" and "\<not> freed s"
  shows "\<exists>s1. ends (handle_drop K) s (Return ()) s1 \<and> ref_count s1 = ref_count s - 1 \<and>
    (freed s1 \<longleftrightarrow> ref_count s = 1)"
proof -
  let ?s1 = "if ref_count s = 1 then s\<lparr>ref_count := 0, freed := True\<rparr> else s\<lparr>ref_count := ref_count s - 1\<rparr>"
  have "channel_ready n ?s1" using assms(1) by simp
  then have "ends (handle_drop K) s (Return ()) (notified_all K (?s1\<lparr>receiver_active := False\<rparr>))"
    unfolding handle_drop_def
    by (rule ends_bind [OF ends_exit_state_drop [OF assms(2)] ends_receiver_drop_ready])
  with assms(2) show ?thesis
    by (intro exI [of _ "notified_all K (?s1\<lparr>receiver_active := False\<rparr>)"]) simp
qed

lemma ends_wasm_join:
  assumes "channel_ready n s" and "inner s = [r]" and "\<not> freed s"
  shows "\<exists>s1. ends (wasm_join False K P t) s (Return r) s1 \<and> ref_count s1 = ref_count s - 1 \<and>
    (freed s1 \<longleftrightarrow> ref_count s = 1)"
proof -
  have got: "ends (recv_sync K P t) s (Return (Inr r)) (after_recv K s)"
    using ends_recv_by [of s r "[]" K "Syncing P t"] assms by (simp add: channel_ready_def)
  obtain s1 where s1: "ends (handle_drop K) (after_recv K s) (Return ()) s1" "ref_count s1 = ref_count s - 1"
    "freed s1 \<longleftrightarrow> ref_count s = 1"
    using ends_handle_drop [of n "after_recv K s" K] assms by (auto simp: channel_ready_def)
  have "ends (wasm_join False K P t) s (Return r) s1"
    unfolding wasm_join_def if_False
    by (rule ends_bind [OF ends_bind [OF got, of _ "Return r" "after_recv K s"] ends_bind [OF s1(1) ends_Return]])
      (cases r; simp add: ends_Return)
  with s1 show ?thesis by blast
qed

lemma ends_worker_exit:
  assumes "\<not> freed s" and "ref_count s = 2"
  shows "ends (worker_exit ok) s (Return ()) (s\<lparr>exit_code := if ok then 1 else 2, ref_count := 1\<rparr>)"
  by (rule run_alone_ends [of 2])
    (use assms in \<open>simp_all add: worker_exit_def signal_exit_def decrement_and_cleanup_def numeral_2_eq_2\<close>)

lemma ends_wasm_join_async:
  assumes "channel_ready n s" and "inner s = [r]" and "\<not> freed s" and "ref_count s = 1" and "exit_code s \<noteq> 0"
  shows "\<exists>s1. ends (wasm_join_async K) s (Return (case r of
       Inl e \<Rightarrow> Inl e
     | Inr v \<Rightarrow> if exit_code s = 2 then Inl ''Worker exited with error'' else Inr v)) s1 \<and> freed s1"
proof -
  let ?r = "case r of Inl e \<Rightarrow> Inl e | Inr v \<Rightarrow> if exit_code s = 2 then Inl ''Worker exited with error'' else Inr v"
  have got: "ends (recv_async K) s (Return (Inr r)) (after_recv K s)"
    using ends_recv_by [of s r "[]" K Asynchronous] assms by (simp add: channel_ready_def)
  have wait: "ends wait_for_exit (after_recv K s) (Return (exit_code s)) (after_recv K s)"
    by (rule ends_one) (simp add: assms)
  obtain s1 where s1: "ends (handle_drop K) (after_recv K s) (Return ()) s1" "freed s1"
    using ends_handle_drop [of n "after_recv K s" K] assms by (auto simp: channel_ready_def)
  have "ends (case r of Inl e \<Rightarrow> Return (Inl e) | Inr v \<Rightarrow> bind wait_for_exit (\<lambda>code.
        if code = 2 then Return (Inl ''Worker exited with error'') else Return (Inr v)))
      (after_recv K s) (Return ?r) (after_recv K s)"
    by (cases r) (auto intro: ends_bind [OF wait] simp: ends_Return)
  with got have "ends (wasm_join_async K) s (Return ?r) s1"
    unfolding wasm_join_async_def
    by (intro ends_bind [OF ends_bind [OF got, of _ "Return ?r" "after_recv K s"] ends_bind [OF s1(1) ends_Return]])
      (cases r; simp)
  with s1(2) show ?thesis by blast
qed


text \<open>On the main thread \<open>join\<close> refuses at once with an error and receives nothing.\<close>

lemma join_refused_on_main_thread:
  assumes "channel_ready n s" and "\<not> freed s"
  shows "\<exists>s1. ends (wasm_join True K P t) s (Return (Inl main_thread_msg)) s1 \<and> ref_count s1 = ref_count s - 1"
proof -
  obtain s1 where "ends (handle_drop K) s (Return ()) s1" "ref_count s1 = ref_count s - 1"
    using ends_handle_drop [OF assms, of K] by blast
  then show ?thesis unfolding wasm_join_def by (auto intro: ends_bind ends_Return)
qed

text \<open>When the handle goes first, the worker's exit frees the exit state only if the cleanup handler
  is registered in the JavaScript realm that receives the exit event; without it the count
  reaches 0 and nothing is freed.\<close>

lemma last_exit_needs_cleanup_handler:
  assumes "\<not> freed s" and "ref_count s = 2"
  shows "\<exists>s1. ends (seq exit_state_drop (worker_exit ok)) s (Return ()) s1 \<and> ref_count s1 = 0 \<and>
    (freed s1 \<longleftrightarrow> cleanup_handler s)"
proof -
  have "run_alone 6 (seq exit_state_drop (worker_exit ok)) s =
      (let s1 = s\<lparr>ref_count := 0, exit_code := if ok then 1 else 2\<rparr>
       in if cleanup_handler s then s1\<lparr>freed := True\<rparr> else s1, Return ())"
    using assms by (simp add: worker_exit_def signal_exit_def decrement_and_cleanup_def exit_state_drop_def
        numeral_eq_Suc Let_def)
  note ran = this
  show ?thesis
  proof (cases "cleanup_handler s")
    case True
    with ran show ?thesis by (auto simp: Let_def dest!: run_alone_ends)
  next
    case False
    with ran assms(1) show ?thesis by (auto simp: Let_def dest!: run_alone_ends)
  qed
qed

subsection \<open>Concrete workers\<close>

lemma worker_new_ready:
  "channel_ready 1 (worker_new r ids h)" "inner (worker_new r ids h) = []"
  "ref_count (worker_new r ids h) = 2" "\<not> freed (worker_new r ids h)" "exit_code (worker_new r ids h) = 0"
  "cleanup_handler (worker_new r ids h) = h"
  by (simp_all add: worker_new_def channel_new_def condvar_new_def channel_ready_def channel_quiet_def
      mutex_quiet_def cv_quiet_def condvar.extend_def channel.extend_def)

lemma exit_state_freed_once_witness:
  "\<exists>s ps. sys_reach (\<lambda>_ _. False) (worker_new fresh_runtime 0 True :: (nat, nat \<times> nat set, 32) worker, exit_clients True True) (s, ps) \<and>
    stuck (s, ps) \<and> freed s"
proof -
  let ?start = "(worker_new fresh_runtime 0 True, exit_clients True True) :: ((nat, nat \<times> nat set, 32) worker, unit) config"
  let ?c = "run_schedule [1, 0, 0, 0, 1, 1, 1] ?start"
  have reach: "sys_reach (\<lambda>_ _. False) ?start (fst ?c, snd ?c)"
    by (simp only: prod.collapse run_schedule_start)
  have fin: "snd ?c = (\<lambda>_. Return ())"
    by (simp add: exit_clients_def [abs_def] worker_new_ready worker_exit_def signal_exit_def
        decrement_and_cleanup_def exit_state_drop_def fun_eq_iff)
  then have "stuck (fst ?c, snd ?c)" by (simp add: stuck_def)
  moreover from this have "freed (fst ?c)"
    using exit_state_freed_once [OF reach, of 0 "[]"] by (simp add: worker_new_ready)
  ultimately show ?thesis using reach by blast
qed


lemma join_refused_on_main_thread_witness:
  "\<exists>s1. ends (wasm_join True set_conts (Wasm32 False) 0) (worker_new fresh_runtime 0 True :: (nat, nat \<times> nat set, 32) worker)
     (Return (Inl main_thread_msg)) s1"
  using join_refused_on_main_thread [OF worker_new_ready(1,4)] by blast

lemma last_exit_needs_cleanup_handler_witness:
  "\<exists>s1. ends (seq exit_state_drop (worker_exit True)) (worker_new fresh_runtime 0 False :: (nat, nat \<times> nat set, 32) worker)
     (Return ()) s1 \<and> ref_count s1 = 0 \<and> \<not> freed s1"
  using last_exit_needs_cleanup_handler [of "worker_new fresh_runtime 0 False :: (nat, nat \<times> nat set, 32) worker" True]
  by (simp add: worker_new_ready)

end
