(* ===== verification/Wasm_Spawn.thy ===== *)
theory Wasm_Spawn
  imports Wasm_Threads_Correct
begin

section \<open>Workers from start to exit (\<open>src/wasm.rs\<close>, \<open>src/wasm/thread_api.rs\<close>)\<close>

text \<open>
  The counter of pending tasks that keeps a worker alive, the two worker scripts and the event
  handlers that report a worker's end, the routing of nested spawns through the page, and the
  numbering of threads. One turn of a worker's event loop is the list of task calls it makes.
\<close>

subsection \<open>Pending tasks\<close>

definition task_begin :: "bool \<Rightarrow> u32 \<Rightarrow> string + u32" where
  "task_begin debug c =
     (if debug \<and> c = - 1 then Inl ''attempt to add with overflow'' else Inr (c + 1))"

definition task_finished :: "bool \<Rightarrow> u32 \<Rightarrow> string + u32" where
  "task_finished debug c =
     (if debug \<and> \<not> c > 0 then Inl ''task_finished called without matching task_begin'' else Inr (c - 1))"

datatype task_op = TaskBegin | TaskFinished

text \<open>A panic ends the task that makes the call; the counter stays as it was.\<close>

fun run_task_op :: "bool \<Rightarrow> task_op \<Rightarrow> u32 \<Rightarrow> u32" where
  "run_task_op debug TaskBegin c = (case task_begin debug c of Inr c' \<Rightarrow> c' | Inl _ \<Rightarrow> c)"
| "run_task_op debug TaskFinished c = (case task_finished debug c of Inr c' \<Rightarrow> c' | Inl _ \<Rightarrow> c)"

text \<open>The script's loop: it looks at the counter, and sleeps for a turn while it is not 0. \<open>None\<close>
  means it still waits after the given turns; else the number of turns it took.\<close>

fun await_tasks :: "bool \<Rightarrow> u32 \<Rightarrow> task_op list list \<Rightarrow> nat option" where
  "await_tasks debug c [] = (if c = 0 then Some 0 else None)"
| "await_tasks debug c (turn # turns) =
     (if c = 0 then Some 0
      else map_option Suc (await_tasks debug (fold (run_task_op debug) turn c) turns))"

text \<open>The exact balance of a history, if no task finishes that was not begun and the counter fits.\<close>

fun balance :: "task_op list \<Rightarrow> nat \<Rightarrow> nat option" where
  "balance [] n = Some n"
| "balance (TaskBegin # ops) n = (if Suc n < 2 ^ 32 then balance ops (Suc n) else None)"
| "balance (TaskFinished # ops) n = (case n of 0 \<Rightarrow> None | Suc m \<Rightarrow> balance ops m)"

lemma of_nat_zero:
  assumes "n < 2 ^ 32"
  shows "(of_nat n :: u32) = 0 \<longleftrightarrow> n = 0"
proof -
  have "unat (of_nat n :: u32) = n" by (rule of_nat_inverse) (use assms in simp_all)
  then show ?thesis by auto
qed

lemma task_ops_exact:
  "balance ops n = Some m \<Longrightarrow> n < 2 ^ 32 \<Longrightarrow> fold (run_task_op debug) ops (of_nat n) = of_nat m \<and> m < 2 ^ 32"
proof (induction ops n rule: balance.induct)
  case (2 ops n)
  then have fits: "Suc n < 2 ^ 32" and rest: "balance ops (Suc n) = Some m" by (auto split: if_splits)
  have "of_nat (Suc n) \<noteq> (0 :: u32)" using of_nat_zero [OF fits] by (simp del: of_nat_Suc)
  then have "of_nat n \<noteq> (- 1 :: u32)" by auto
  then have "run_task_op debug TaskBegin (of_nat n) = of_nat (Suc n)" by (simp add: task_begin_def add.commute)
  with "2.IH" [OF fits rest fits] show ?case by simp
next
  case (3 ops n)
  then obtain k where k: "n = Suc k" "balance ops k = Some m" by (cases n) auto
  have "(of_nat n :: u32) \<noteq> 0" using k(1) "3.prems"(2)
    using of_nat_zero [of n] by (simp del: of_nat_Suc)
  then have "run_task_op debug TaskFinished (of_nat n) = of_nat k"
    using k(1) by (simp add: task_finished_def word_greater_zero_iff)
  with "3.IH" [of k] k "3.prems"(2) show ?case by simp
qed simp

lemma balance_append: "balance (xs @ ys) n = Option.bind (balance xs n) (balance ys)"
  by (induction xs n rule: balance.induct) (auto split: nat.splits)

lemma await_tasks_iff:
  assumes "balance (concat turns) n = Some m" and "n < 2 ^ 32"
  shows "await_tasks debug (of_nat n) turns = Some k \<longleftrightarrow>
    k \<le> length turns \<and> balance (concat (take k turns)) n = Some 0 \<and>
    (\<forall>j<k. balance (concat (take j turns)) n \<noteq> Some 0)"
  using assms
proof (induction turns arbitrary: n k)
  case Nil
  then show ?case by (auto simp: of_nat_zero)
next
  case (Cons turn turns)
  from Cons.prems(1) obtain n' where n': "balance turn n = Some n'" "balance (concat turns) n' = Some m"
    by (auto simp: balance_append bind_eq_Some_conv)
  have exact: "fold (run_task_op debug) turn (of_nat n) = of_nat n'" "n' < 2 ^ 32"
    using task_ops_exact [OF n'(1) Cons.prems(2)] by auto
  show ?case
  proof (cases k)
    case 0
    then show ?thesis using Cons.prems(2) by (simp add: of_nat_zero)
  next
    case (Suc i)
    then show ?thesis using Cons.IH [OF n'(2) exact(2), of i] Cons.prems(2) exact(1) n'(1)
      by (auto simp: of_nat_zero balance_append less_Suc_eq_0_disj)
  qed
qed

text \<open>C29: a worker waits for its tasks. When every finished task was begun before and the counter fits,
  the script ends after the first turn at whose end as many tasks have finished as were begun, and
  not before.\<close>

theorem worker_waits_for_tasks:
  assumes "balance (entry @ concat turns) 0 = Some m" and "balance entry 0 = Some n"
  shows "await_tasks debug (fold (run_task_op debug) entry 0) turns = Some k \<longleftrightarrow>
    k \<le> length turns \<and> balance (entry @ concat (take k turns)) 0 = Some 0 \<and>
    (\<forall>j<k. balance (entry @ concat (take j turns)) 0 \<noteq> Some 0)"
proof -
  have "fold (run_task_op debug) entry 0 = of_nat n" "n < 2 ^ 32"
    using task_ops_exact [OF assms(2), of debug] by auto
  moreover have "balance (concat turns) n = Some m" using assms by (simp add: balance_append)
  ultimately show ?thesis
    using await_tasks_iff [of turns n m debug k] assms(2) by (simp add: balance_append)
qed

lemma worker_waits_for_tasks_witness:
  "await_tasks True (fold (run_task_op True) [TaskBegin, TaskBegin] 0) [[TaskFinished], [TaskFinished]] = Some 2"
proof -
  have "balance ([TaskBegin, TaskBegin] @ concat [[TaskFinished], [TaskFinished]]) 0 = Some 0"
    "balance [TaskBegin, TaskBegin] 0 = Some 2" by simp_all
  then show ?thesis
    by (simp only: worker_waits_for_tasks) (auto simp: less_Suc_eq numeral_2_eq_2)
qed

text \<open>Without the assertion of a debug build, an unmatched \<open>task_finished\<close> makes the worker wait for more
  than four thousand million further ones.\<close>

lemma unmatched_task_finished:
  "task_finished False 0 = Inr (- 1)" "task_finished True 0 = Inl ''task_finished called without matching task_begin''"
  by (simp_all add: task_finished_def)

subsection \<open>How a worker's end is reported\<close>

text \<open>What was thrown: its \<open>message\<close> property, if it has one, and \<open>String(err)\<close>.\<close>

record js_error =
  message :: "string option"
  as_string :: string

definition error_text :: "js_error \<Rightarrow> string" where
  "error_text e = (case message e of Some m \<Rightarrow> if m \<noteq> [] then m else as_string e | None \<Rightarrow> as_string e)"

datatype script_message = ExitMessage | ErrorMessage string

text \<open>The messages a browser worker posts. Loading the module and the entry call can each throw;
  \<open>pending\<close> is the counter after the entry call.\<close>

definition browser_script ::
  "js_error option \<Rightarrow> js_error option \<Rightarrow> bool \<Rightarrow> u32 \<Rightarrow> task_op list list \<Rightarrow> script_message list" where
  "browser_script loading entry debug pending turns = (case loading of
       Some err \<Rightarrow> [ErrorMessage (error_text err)]
     | None \<Rightarrow> (case entry of
         Some err \<Rightarrow> [ErrorMessage (error_text err)]
       | None \<Rightarrow> if await_tasks debug pending turns \<noteq> None then [ExitMessage] else []))"

text \<open>A Node worker's exit code, once it has one: an unhandled rejection ends it with code 1.\<close>

definition node_script ::
  "js_error option \<Rightarrow> js_error option \<Rightarrow> bool \<Rightarrow> u32 \<Rightarrow> task_op list list \<Rightarrow> nat option" where
  "node_script loading entry debug pending turns = (case loading of
       Some err \<Rightarrow> Some 1
     | None \<Rightarrow> (case entry of
         Some err \<Rightarrow> Some 1
       | None \<Rightarrow> if await_tasks debug pending turns \<noteq> None then Some 0 else None))"

text \<open>The handlers in the realm that created the worker.\<close>

fun browser_onmessage :: "script_message \<Rightarrow> (('a, 'k, 'w::len, 'z) worker_scheme, unit) prog" where
  "browser_onmessage ExitMessage = seq (signal_exit 1) decrement_and_cleanup"
| "browser_onmessage (ErrorMessage m) =
     (if m \<noteq> [] then seq (signal_exit 2) decrement_and_cleanup else Return ())"

definition browser_onerror :: "(('a, 'k, 'w::len, 'z) worker_scheme, unit) prog" where
  "browser_onerror = seq (signal_exit 2) decrement_and_cleanup"

definition node_onexit :: "nat \<Rightarrow> (('a, 'k, 'w::len, 'z) worker_scheme, unit) prog" where
  "node_onexit code = worker_exit (code = 0)"

lemma browser_handlers:
  "browser_onmessage ExitMessage = worker_exit True"
  "m \<noteq> [] \<Longrightarrow> browser_onmessage (ErrorMessage m) = worker_exit False"
  "browser_onerror = worker_exit False"
  by (simp_all add: browser_onerror_def worker_exit_def)


text \<open>A browser reports every uncaught error of a worker, and the handler lowers the count for each:
  after two of them the exit state is freed while the handle still owns it, and dropping the
  handle uses freed memory.\<close>

lemma errors_counted_twice:
  assumes "\<not> freed s" and "ref_count s = 2" and "cleanup_handler s"
  shows "\<exists>s1. ends (seq browser_onerror browser_onerror) s (Return ()) s1 \<and> freed s1 \<and>
    ends exit_state_drop s1 (Panic use_after_free_msg) s1"
proof -
  let ?s = "s\<lparr>exit_code := 2, ref_count := 1\<rparr>"
  have "ends browser_onerror s (Return ()) ?s"
    using ends_worker_exit [OF assms(1,2), of False] by (simp add: browser_handlers)
  moreover have "ends browser_onerror ?s (Return ()) (?s\<lparr>ref_count := 0, freed := True\<rparr>)"
    by (rule run_alone_ends [of 4])
      (use assms in \<open>simp_all add: browser_onerror_def signal_exit_def decrement_and_cleanup_def eval_nat_numeral\<close>)
  moreover have "ends exit_state_drop (?s\<lparr>ref_count := 0, freed := True\<rparr>) (Panic use_after_free_msg)
      (?s\<lparr>ref_count := 0, freed := True\<rparr>)"
    by (rule run_alone_ends [of 1]) (simp_all add: exit_state_drop_def)
  ultimately show ?thesis
    by (intro exI [of _ "?s\<lparr>ref_count := 0, freed := True\<rparr>"]) (auto intro: ends_bind)
qed


lemma errors_counted_twice_witness:
  "\<exists>s1. ends (seq browser_onerror browser_onerror) (worker_new fresh_runtime 0 True :: (nat, _, 32) worker) (Return ()) s1 \<and> freed s1"
  using errors_counted_twice [of "worker_new fresh_runtime 0 True :: (nat, _, 32) worker"]
  by (simp only: worker_new_ready) blast

subsection \<open>Which realm creates a worker\<close>

text \<open>
  Every thread is a JavaScript realm, the page first. A realm knows the one that created it,
  whether it is a worker that may hand spawns to its parent, and whether the cleanup handler
  was registered in it, which \<open>INIT_HANDLERS\<close> in the shared memory allows only once.
\<close>

record realm =
  parent :: nat
  is_worker :: bool
  can_relay :: bool
  has_handler :: bool

record world =
  realms :: "realm list"
  handlers_initialized :: bool

definition page_world :: world where
  "page_world = \<lparr>realms = [\<lparr>parent = 0, is_worker = False, can_relay = False, has_handler = False\<rparr>],
     handlers_initialized = False\<rparr>"

definition init_handlers :: "nat \<Rightarrow> world \<Rightarrow> world" where
  "init_handlers i w =
     (if handlers_initialized w then w
      else w\<lparr>handlers_initialized := True, realms := (realms w)[i := (realms w ! i)\<lparr>has_handler := True\<rparr>]\<rparr>)"

text \<open>\<open>Created i\<close>: realm \<open>i\<close> creates the worker; \<open>Refused i\<close>: realm \<open>i\<close> could not post the request
  to its parent and signals an error. The fuel is the number of realms: each hop goes to an older one.\<close>

datatype placement = Created nat | Refused nat

fun place_spawn :: "nat \<Rightarrow> (nat \<Rightarrow> bool) \<Rightarrow> world \<Rightarrow> nat \<Rightarrow> placement option" where
  "place_spawn 0 post w i = None"
| "place_spawn (Suc n) post w i = (let r = realms w ! i in
     if is_worker r \<and> can_relay r
     then if post i then place_spawn n post w (parent r) else Some (Refused i)
     else Some (Created i))"

definition add_worker :: "bool \<Rightarrow> nat \<Rightarrow> world \<Rightarrow> world" where
  "add_worker relay i w =
     w\<lparr>realms := realms w @ [\<lparr>parent = i, is_worker = True, can_relay = relay, has_handler = False\<rparr>]\<rparr>"

text \<open>\<open>spawn_with_shared_module\<close> called in realm \<open>i\<close>. A browser worker is told that its parent manages
  it; a Node worker is created by the realm itself.\<close>

definition spawn_in_browser :: "(nat \<Rightarrow> bool) \<Rightarrow> nat \<Rightarrow> world \<Rightarrow> world \<times> placement option" where
  "spawn_in_browser post i w = (let w1 = init_handlers i w in
     case place_spawn (length (realms w1)) post w1 i of
       Some (Created j) \<Rightarrow> (add_worker True j w1, Some (Created j))
     | p \<Rightarrow> (w1, p))"

definition spawn_in_node :: "nat \<Rightarrow> world \<Rightarrow> world \<times> placement option" where
  "spawn_in_node i w = (let w1 = init_handlers i w in (add_worker False i w1, Some (Created i)))"

text \<open>Any spawns, one after the other, by realms that exist.\<close>

fun run_spawns :: "bool \<Rightarrow> (nat \<times> (nat \<Rightarrow> bool)) list \<Rightarrow> world \<Rightarrow> world" where
  "run_spawns browser [] w = w"
| "run_spawns browser ((i, post) # js) w = run_spawns browser js
     (if i < length (realms w) then fst (if browser then spawn_in_browser post i w else spawn_in_node i w) else w)"

definition exit_meets_handler :: "world \<Rightarrow> nat \<Rightarrow> bool" where
  "exit_meets_handler w k \<longleftrightarrow> has_handler (realms w ! parent (realms w ! k))"

text \<open>The page is the first realm and only it has the handler, from the first spawn on.\<close>

definition world_inv :: "bool \<Rightarrow> world \<Rightarrow> bool" where
  "world_inv browser w \<longleftrightarrow> realms w \<noteq> [] \<and> \<not> is_worker (hd (realms w)) \<and>
     has_handler (hd (realms w)) = handlers_initialized w \<and> (handlers_initialized w \<or> length (realms w) = 1) \<and>
     (\<forall>r\<in>set (tl (realms w)). is_worker r \<and> can_relay r = browser \<and> \<not> has_handler r \<and> (browser \<longrightarrow> parent r = 0) \<and>
       parent r < length (realms w))"

lemma world_inv_page: "world_inv browser page_world"
  by (simp add: world_inv_def page_world_def)

lemma world_inv_split:
  assumes "world_inv browser w" and "i < length (realms w)"
  shows "handlers_initialized w \<or> i = 0"
  using assms by (cases "realms w") (auto simp: world_inv_def)

lemma world_inv_init:
  assumes "world_inv browser w" and "i < length (realms w)"
  shows "world_inv browser (init_handlers i w)" and "handlers_initialized (init_handlers i w)"
    and "length (realms (init_handlers i w)) = length (realms w)"
  using assms world_inv_split [OF assms]
  by (cases "realms w"; auto simp: world_inv_def init_handlers_def)+

lemma world_inv_add:
  "world_inv browser w \<Longrightarrow> handlers_initialized w \<Longrightarrow> j < length (realms w) \<Longrightarrow> browser \<longrightarrow> j = 0 \<Longrightarrow>
   world_inv browser (add_worker browser j w)"
  by (cases "realms w") (auto simp: world_inv_def add_worker_def)

lemma world_inv_root:
  assumes "world_inv browser w"
  shows "realms w \<noteq> []" and "\<not> is_worker (realms w ! 0)" and "has_handler (realms w ! 0) = handlers_initialized w"
  using assms by (auto simp: world_inv_def hd_conv_nth)

lemma world_inv_nth:
  assumes "world_inv browser w" and "i < length (realms w)" and "i \<noteq> 0"
  shows "is_worker (realms w ! i)" and "can_relay (realms w ! i) = browser" and "\<not> has_handler (realms w ! i)"
    and "browser \<Longrightarrow> parent (realms w ! i) = 0" and "parent (realms w ! i) < length (realms w)"
proof -
  obtain j where "i = Suc j" using assms(3) by (cases i) auto
  then have "realms w ! i \<in> set (tl (realms w))"
    using assms(2) by (simp add: nth_tl [symmetric])
  then show "is_worker (realms w ! i)" and "can_relay (realms w ! i) = browser" and "\<not> has_handler (realms w ! i)"
    and "browser \<Longrightarrow> parent (realms w ! i) = 0" and "parent (realms w ! i) < length (realms w)"
    using assms(1) by (auto simp: world_inv_def)
qed

text \<open>A browser's spawn takes at most one hop, to the page.\<close>

lemma place_spawn_page:
  assumes "world_inv True w" and "i < length (realms w)"
  shows "place_spawn (length (realms w)) post w i =
    Some (if i = 0 \<or> post i then Created 0 else Refused i)"
proof -
  have page: "place_spawn (Suc n) post w 0 = Some (Created 0)" for n
    using world_inv_root(2) [OF assms(1)] by (simp add: Let_def)
  show ?thesis
  proof (cases "i = 0")
    case True
    with assms(2) page show ?thesis by (cases "length (realms w)") auto
  next
    case False
    then obtain n where "length (realms w) = Suc (Suc n)"
      using assms(2) by (metis Suc_lessE less_antisym not0_implies_Suc not_less_zero)
    with False page world_inv_nth(1,2,4) [OF assms False] show ?thesis by (simp add: Let_def)
  qed
qed

lemma world_inv_spawn:
  assumes "world_inv browser w" and "i < length (realms w)"
  shows "world_inv browser (fst (if browser then spawn_in_browser post i w else spawn_in_node i w))"
proof -
  note init = world_inv_init [OF assms]
  show ?thesis
  proof (cases browser)
    case True
    have "world_inv True (add_worker True 0 (init_handlers i w))"
      using init assms(2) True by (intro world_inv_add) auto
    with True init place_spawn_page [of "init_handlers i w" i post] assms(2) show ?thesis
      by (auto simp: spawn_in_browser_def Let_def)
  next
    case False
    with init assms(2) show ?thesis by (simp add: spawn_in_node_def Let_def world_inv_add)
  qed
qed

lemma world_inv_spawns: "world_inv browser w \<Longrightarrow> world_inv browser (run_spawns browser js w)"
proof (induction js arbitrary: w)
  case (Cons j js)
  then show ?case using world_inv_spawn [of browser w] by (cases j) (simp split: if_splits)
qed simp



subsection \<open>Thread identities\<close>

text \<open>
  \<open>THREAD_COUNTER\<close> and each thread's \<open>CURRENT_THREAD\<close>: the name and the id of its \<open>Thread\<close>. The counter
  is a 64-bit word that wraps.
\<close>

record wasm_thread =
  thread_name :: "string option"
  thread_id :: u64

record thread_table =
  thread_counter :: u64
  current_thread :: "tid \<Rightarrow> wasm_thread option"

definition thread_table_new :: thread_table where
  "thread_table_new = \<lparr>thread_counter = 0, current_thread = (\<lambda>_. None)\<rparr>"

definition new_thread :: "string option \<Rightarrow> thread_table \<Rightarrow> thread_table \<times> wasm_thread" where
  "new_thread name s = (s\<lparr>thread_counter := thread_counter s + 1\<rparr>,
     \<lparr>thread_name = name, thread_id = thread_counter s\<rparr>)"

definition set_current :: "tid \<Rightarrow> wasm_thread \<Rightarrow> thread_table \<Rightarrow> thread_table" where
  "set_current t th s = s\<lparr>current_thread := (current_thread s)(t \<mapsto> th)\<rparr>"

definition wasm_current :: "bool \<Rightarrow> tid \<Rightarrow> thread_table \<Rightarrow> thread_table \<times> wasm_thread" where
  "wasm_current main t s = (case current_thread s t of
       Some th \<Rightarrow> (s, th)
     | None \<Rightarrow> (let (s1, th) = new_thread (if main then Some ''main'' else None) s in (set_current t th s1, th)))"

text \<open>\<open>Builder::spawn\<close> makes the identity; the worker \<open>t\<close> installs it before it runs anything.\<close>

definition wasm_spawn_thread :: "string option \<Rightarrow> tid \<Rightarrow> thread_table \<Rightarrow> thread_table \<times> wasm_thread" where
  "wasm_spawn_thread name t s = (let (s1, th) = new_thread name s in (set_current t th s1, th))"

fun decimal :: "nat \<Rightarrow> string" where
  "decimal n = (if n < 10 then [char_of (48 + n)] else decimal (n div 10) @ [char_of (48 + n mod 10)])"

declare decimal.simps [simp del]

definition thread_id_fmt :: "u64 \<Rightarrow> string" where
  "thread_id_fmt i = ''ThreadId('' @ decimal (unat i) @ '')''"

definition worker_name :: "wasm_thread \<Rightarrow> string" where
  "worker_name th = (case thread_name th of
       Some n \<Rightarrow> n
     | None \<Rightarrow> ''wasm_safe_thread '' @ decimal (unat (thread_id th)))"

text \<open>Reading a decimal back, to see that different ids show differently.\<close>

definition undecimal :: "string \<Rightarrow> nat" where
  "undecimal s = foldl (\<lambda>a c. 10 * a + (of_char c - 48)) 0 s"

lemma undecimal_decimal: "undecimal (decimal n) = n"
proof (induction n rule: decimal.induct)
  case (1 n)
  have digit: "(of_char (char_of (48 + d :: nat)) :: nat) = 48 + d" if "d < 10" for d
    using that by simp
  show ?case
  proof (cases "n < 10")
    case True
    then show ?thesis using digit [of n] by (simp add: decimal.simps [of n] undecimal_def)
  next
    case False
    then show ?thesis using 1 [OF False] digit [of "n mod 10"]
      by (simp add: decimal.simps [of n] undecimal_def)
  qed
qed

lemma thread_id_fmt_inj: "thread_id_fmt i = thread_id_fmt j \<longleftrightarrow> i = j"
proof -
  have "decimal (unat i) = decimal (unat j) \<longleftrightarrow> unat i = unat j" by (metis undecimal_decimal)
  then show ?thesis by (simp add: thread_id_fmt_def word_unat_eq_iff)
qed

datatype id_op = Current bool tid | Spawned "string option" tid

fun run_id_op :: "id_op \<Rightarrow> thread_table \<Rightarrow> thread_table" where
  "run_id_op (Current main t) s = fst (wasm_current main t s)"
| "run_id_op (Spawned name t) s = fst (wasm_spawn_thread name t s)"

definition ids_inv :: "nat \<Rightarrow> thread_table \<Rightarrow> bool" where
  "ids_inv n s \<longleftrightarrow> thread_counter s = of_nat n \<and>
     (\<forall>t th. current_thread s t = Some th \<longrightarrow> unat (thread_id th) < n) \<and>
     (\<forall>t u th uh. current_thread s t = Some th \<and> current_thread s u = Some uh \<and> t \<noteq> u \<longrightarrow> thread_id th \<noteq> thread_id uh)"

lemma unat_counter: "n < 2 ^ 64 \<Longrightarrow> unat (of_nat n :: u64) = n"
  by (rule of_nat_inverse) simp_all

lemma ids_inv_new:
  assumes "ids_inv n s" and "n < 2 ^ 64" and "new_thread name s = (s1, th)"
  shows "ids_inv (Suc n) (set_current t th s1)"
proof -
  have th: "unat (thread_id th) = n" and s1: "s1 = s\<lparr>thread_counter := of_nat (Suc n)\<rparr>"
    using assms by (auto simp: new_thread_def ids_inv_def unat_counter add.commute)
  have older: "unat (thread_id uh) < n" if "current_thread s u = Some uh" for u uh
    using assms(1) that by (simp add: ids_inv_def)
  then have fresh: "thread_id uh \<noteq> thread_id th" if "current_thread s u = Some uh" for u uh
    using th that by fastforce
  have apart: "thread_id vh \<noteq> thread_id uh"
    if "current_thread s v = Some vh" "current_thread s u = Some uh" "v \<noteq> u" for v u vh uh
    using assms(1) that by (simp add: ids_inv_def)
  show ?thesis
    unfolding ids_inv_def s1 set_current_def
    using th older fresh apart fresh [symmetric] by (auto simp: less_Suc_eq split: if_splits)
qed

lemma ids_inv_op:
  assumes "ids_inv n s" and "n < 2 ^ 64"
  shows "\<exists>m. ids_inv m (run_id_op op s) \<and> m \<le> Suc n"
proof (cases op)
  case (Current main t)
  show ?thesis
  proof (cases "current_thread s t")
    case None
    then show ?thesis
      using ids_inv_new [OF assms, of "if main then Some ''main'' else None"] Current
      by (cases "new_thread (if main then Some ''main'' else None) s")
        (auto simp: wasm_current_def intro!: exI [of _ "Suc n"])
  next
    case (Some th)
    with assms(1) Current show ?thesis by (auto simp: wasm_current_def intro!: exI [of _ n])
  qed
next
  case (Spawned name t)
  then show ?thesis
    using ids_inv_new [OF assms, of name]
    by (cases "new_thread name s") (auto simp: wasm_spawn_thread_def intro!: exI [of _ "Suc n"])
qed

lemma ids_inv_run:
  assumes "ids_inv n s" and "n + length ops \<le> 2 ^ 64"
  shows "\<exists>m. ids_inv m (fold run_id_op ops s)"
  using assms
proof (induction ops arbitrary: n s)
  case (Cons op ops)
  then obtain m where "ids_inv m (run_id_op op s)" "m \<le> Suc n" using ids_inv_op [of n s op] by auto
  with Cons show ?case by simp
qed auto



end
