(* ===== verification/Wasm_Env.thy ===== *)
theory Wasm_Env
  imports Prelude "HOL-Library.Sublist" "HOL-Library.Word"
begin

section \<open>The JavaScript environment (\<open>src/wasm.rs\<close>, \<open>src/wasm/wasm_utils.rs\<close>, \<open>src/wasm_support.rs\<close>)\<close>

text \<open>
  What the inline JavaScript finds out about its surroundings: which kind of thread it is on, how
  many processors there are, which script a worker has to load; and the console redirection.
  The environment itself (globals, Node's built-in modules, the list of loaded resources, the
  path of a URL, the decoding of UTF-8) is a record or an argument.
\<close>

subsection \<open>Where are we\<close>

record js_env =
  versions_node :: bool
  release_name :: "string option"
  has_window :: bool
  has_document :: bool
  worker_threads_main :: "bool option"
  hardware_concurrency :: "32 word"
  os_available_parallelism :: "32 word option"
  os_cpus :: "32 word option"

definition env_is_node :: "js_env \<Rightarrow> bool" where
  "env_is_node e \<longleftrightarrow> versions_node e \<and> release_name e = Some ''node''"

definition env_is_main_thread :: "js_env \<Rightarrow> string + bool" where
  "env_is_main_thread e =
     (if \<not> env_is_node e then Inr (has_window e \<and> has_document e)
      else case worker_threads_main e of Some b \<Rightarrow> Inr b | None \<Rightarrow> Inl ''Can't detect'')"

definition get_available_parallelism :: "js_env \<Rightarrow> 32 word" where
  "get_available_parallelism e =
     (if hardware_concurrency e \<noteq> 0 then hardware_concurrency e
      else if versions_node e then
        (case os_available_parallelism e of
           Some n \<Rightarrow> n
         | None \<Rightarrow> (case os_cpus e of Some n \<Rightarrow> if n > 0 then n else 1 | None \<Rightarrow> 1))
      else 1)"

definition available_parallelism :: "js_env \<Rightarrow> string + 32 word" where
  "available_parallelism e = (let count = get_available_parallelism e in
     if count = 0 then Inl ''could not determine available parallelism'' else Inr count)"

datatype wait_probe = ProbeTimedOut | ProbeNotEqual | ProbeOk | ProbeThrew

definition supports_atomics_wait :: "bool \<Rightarrow> bool \<Rightarrow> wait_probe \<Rightarrow> bool" where
  "supports_atomics_wait shared_array_buffer atomics_wait_function result =
     (if \<not> shared_array_buffer then False
      else if \<not> atomics_wait_function then False
      else result = ProbeTimedOut \<or> result = ProbeNotEqual)"

text \<open>Node's documentation promises at least one processor; then the answer is never an error.\<close>

lemma available_parallelism_positive:
  assumes "os_available_parallelism e \<noteq> Some 0"
  shows "\<exists>n. available_parallelism e = Inr n \<and> n \<ge> 1"
proof -
  have "get_available_parallelism e \<noteq> 0"
    using assms by (auto simp: get_available_parallelism_def word_greater_zero_iff split: option.splits)
  then show ?thesis
    by (simp add: available_parallelism_def Let_def word_le_nat_alt unat_gt_0 Suc_le_eq)
qed

subsection \<open>JavaScript's string functions\<close>

fun index_of :: "string \<Rightarrow> string \<Rightarrow> nat option" where
  "index_of p [] = (if p = [] then Some 0 else None)"
| "index_of p (c # s) = (if prefix p (c # s) then Some 0 else map_option Suc (index_of p s))"

definition contains :: "string \<Rightarrow> string \<Rightarrow> bool" where
  "contains p s \<longleftrightarrow> index_of p s \<noteq> None"

definition before :: "char \<Rightarrow> string \<Rightarrow> string" where
  "before c s = takeWhile (\<lambda>x. x \<noteq> c) s"

definition after_last :: "char \<Rightarrow> string \<Rightarrow> string" where
  "after_last c s = rev (takeWhile (\<lambda>x. x \<noteq> c) (rev s))"

lemma index_of_Some:
  "index_of p s = Some i \<Longrightarrow> i \<le> length s \<and> prefix p (drop i s) \<and> (\<forall>j<i. \<not> prefix p (drop j s))"
proof (induction p s arbitrary: i rule: index_of.induct)
  case (2 p c s)
  show ?case
  proof (cases "prefix p (c # s)")
    case False
    with "2.prems" obtain j where j: "index_of p s = Some j" "i = Suc j" by auto
    from "2.IH" [OF False j(1)] False j(2) show ?thesis
      by (auto simp: less_Suc_eq_0_disj)
  qed (use "2.prems" in auto)
qed (auto split: if_splits)

lemma index_of_None: "index_of p s = None \<Longrightarrow> \<not> prefix p (drop j s)"
proof (induction p s arbitrary: j rule: index_of.induct)
  case (2 p c s)
  then show ?case by (cases j) (auto split: if_splits)
qed (auto split: if_splits)

lemma index_of_iff:
  "index_of p s = Some i \<longleftrightarrow> i \<le> length s \<and> prefix p (drop i s) \<and> (\<forall>j<i. \<not> prefix p (drop j s))"
  (is "_ \<longleftrightarrow> ?first i")
proof
  assume first: "?first i"
  show "index_of p s = Some i"
  proof (cases "index_of p s")
    case None
    with first show ?thesis using index_of_None by blast
  next
    case (Some k)
    from index_of_Some [OF this] first have "k = i" by (meson nat_neq_iff)
    with Some show ?thesis by simp
  qed
qed (rule index_of_Some)

lemma contains_iff: "contains p s \<longleftrightarrow> (\<exists>xs ys. s = xs @ p @ ys)"
proof
  assume "contains p s"
  then obtain i where "index_of p s = Some i" by (auto simp: contains_def)
  then have "prefix p (drop i s)" by (simp add: index_of_iff)
  then obtain ys where "drop i s = p @ ys" by (auto simp: prefix_def)
  then have "s = take i s @ p @ ys" by (metis append_take_drop_id)
  then show "\<exists>xs ys. s = xs @ p @ ys" by blast
next
  assume "\<exists>xs ys. s = xs @ p @ ys"
  then obtain xs ys where "s = xs @ p @ ys" by blast
  then have "prefix p (drop (length xs) s)" by simp
  then show "contains p s" using index_of_None unfolding contains_def by blast
qed

lemma prefix_before:
  assumes "prefix p s" and "c \<notin> set p"
  shows "prefix p (before c s)"
proof -
  obtain zs where "s = p @ zs" using assms(1) by (auto simp: prefix_def)
  moreover have "takeWhile (\<lambda>x. x \<noteq> c) (p @ zs) = p @ takeWhile (\<lambda>x. x \<noteq> c) zs"
    using assms(2) by (intro takeWhile_append2) auto
  ultimately show ?thesis by (simp add: before_def)
qed

subsection \<open>The script a worker loads\<close>

text \<open>A resource is an entry of the Performance API with the \<open>pathname\<close> of its URL.\<close>

record resource =
  resource_name :: string
  pathname :: string

definition no_snippets_msg :: string where
  "no_snippets_msg = ''Cannot derive shim URL: SELF_URL doesn't contain /snippets/: ''"

definition get_shim_url :: "string \<Rightarrow> string \<Rightarrow> string + string" where
  "get_shim_url self_url shim_name = (case index_of ''/snippets/'' self_url of
       None \<Rightarrow> Inl (no_snippets_msg @ self_url)
     | Some idx \<Rightarrow> Inr (take idx self_url @ ''/'' @ shim_name @ ''.js''))"

definition resource_shim :: "string \<Rightarrow> resource \<Rightarrow> string option" where
  "resource_shim base r =
     (if \<not> prefix (base @ ''/'') (resource_name r) then None
      else if contains ''/snippets/'' (resource_name r) then None
      else let path = pathname r in
        if suffix ''/run.js'' path then None
        else if suffix ''.js'' path then Some (before CHR ''?'' (resource_name r))
        else let filename = after_last CHR ''/'' path in
          if filename \<noteq> [] \<and> \<not> contains ''.'' filename \<and> filename \<noteq> ''favicon''
          then Some (before CHR ''?'' (resource_name r) @ ''.js'')
          else None)"

fun first_shim :: "string \<Rightarrow> resource list \<Rightarrow> string option" where
  "first_shim base [] = None"
| "first_shim base (r # rs) = (case resource_shim base r of Some u \<Rightarrow> Some u | None \<Rightarrow> first_shim base rs)"

definition detect_shim_url :: "string \<Rightarrow> bool \<Rightarrow> resource list \<Rightarrow> string + string option" where
  "detect_shim_url self_url node resources = (case index_of ''/snippets/'' self_url of
       None \<Rightarrow> Inl (no_snippets_msg @ self_url)
     | Some idx \<Rightarrow> if node then Inr None else Inr (first_shim (take idx self_url) resources))"

text \<open>The choice made by \<open>wasm_safe_thread_spawn_worker\<close>; an empty string is false in JavaScript.\<close>

definition shim_url :: "string \<Rightarrow> bool \<Rightarrow> resource list \<Rightarrow> string \<Rightarrow> string + string" where
  "shim_url self_url node resources shim_name =
     (if shim_name \<noteq> [] then get_shim_url self_url shim_name
      else case detect_shim_url self_url node resources of
        Inl e \<Rightarrow> Inl e
      | Inr (Some u) \<Rightarrow> if u \<noteq> [] then Inr u else get_shim_url self_url ''wasm-bindgen-test''
      | Inr None \<Rightarrow> get_shim_url self_url ''wasm-bindgen-test'')"

lemma resource_shim_Some:
  assumes "resource_shim base r = Some u" and "CHR ''?'' \<notin> set base"
  shows "prefix (base @ ''/'') u"
proof -
  have "prefix (base @ ''/'') (before CHR ''?'' (resource_name r))"
    using assms by (intro prefix_before) (auto simp: resource_shim_def split: if_splits)
  with assms(1) show ?thesis by (auto simp: resource_shim_def Let_def split: if_splits)
qed

lemma first_shim_Some:
  "first_shim base rs = Some u \<longleftrightarrow>
     (\<exists>as r bs. rs = as @ r # bs \<and> (\<forall>a\<in>set as. resource_shim base a = None) \<and> resource_shim base r = Some u)"
  (is "_ \<longleftrightarrow> ?split rs")
proof (induction rs)
  case (Cons x xs)
  show ?case
  proof (cases "resource_shim base x")
    case None
    have "?split (x # xs) \<longleftrightarrow> ?split xs"
    proof
      assume "?split (x # xs)"
      then obtain as r bs where s: "x # xs = as @ r # bs" "\<forall>a\<in>set as. resource_shim base a = None"
        "resource_shim base r = Some u" by blast
      then show "?split xs" using None by (cases as) auto
    next
      assume "?split xs"
      then obtain as r bs where "xs = as @ r # bs" "\<forall>a\<in>set as. resource_shim base a = None"
        "resource_shim base r = Some u" by blast
      with None show "?split (x # xs)" by (intro exI [of _ "x # as"] exI [of _ r] exI [of _ bs]) simp
    qed
    with None Cons.IH show ?thesis by simp
  next
    case (Some v)
    show ?thesis
    proof
      assume "first_shim base (x # xs) = Some u"
      with Some show "?split (x # xs)" by (intro exI [of _ "[]"] exI [of _ x] exI [of _ xs]) simp
    next
      assume "?split (x # xs)"
      then obtain as r bs where s: "x # xs = as @ r # bs" "\<forall>a\<in>set as. resource_shim base a = None"
        "resource_shim base r = Some u" by blast
      with Some show "first_shim base (x # xs) = Some u" by (cases as) auto
    qed
  qed
qed simp

lemma shim_url_error:
  "(\<exists>e. shim_url self_url node resources shim_name = Inl e) \<longleftrightarrow> \<not> contains ''/snippets/'' self_url"
  by (auto simp: shim_url_def get_shim_url_def detect_shim_url_def contains_def split: option.splits if_splits)

text \<open>Every script the crate lets a worker load lies under the directory its own snippet was loaded
  from: the named shim, else the first loaded resource that qualifies, else the test runner's.\<close>

lemma shim_url_under_own_base:
  assumes self: "self_url = base @ ''/snippets/'' @ rest"
    and first: "\<forall>j<length base. \<not> prefix ''/snippets/'' (drop j self_url)"
    and q: "CHR ''?'' \<notin> set base"
  shows "\<exists>u. shim_url self_url node resources shim_name = Inr u \<and> prefix (base @ ''/'') u \<and>
    (shim_name \<noteq> [] \<longrightarrow> u = base @ ''/'' @ shim_name @ ''.js'') \<and>
    (shim_name = [] \<and> (node \<or> first_shim base resources = None) \<longrightarrow> u = base @ ''/wasm-bindgen-test.js'') \<and>
    (shim_name = [] \<and> \<not> node \<and> first_shim base resources \<noteq> None \<longrightarrow>
      (\<exists>as r bs. resources = as @ r # bs \<and> (\<forall>a\<in>set as. resource_shim base a = None) \<and> resource_shim base r = Some u))"
proof -
  have idx: "index_of ''/snippets/'' self_url = Some (length base)" using self first by (simp add: index_of_iff)
  have base: "take (length base) self_url = base" by (simp add: self)
  show ?thesis
  proof (cases "shim_name = [] \<and> \<not> node \<and> first_shim base resources \<noteq> None")
    case True
    then obtain u where u: "first_shim base resources = Some u" by blast
    then obtain as r bs where split: "resources = as @ r # bs" "\<forall>a\<in>set as. resource_shim base a = None"
      "resource_shim base r = Some u" by (auto simp: first_shim_Some)
    have under: "prefix (base @ ''/'') u" using split(3) q by (rule resource_shim_Some)
    then have "u \<noteq> []" by auto
    then have "shim_url self_url node resources shim_name = Inr u"
      using True u idx base by (simp add: shim_url_def detect_shim_url_def)
    then show ?thesis using True split under by (intro exI [of _ u]) auto
  next
    case False
    then show ?thesis
      using idx base by (auto simp: shim_url_def detect_shim_url_def get_shim_url_def)
  qed
qed

text \<open>A page whose test runner is skipped and whose extensionless module is found.\<close>

definition demo_resources :: "resource list" where
  "demo_resources =
     [\<lparr>resource_name = ''https://h/app/run.js'', pathname = ''/app/run.js''\<rparr>,
      \<lparr>resource_name = ''https://h/app/demo?v=1'', pathname = ''/app/demo''\<rparr>]"

lemma shim_url_under_own_base_witness:
  "\<exists>u. shim_url ''/app/snippets/x.js'' False demo_resources [] = Inr u \<and> prefix ''/app/'' u"
proof -
  have "\<forall>j<length ''/app''. \<not> prefix ''/snippets/'' (drop j ''/app/snippets/x.js'')"
    by (auto simp: less_Suc_eq)
  then show ?thesis
    using shim_url_under_own_base [of "''/app/snippets/x.js''" "''/app''" "''x.js''" False demo_resources "[]"] by auto
qed

lemma shim_url_example:
  "shim_url ''https://h/app/snippets/x.js'' False demo_resources [] = Inr ''https://h/app/demo.js''"
  by (simp add: shim_url_def detect_shim_url_def demo_resources_def resource_shim_def suffix_def before_def
      after_last_def contains_def)

subsection \<open>Redirecting prints to the console\<close>

text \<open>
  Only a nightly compiler can capture the output of \<open>println\<close>; \<open>decode\<close> is
  \<open>String::from_utf8_lossy\<close>, a parameter. \<open>str::lines\<close> takes off each line's end, a newline with an
  optional carriage return before it.
\<close>

type_synonym bytes = "8 word list"

datatype console_line = Log string | Error string

record console =
  capture :: "bytes option"
  shown :: "console_line list"

definition no_cr :: "string \<Rightarrow> string" where
  "no_cr l = (if l \<noteq> [] \<and> last l = CHR 0x0D then butlast l else l)"

fun lines_from :: "string \<Rightarrow> string \<Rightarrow> string list" where
  "lines_from l [] = (if l = [] then [] else [l])"
| "lines_from l (c # s) = (if c = CHR 0x0A then no_cr l # lines_from [] s else lines_from (l @ [c]) s)"

definition text_lines :: "string \<Rightarrow> string list" where
  "text_lines s = lines_from [] s"

definition route_line :: "string \<Rightarrow> console_line" where
  "route_line l = (if contains '' panicked at '' l then Error l else Log l)"

definition redirect_prints :: "bool \<Rightarrow> console \<Rightarrow> console" where
  "redirect_prints nightly s =
     (if \<not> nightly then s else case capture s of Some _ \<Rightarrow> s | None \<Rightarrow> s\<lparr>capture := Some []\<rparr>)"

definition print_bytes :: "bytes \<Rightarrow> console \<Rightarrow> console" where
  "print_bytes b s = (case capture s of Some c \<Rightarrow> s\<lparr>capture := Some (c @ b)\<rparr> | None \<Rightarrow> s)"

definition flush_captured_prints :: "bool \<Rightarrow> (bytes \<Rightarrow> string) \<Rightarrow> console \<Rightarrow> console" where
  "flush_captured_prints nightly decode s = (if \<not> nightly then s else case capture s of
       None \<Rightarrow> s
     | Some bytes \<Rightarrow> if bytes = [] then s
         else s\<lparr>capture := Some [], shown := shown s @ map route_line (text_lines (decode bytes))\<rparr>)"

lemma lines_from_newline: "lines_from l (a @ CHR 0x0A # b) = lines_from l (a @ [CHR 0x0A]) @ text_lines b"
  by (induction a arbitrary: l) (simp_all add: text_lines_def)

lemma text_lines_append:
  assumes "a = [] \<or> last a = CHR 0x0A"
  shows "text_lines (a @ b) = text_lines a @ text_lines b"
proof (cases "a = []")
  case False
  with assms obtain a' where "a = a' @ [CHR 0x0A]" by (metis append_butlast_last_id)
  then show ?thesis using lines_from_newline [of "[]" a' b] by (simp add: text_lines_def)
qed (simp add: text_lines_def)

text \<open>A thread's prints, each of whole lines, with flushes among them.\<close>

datatype print_op = Print bytes | Flush

fun run_print :: "(bytes \<Rightarrow> string) \<Rightarrow> print_op \<Rightarrow> console \<Rightarrow> console" where
  "run_print decode (Print b) s = print_bytes b s"
| "run_print decode Flush s = flush_captured_prints True decode s"

fun printed :: "print_op list \<Rightarrow> bytes" where
  "printed [] = []"
| "printed (Print b # ops) = b @ printed ops"
| "printed (Flush # ops) = printed ops"

definition whole_lines :: "bytes \<Rightarrow> bool" where
  "whole_lines b \<longleftrightarrow> b = [] \<or> last b = 10"

definition utf8_lossy_laws :: "(bytes \<Rightarrow> string) \<Rightarrow> bool" where
  "utf8_lossy_laws decode \<longleftrightarrow> decode [] = [] \<and>
     (\<forall>a b. decode (a @ 10 # b) = decode a @ CHR 0x0A # decode b)"

lemma decode_append:
  assumes "utf8_lossy_laws decode" and "whole_lines a"
  shows "decode (a @ b) = decode a @ decode b" and "decode a = [] \<or> last (decode a) = CHR 0x0A"
proof -
  have law: "decode (x @ 10 # y) = decode x @ CHR 0x0A # decode y" and empty: "decode [] = []" for x y
    using assms(1) by (auto simp: utf8_lossy_laws_def)
  consider "a = []" | a' where "a = a' @ [10]"
    using assms(2) by (metis whole_lines_def append_butlast_last_id)
  note cases_a = this
  show "decode (a @ b) = decode a @ decode b"
    by (cases rule: cases_a) (use law [of _ b] law [of _ "[]"] empty in \<open>simp_all\<close>)
  show "decode a = [] \<or> last (decode a) = CHR 0x0A"
    by (cases rule: cases_a) (use law [of _ "[]"] empty in \<open>simp_all\<close>)
qed

definition console_lines :: "(bytes \<Rightarrow> string) \<Rightarrow> bytes \<Rightarrow> console_line list" where
  "console_lines decode b = map route_line (text_lines (decode b))"

lemma console_lines_append:
  "utf8_lossy_laws decode \<Longrightarrow> whole_lines a \<Longrightarrow>
   console_lines decode (a @ b) = console_lines decode a @ console_lines decode b"
  by (simp add: console_lines_def decode_append text_lines_append)

lemma whole_lines_append: "whole_lines a \<Longrightarrow> whole_lines b \<Longrightarrow> whole_lines (a @ b)"
  by (auto simp: whole_lines_def last_append)

lemma console_lines_none: "utf8_lossy_laws decode \<Longrightarrow> console_lines decode [] = []"
  by (simp add: console_lines_def utf8_lossy_laws_def text_lines_def)

text \<open>Where the captured output is flushed does not matter: after the last flush the console shows
  exactly the printed lines, each once, in order and on its channel.\<close>

lemma prints_reach_the_console:
  assumes "utf8_lossy_laws decode" and "\<forall>b. Print b \<in> set ops \<longrightarrow> whole_lines b"
    and "capture s = Some c" and "whole_lines c"
  shows "flush_captured_prints True decode (fold (run_print decode) ops s) =
    s\<lparr>capture := Some [], shown := shown s @ console_lines decode (c @ printed ops)\<rparr>"
  using assms(2-4)
proof (induction ops arbitrary: s c)
  case Nil
  then show ?case
    using assms(1) by (cases s) (auto simp: flush_captured_prints_def console_lines_def utf8_lossy_laws_def text_lines_def)
next
  case (Cons p ops)
  show ?case
  proof (cases p)
    case (Print b)
    then show ?thesis
      using Cons.IH [of "print_bytes b s" "c @ b"] Cons.prems by (simp add: print_bytes_def whole_lines_append)
  next
    case Flush
    let ?s = "flush_captured_prints True decode s"
    have s: "?s = s\<lparr>capture := Some [], shown := shown s @ console_lines decode c\<rparr>"
      using Cons.prems(2) console_lines_none [OF assms(1)]
      by (cases s) (auto simp: flush_captured_prints_def console_lines_def)
    show ?thesis
      using Flush Cons.IH [of ?s "[]"] Cons.prems console_lines_append [OF assms(1) Cons.prems(3), of "printed ops"]
      by (simp add: s whole_lines_def)
  qed
qed

text \<open>A decoder that satisfies the laws.\<close>

definition ascii :: "bytes \<Rightarrow> string" where
  "ascii b = map (\<lambda>w. if unat w < 128 then char_of (unat w) else CHR ''?'') b"

lemma ascii_laws: "utf8_lossy_laws ascii"
proof -
  have "char_of (10::nat) = CHR 0x0A" by code_simp
  then show ?thesis by (simp add: utf8_lossy_laws_def ascii_def)
qed

lemma prints_reach_the_console_witness:
  "shown (flush_captured_prints True ascii (fold (run_print ascii)
     [Print [104, 105, 10], Flush, Print [121, 111, 10]] (redirect_prints True \<lparr>capture = None, shown = []\<rparr>))) =
   [Log ''hi'', Log ''yo'']"
proof -
  have whole: "\<forall>b. Print b \<in> set [Print [104, 105, 10], Flush, Print [121, 111, 10]] \<longrightarrow> whole_lines b"
    by (simp add: whole_lines_def)
  have decoded: "ascii [104, 105, 10, 121, 111, 10] = ''hi'' @ CHR 0x0A # ''yo'' @ [CHR 0x0A]" by code_simp
  show ?thesis
    using prints_reach_the_console [OF ascii_laws whole, of "redirect_prints True \<lparr>capture = None, shown = []\<rparr>" "[]"]
    by (simp add: redirect_prints_def whole_lines_def console_lines_def decoded text_lines_def no_cr_def
        route_line_def contains_def)
qed

end
