(* ===== verification/Thread_Api.thy ===== *)
theory Thread_Api
  imports Wasm_Spawn Wasm_Env
begin

section \<open>Builders, handles, sleeping and yielding (\<open>src/stdlib.rs\<close>, \<open>src/wasm/thread_api.rs\<close>)\<close>

text \<open>
  The part of the thread interface around spawning: how a builder's settings reach the new
  thread, the handles and ids, and the calls that let time pass. Durations and the clock are in
  nanoseconds here.
\<close>

subsection \<open>Builders on WebAssembly\<close>

record builder =
  b_name :: "string option"
  b_stack_size :: "nat option"
  b_shim_name :: "string option"

definition builder_new :: builder where
  "builder_new = \<lparr>b_name = None, b_stack_size = None, b_shim_name = None\<rparr>"

definition builder_default :: builder where
  "builder_default = builder_new"

definition builder_shim_name :: "string \<Rightarrow> builder \<Rightarrow> builder" where
  "builder_shim_name name b = b\<lparr>b_shim_name := Some name\<rparr>"

definition builder_name :: "string \<Rightarrow> builder \<Rightarrow> builder" where
  "builder_name name b = b\<lparr>b_name := Some name\<rparr>"

definition builder_stack_size :: "nat \<Rightarrow> builder \<Rightarrow> builder" where
  "builder_stack_size bytes b = b\<lparr>b_stack_size := Some bytes\<rparr>"

text \<open>What \<open>wasm_safe_thread_spawn_worker\<close> is told about the new worker, and what it makes of it. The
  exit state is the address of a fresh allocation.\<close>

record worker_order =
  order_name :: string
  order_shim_url :: string
  order_exit_state_ptr :: u32
  order_worker_id :: string

definition worker_order_for ::
  "string \<Rightarrow> bool \<Rightarrow> resource list \<Rightarrow> string \<Rightarrow> string \<Rightarrow> u32 \<Rightarrow> string + worker_order" where
  "worker_order_for self_url node resources name shim_name exit_state_ptr =
     (case shim_url self_url node resources shim_name of
        Inl e \<Rightarrow> Inl e
      | Inr url \<Rightarrow> Inr \<lparr>order_name = name, order_shim_url = url, order_exit_state_ptr = exit_state_ptr,
          order_worker_id = name @ ''#'' @ decimal (unat exit_state_ptr)\<rparr>)"

text \<open>\<open>Builder::spawn\<close>: the new thread's identity, set as its \<open>current\<close>, and the worker ordered for it.
  \<open>t\<close> is the new thread.\<close>

definition wasm_builder_spawn ::
  "string \<Rightarrow> bool \<Rightarrow> resource list \<Rightarrow> u32 \<Rightarrow> tid \<Rightarrow> builder \<Rightarrow> thread_table \<Rightarrow>
   thread_table \<times> wasm_thread \<times> (string + worker_order)" where
  "wasm_builder_spawn self_url node resources exit_state_ptr t b s =
     (let (s1, thread) = wasm_spawn_thread (b_name b) t s in
      (s1, thread, worker_order_for self_url node resources (worker_name thread)
         (case b_shim_name b of Some n \<Rightarrow> n | None \<Rightarrow> []) exit_state_ptr))"


text \<open>Any sequence of settings.\<close>

datatype setting = SetName string | SetStackSize nat | SetShimName string

fun run_setting :: "setting \<Rightarrow> builder \<Rightarrow> builder" where
  "run_setting (SetName n) = builder_name n"
| "run_setting (SetStackSize n) = builder_stack_size n"
| "run_setting (SetShimName n) = builder_shim_name n"

fun set_name :: "setting \<Rightarrow> string option" where
  "set_name (SetName n) = Some n"
| "set_name _ = None"

fun set_shim_name :: "setting \<Rightarrow> string option" where
  "set_shim_name (SetShimName n) = Some n"
| "set_shim_name _ = None"

definition last_set :: "(setting \<Rightarrow> string option) \<Rightarrow> setting list \<Rightarrow> string option" where
  "last_set f xs = fold (\<lambda>x set. case f x of Some y \<Rightarrow> Some y | None \<Rightarrow> set) xs None"

lemma last_set_snoc [simp]:
  "last_set f [] = None" "last_set f (xs @ [x]) = (case f x of None \<Rightarrow> last_set f xs | Some y \<Rightarrow> Some y)"
  by (simp_all add: last_set_def split: option.split)

lemma settings_fold:
  "b_name (fold run_setting xs builder_new) = last_set set_name xs"
  "b_shim_name (fold run_setting xs builder_new) = last_set set_shim_name xs"
proof (induction xs rule: rev_induct)
  case (snoc x xs)
  case 1
  then show ?case using snoc by (cases x) (simp_all add: builder_name_def builder_stack_size_def builder_shim_name_def)
  case 2
  then show ?case using snoc by (cases x) (simp_all add: builder_name_def builder_stack_size_def builder_shim_name_def)
qed (simp_all add: builder_new_def)

text \<open>What a builder's settings do on WebAssembly. The thread has the name set last, or none; the worker
  is called so, or by default after its id; its script is chosen by the shim name set last; and
  stack sizes have no effect at all.\<close>

lemma builder_settings_take_effect:
  "wasm_builder_spawn self_url node resources ptr t (fold run_setting settings builder_new) s =
    (let thread = \<lparr>thread_name = last_set set_name settings, thread_id = thread_counter s\<rparr> in
      (set_current t thread (s\<lparr>thread_counter := thread_counter s + 1\<rparr>), thread,
       worker_order_for self_url node resources
         (case last_set set_name settings of Some n \<Rightarrow> n
          | None \<Rightarrow> ''wasm_safe_thread '' @ decimal (unat (thread_counter s)))
         (case last_set set_shim_name settings of Some n \<Rightarrow> n | None \<Rightarrow> []) ptr))"
  by (simp add: wasm_builder_spawn_def wasm_spawn_thread_def new_thread_def settings_fold worker_name_def Let_def
      split: option.split)

text \<open>Two workers have the same JavaScript id only if they have the same name and exit state.\<close>

lemma decimal_no_hash: "CHR ''#'' \<notin> set (decimal n)"
proof (induction n rule: decimal.induct)
  case (1 n)
  have "CHR ''#'' \<noteq> char_of (48 + d :: nat)" if "d < 10" for d
  proof
    assume "CHR ''#'' = char_of (48 + d :: nat)"
    then have "of_char CHR ''#'' = (48 + d :: nat)" using that by simp
    then show False by simp
  qed
  then show ?case using 1 by (subst decimal.simps) auto
qed

lemma worker_ids_differ:
  assumes "n @ ''#'' @ decimal i = m @ ''#'' @ decimal j"
  shows "n = m \<and> i = j"
proof -
  have tail: "takeWhile (\<lambda>c. c \<noteq> CHR ''#'') (rev (k @ ''#'' @ decimal l)) = rev (decimal l)" for k l
    using decimal_no_hash [of l] by (simp, subst takeWhile_append2) auto
  have "rev (decimal i) = rev (decimal j)" using tail [of n i] tail [of m j] by (simp only: assms)
  then have "decimal i = decimal j" by simp
  moreover from this assms have "n = m" by simp
  ultimately show ?thesis by (metis undecimal_decimal)
qed

subsection \<open>Sleeping and yielding\<close>

text \<open>\<open>std::thread::sleep\<close> and the native \<open>sleep\<close>.\<close>

definition std_sleep :: "nat \<Rightarrow> (('k, 'z) runtime_scheme, unit) prog" where
  "std_sleep dur = bind now (\<lambda>n. await (\<lambda>s. n + dur \<le> clock s) (\<lambda>s. (s, ())))"

definition native_sleep :: "nat \<Rightarrow> (('k, 'z) runtime_scheme, unit) prog" where
  "native_sleep dur = std_sleep dur"

text \<open>\<open>Duration::as_millis\<close> drops the rest of a millisecond. \<open>sleep_sync_ms\<close> waits on a cell of its own,
  or spins on the clock where \<open>Atomics.wait\<close> throws.\<close>

definition as_millis :: "nat \<Rightarrow> nat" where
  "as_millis dur = dur div 1000000"

definition sleep_sync_ms :: "bool \<Rightarrow> nat \<Rightarrow> (('k, 'z) runtime_scheme, unit) prog" where
  "sleep_sync_ms can_wait ms =
     (if ms = 0 then Return ()
      else bind now (\<lambda>n. let end = n + ms * 1000000 in
        if can_wait then await (\<lambda>s. end \<le> clock s) (\<lambda>s. (s, ()))
        else loop (bind now (\<lambda>t. if t < end then continue else break ()))))"

definition wasm_sleep :: "bool \<Rightarrow> nat \<Rightarrow> (('k, 'z) runtime_scheme, unit) prog" where
  "wasm_sleep can_wait dur = sleep_sync_ms can_wait (as_millis dur)"

text \<open>\<open>atomics_wait_timeout_ms_try\<close> with its answer, and \<open>yield_now\<close>, which waits for a microsecond.\<close>

definition atomics_wait_timeout_try :: "bool \<Rightarrow> nat \<Rightarrow> (('k, 'z) runtime_scheme, string) prog" where
  "atomics_wait_timeout_try can_wait dur =
     (if can_wait then bind now (\<lambda>n. await (\<lambda>s. n + dur \<le> clock s) (\<lambda>s. (s, ''timed-out'')))
      else Return ''unsupported'')"

definition wasm_yield_now :: "bool \<Rightarrow> (('k, 'z) runtime_scheme, unit) prog" where
  "wasm_yield_now can_wait = seq (atomics_wait_timeout_try can_wait 1000) (Return ())"


lemma runtime_env_clock: "runtime_env K s s' \<Longrightarrow> clock s \<le> clock s'"
  by (induction rule: runtime_env.induct) (simp_all add: set_token_def)

text \<open>The points of a call that lets time pass from \<open>n\<close> to \<open>w\<close>.\<close>

definition until_clock :: "instant \<Rightarrow> (('k, 'z) runtime_scheme, unit) prog" where
  "until_clock w = await (\<lambda>s. w \<le> clock s) (\<lambda>s. (s, ()))"

definition busy_wait_body :: "instant \<Rightarrow> (('k, 'z) runtime_scheme, unit option) prog" where
  "busy_wait_body w = bind now (\<lambda>t. if t < w then continue else break ())"

lemma until_clock_steps [simp]:
  "running (until_clock w)" "running (busy_wait_body w)"
  "resume (until_clock w) s = (if w \<le> clock s then Some (s, Return ()) else None)"
  "resume (busy_wait_body w) s = Some (s, if clock s < w then continue else break ())"
  by (simp_all add: until_clock_def busy_wait_body_def)

lemma not_returned [simp]:
  "Return () \<noteq> until_clock w" "Return () \<noteq> loop (busy_wait_body w)"
  "Return () \<noteq> loop_from (busy_wait_body w) continue" "Return () \<noteq> bind now k"
  by (metis running_simps(2) until_clock_steps(1), metis running_simps(2) until_clock_steps(2) running_loop,
      metis running_simps(2) loop_from_simps(3), metis running_simps(2) now_simps(1) running_bind)

lemma sleep_sync_ms_points:
  "sleep_sync_ms can_wait ms = (if ms = 0 then Return ()
     else bind now (\<lambda>n. if can_wait then until_clock (n + ms * 1000000) else loop (busy_wait_body (n + ms * 1000000))))"
  unfolding sleep_sync_ms_def until_clock_def busy_wait_body_def Let_def by (rule refl)

definition sleeping :: "bool \<Rightarrow> nat \<Rightarrow> instant \<Rightarrow> (('k, 'z) runtime_scheme, unit) prog \<Rightarrow> ('k, 'z) runtime_scheme \<Rightarrow> bool" where
  "sleeping can_wait ms c p s \<longleftrightarrow> c \<le> clock s \<and>
     (p = sleep_sync_ms can_wait ms \<or>
      (\<exists>n\<ge>c. p = until_clock (n + ms * 1000000) \<or> p = loop (busy_wait_body (n + ms * 1000000)) \<or>
        p = loop_from (busy_wait_body (n + ms * 1000000)) continue) \<or>
      p = Return () \<and> c + ms * 1000000 \<le> clock s)"

lemma sleeping_step:
  assumes "sleeping can_wait ms c p s" and "resume p s = Some (s', p')"
  shows "sleeping can_wait ms c p' s'"
  using assms unfolding sleeping_def
  by (auto simp: sleep_sync_ms_points split: if_splits intro: exI [of _ "clock s"])

lemma sleeping_env: "sleeping can_wait ms c p s \<Longrightarrow> clock s \<le> clock s' \<Longrightarrow> sleeping can_wait ms c p s'"
  unfolding sleeping_def by auto

text \<open>A sleeper can always finish: time may pass, and it then returns.\<close>

lemma sleeping_ends:
  assumes "sleeping can_wait ms c p s"
  shows "\<exists>s'. solo (runtime_env K) p s (Return ()) s'"
proof -
  have later: "\<exists>s'. solo (runtime_env K) (until_clock w) s (Return ()) s'"
    "\<exists>s'. solo (runtime_env K) (loop (busy_wait_body w)) s (Return ()) s'" for w and s :: "('a, 'b) runtime_scheme"
  proof -
    let ?s = "s\<lparr>clock := max w (clock s)\<rparr>"
    have "runtime_env K s ?s" by (rule runtime_env.tick) simp
    moreover have "solo (runtime_env K) (until_clock w) ?s (Return ()) ?s"
      "solo (runtime_env K) (loop (busy_wait_body w)) ?s (Return ()) ?s"
      by (rule solo_step [OF _ solo_here]; simp)+
    ultimately show "\<exists>s'. solo (runtime_env K) (until_clock w) s (Return ()) s'"
      "\<exists>s'. solo (runtime_env K) (loop (busy_wait_body w)) s (Return ()) s'"
      by (blast intro: solo_env)+
  qed
  have spin: "\<exists>s'. solo (runtime_env K) (loop_from (busy_wait_body w) continue) s (Return ()) s'" for w
    using later(2) [of w s] by (meson loop_from_simps(4) solo_step)
  have start: "\<exists>s'. solo (runtime_env K) (sleep_sync_ms can_wait ms) s (Return ()) s'"
  proof (cases "ms = 0")
    case True
    then show ?thesis by (auto simp: sleep_sync_ms_points intro: solo_here)
  next
    case False
    then have first: "resume (sleep_sync_ms can_wait ms) s = Some (s, if can_wait then until_clock (clock s + ms * 1000000)
        else loop (busy_wait_body (clock s + ms * 1000000)))" by (simp add: sleep_sync_ms_points)
    obtain s' where "solo (runtime_env K) (if can_wait then until_clock (clock s + ms * 1000000)
        else loop (busy_wait_body (clock s + ms * 1000000))) s (Return ()) s'"
      using later [of "clock s + ms * 1000000" s] by (cases can_wait) auto
    with first show ?thesis by (blast intro: solo_step)
  qed
  show ?thesis
    using assms unfolding sleeping_def using later spin start by (auto intro: solo_here)
qed




text \<open>The native call, by contrast, never returns early.\<close>

lemma native_sleep_lasts:
  assumes "solo (runtime_env K) (native_sleep dur) s p s'"
  shows "p = Return () \<longrightarrow> clock s + dur \<le> clock s'"
proof -
  let ?I = "\<lambda>q u. clock s \<le> clock u \<and> (q = native_sleep dur \<or> (\<exists>n\<ge>clock s. q = until_clock (n + dur)) \<or>
    q = Return () \<and> clock s + dur \<le> clock u)"
  have start: "native_sleep dur = bind now (\<lambda>n. until_clock (n + dur))"
    by (simp add: native_sleep_def std_sleep_def until_clock_def)
  have "?I p s'"
    using assms by (rule solo_inv) (auto simp: start split: if_splits dest: runtime_env_clock)
  then show ?thesis by (auto simp: start)
qed

subsection \<open>Handles and ids\<close>

text \<open>On native targets \<open>Thread\<close> and \<open>ThreadId\<close> wrap the standard library's; handles are compared and hashed
  by id. The standard library's handle has an id and a name.\<close>

record std_thread =
  std_id :: nat
  std_name :: "string option"

datatype native_thread = Thread std_thread
datatype native_thread_id = ThreadId nat

fun native_id :: "native_thread \<Rightarrow> native_thread_id" where
  "native_id (Thread th) = ThreadId (std_id th)"

fun native_name :: "native_thread \<Rightarrow> string option" where
  "native_name (Thread th) = std_name th"

fun native_unpark :: "native_thread \<Rightarrow> (('k, 'z) runtime_scheme, unit) prog" where
  "native_unpark (Thread th) = unpark (std_id th)"

definition native_eq :: "native_thread \<Rightarrow> native_thread \<Rightarrow> bool" where
  "native_eq a b \<longleftrightarrow> native_id a = native_id b"

definition native_hash :: "(native_thread_id \<Rightarrow> 'h \<Rightarrow> 'h) \<Rightarrow> native_thread \<Rightarrow> 'h \<Rightarrow> 'h" where
  "native_hash hash_id a state = hash_id (native_id a) state"

definition native_current :: "std_thread \<Rightarrow> native_thread" where
  "native_current current = Thread current"

text \<open>\<open>JoinHandle::is_finished\<close>: whether the thread's main program has ended.\<close>

definition native_is_finished :: "('s, 'a) prog \<Rightarrow> bool" where
  "native_is_finished main \<longleftrightarrow> \<not> running main"

text \<open>\<open>Display\<close> of a thread id uses the \<open>Debug\<close> output of the standard library's.\<close>

fun native_thread_id_fmt :: "native_thread_id \<Rightarrow> string" where
  "native_thread_id_fmt (ThreadId n) = ''ThreadId('' @ decimal n @ '')''"

definition native_yield_now :: "('s, unit) prog" where
  "native_yield_now = skip"

definition native_park :: "tid \<Rightarrow> (('k, 'z) runtime_scheme, unit) prog" where
  "native_park t = park Native t"

definition native_park_timeout :: "tid \<Rightarrow> nat \<Rightarrow> (('k, 'z) runtime_scheme, unit) prog" where
  "native_park_timeout t dur = park_timeout Native t dur"

definition native_available_parallelism :: "string + 32 word \<Rightarrow> string + 32 word" where
  "native_available_parallelism std = std"

definition native_task_begin :: "'s \<Rightarrow> 's" where
  "native_task_begin s = s"

definition native_task_finished :: "'s \<Rightarrow> 's" where
  "native_task_finished s = s"

text \<open>The same accessors on WebAssembly.\<close>

definition wasm_thread_id :: "wasm_thread \<Rightarrow> u64" where
  "wasm_thread_id th = thread_id th"

definition wasm_thread_name :: "wasm_thread \<Rightarrow> string option" where
  "wasm_thread_name th = thread_name th"

definition wasm_thread_eq :: "wasm_thread \<Rightarrow> wasm_thread \<Rightarrow> bool" where
  "wasm_thread_eq a b \<longleftrightarrow> wasm_thread_id a = wasm_thread_id b"

definition wasm_thread_hash :: "(u64 \<Rightarrow> 'h \<Rightarrow> 'h) \<Rightarrow> wasm_thread \<Rightarrow> 'h \<Rightarrow> 'h" where
  "wasm_thread_hash hash_id a state = hash_id (wasm_thread_id a) state"

text \<open>Equal handles hash alike, and equality is an equivalence.\<close>

lemma handles_hash_alike:
  "native_eq a b \<Longrightarrow> native_hash hash a = native_hash hash b"
  "wasm_thread_eq c d \<Longrightarrow> wasm_thread_hash hash' c = wasm_thread_hash hash' d"
  by (auto simp: native_eq_def native_hash_def wasm_thread_eq_def wasm_thread_hash_def fun_eq_iff)

lemma handles_equivalence: "equivp native_eq" "equivp wasm_thread_eq"
  by (auto intro!: equivpI reflpI sympI transpI simp: native_eq_def wasm_thread_eq_def)

text \<open>The native builder configures the standard library's; \<open>os_error\<close> is its answer.\<close>

record native_builder =
  nb_name :: "string option"
  nb_stack_size :: "nat option"

definition native_builder_new :: native_builder where
  "native_builder_new = \<lparr>nb_name = None, nb_stack_size = None\<rparr>"

definition native_builder_default :: native_builder where
  "native_builder_default = native_builder_new"

definition native_builder_name :: "string \<Rightarrow> native_builder \<Rightarrow> native_builder" where
  "native_builder_name n b = b\<lparr>nb_name := Some n\<rparr>"

definition native_builder_stack_size :: "nat \<Rightarrow> native_builder \<Rightarrow> native_builder" where
  "native_builder_stack_size bytes b = b\<lparr>nb_stack_size := Some bytes\<rparr>"

end
