(* ===== verification/Worker_Messages.thy ===== *)
theory Worker_Messages
  imports Thread_Api "HOL-Library.Multiset"
begin

section \<open>How a spawn reaches its worker (\<open>src/wasm.rs\<close>)\<close>

text \<open>
  In a browser a worker does not create workers itself: it posts the request to the realm that
  created it, which may have to pass it on, and only the page creates the worker and sends it its
  first message. Messages from one worker arrive in the order in which they were posted; apart
  from that realms run and messages arrive in any order. Here is that protocol message by
  message; \<open>Wasm_Spawn\<close> has the same routing as one step. Module and memory are handles of the
  host (\<open>'h\<close>), shared by all realms.
\<close>

subsection \<open>The request\<close>

record 'h payload =
  p_work :: nat
  p_module :: 'h
  p_memory :: 'h
  p_name :: string
  p_shim_url :: string
  p_exit_ptr :: u32
  p_worker_id :: string
  p_entry :: string

definition entry_name :: string where
  "entry_name = ''wasm_safe_thread_entry_point''"

definition spawn_payload ::
  "nat \<Rightarrow> 'h \<Rightarrow> 'h \<Rightarrow> worker_order \<Rightarrow> 'h payload" where
  "spawn_payload work module memory ord =
     \<lparr>p_work = work, p_module = module, p_memory = memory, p_name = order_name ord,
      p_shim_url = order_shim_url ord, p_exit_ptr = order_exit_state_ptr ord,
      p_worker_id = order_worker_id ord, p_entry = entry_name\<rparr>"

text \<open>What \<open>wasm_safe_thread_spawn_worker\<close> chooses by its surroundings: \<open>has_worker\<close> says that the
  global \<open>Worker\<close> is a function, \<open>builtin\<close> that \<open>process.getBuiltinModule\<close> finds \<open>worker_threads\<close>.\<close>

datatype spawn_route = BrowserRoute | NodeRoute

definition spawn_route :: "bool \<Rightarrow> bool \<Rightarrow> bool \<Rightarrow> string + spawn_route" where
  "spawn_route has_worker node builtin =
     (if has_worker \<and> \<not> node then Inr BrowserRoute
      else if node then
        if builtin then Inr NodeRoute
        else Inl ''worker_threads not available - need Node.js 20+ for synchronous import''
      else Inl ''No Worker API available'')"

subsection \<open>Realms and messages\<close>

text \<open>The first message a worker gets, \<open>[module, memory, work, meta]\<close>.\<close>

record worker_meta =
  m_id :: string
  m_name :: string
  m_exit_ptr :: u32
  m_parent_managed :: bool

record 'h first_message =
  f_module :: 'h
  f_memory :: 'h
  f_work :: nat
  f_meta :: worker_meta

datatype 'h js_message = RelaySpawn "'h payload option" | ScriptEnd script_message

text \<open>\<open>waiting_for_work\<close> holds the first message until the worker's script handles it; \<open>started\<close> says
  that the entry point was called, \<open>script_over\<close> that the handler has returned or thrown, and
  \<open>closed\<close> that the realm runs no more code; \<open>outbox\<close> is what the worker has posted to its creator,
  and \<open>made_for\<close> what the creator's handlers for this worker remember of it. The logs at the end of
  the world record the requests, the calls of the entry point, the codes stored into exit states, and
  the requests that could not be posted.\<close>

record 'h js_realm =
  creator :: nat
  js_worker :: bool
  may_relay :: bool
  script_id :: string
  script_name :: string
  script_exit_ptr :: u32
  waiting_for_work :: "'h first_message option"
  started :: bool
  script_over :: bool
  closed :: bool
  outbox :: "'h js_message list"
  made_for :: "'h payload option"

record 'h js_world =
  js_realms :: "'h js_realm list"
  spawned :: "'h payload list"
  entered :: "('h first_message \<times> string \<times> string \<times> u32) list"
  signals :: "(u32 \<times> u32) list"
  refused :: "'h payload list"

text \<open>The realm that loaded the program: a page, or a worker that some other code started.\<close>

definition js_root :: "bool \<Rightarrow> 'h js_realm" where
  "js_root in_worker = \<lparr>creator = 0, js_worker = in_worker, may_relay = False, script_id = [], script_name = [],
     script_exit_ptr = 0, waiting_for_work = None, started = True, script_over = True, closed = False,
     outbox = [], made_for = None\<rparr>"

definition js_start :: "bool \<Rightarrow> 'h js_world" where
  "js_start in_worker =
     \<lparr>js_realms = [js_root in_worker], spawned = [], entered = [], signals = [], refused = []\<rparr>"

definition update_realm :: "nat \<Rightarrow> ('h js_realm \<Rightarrow> 'h js_realm) \<Rightarrow> 'h js_world \<Rightarrow> 'h js_world" where
  "update_realm i f w = w\<lparr>js_realms := (js_realms w)[i := f (js_realms w ! i)]\<rparr>"

definition post_to_creator :: "nat \<Rightarrow> 'h js_message \<Rightarrow> 'h js_world \<Rightarrow> 'h js_world" where
  "post_to_creator i msg = update_realm i (\<lambda>r. r\<lparr>outbox := outbox r @ [msg]\<rparr>)"

text \<open>\<open>signalExit\<close> on the exit state at an address; the release of the creator's reference follows it.\<close>

definition js_signal :: "u32 \<Rightarrow> u32 \<Rightarrow> 'h js_world \<Rightarrow> 'h js_world" where
  "js_signal ptr code w = w\<lparr>signals := signals w @ [(ptr, code)]\<rparr>"

text \<open>\<open>new Worker(..)\<close> with its handlers, and the first message to it.\<close>

definition first_message_of :: "'h payload \<Rightarrow> 'h first_message" where
  "first_message_of p = \<lparr>f_module = p_module p, f_memory = p_memory p, f_work = p_work p,
     f_meta = \<lparr>m_id = p_worker_id p, m_name = p_name p, m_exit_ptr = p_exit_ptr p, m_parent_managed = True\<rparr>\<rparr>"

definition spawn_worker_direct :: "nat \<Rightarrow> 'h payload \<Rightarrow> 'h js_world \<Rightarrow> 'h js_world" where
  "spawn_worker_direct i p w = w\<lparr>js_realms := js_realms w @
     [\<lparr>creator = i, js_worker = True, may_relay = False, script_id = ''unbound'', script_name = [],
       script_exit_ptr = 0, waiting_for_work = Some (first_message_of p), started = False, script_over = False,
       closed = False, outbox = [], made_for = Some p\<rparr>]\<rparr>"

text \<open>\<open>posted\<close> says whether \<open>postMessage\<close> succeeds; if it throws, the exit state gets an error.\<close>

definition forward_spawn_to_parent :: "bool \<Rightarrow> nat \<Rightarrow> 'h payload \<Rightarrow> 'h js_world \<Rightarrow> 'h js_world" where
  "forward_spawn_to_parent posted i p w =
     (if posted then post_to_creator i (RelaySpawn (Some p)) w
      else js_signal (p_exit_ptr p) 2 (w\<lparr>refused := refused w @ [p]\<rparr>))"

definition route_spawn :: "bool \<Rightarrow> nat \<Rightarrow> 'h payload \<Rightarrow> 'h js_world \<Rightarrow> 'h js_world" where
  "route_spawn posted i p w =
     (if js_worker (js_realms w ! i) \<and> may_relay (js_realms w ! i)
      then forward_spawn_to_parent posted i p w
      else spawn_worker_direct i p w)"

definition request_spawn :: "bool \<Rightarrow> nat \<Rightarrow> 'h payload \<Rightarrow> 'h js_world \<Rightarrow> 'h js_world" where
  "request_spawn posted i p w = route_spawn posted i p (w\<lparr>spawned := spawned w @ [p]\<rparr>)"

text \<open>\<open>w.onmessage\<close> in realm \<open>i\<close> for the worker that was made for \<open>q\<close>: a relayed request is passed on, or
  its fields are put together again, the entry name being that of the handler.\<close>

definition rebuilt :: "'h payload \<Rightarrow> 'h payload \<Rightarrow> 'h payload" where
  "rebuilt q p = p\<lparr>p_entry := p_entry q\<rparr>"

fun worker_onmessage ::
  "bool \<Rightarrow> nat \<Rightarrow> 'h payload \<Rightarrow> 'h js_message \<Rightarrow> 'h js_world \<Rightarrow> 'h js_world" where
  "worker_onmessage posted i q (RelaySpawn None) w = w"
| "worker_onmessage posted i q (RelaySpawn (Some p)) w =
     (if js_worker (js_realms w ! i) \<and> may_relay (js_realms w ! i)
      then forward_spawn_to_parent posted i p w
      else spawn_worker_direct i (rebuilt q p) w)"
| "worker_onmessage posted i q (ScriptEnd ExitMessage) w = js_signal (p_exit_ptr q) 1 w"
| "worker_onmessage posted i q (ScriptEnd (ErrorMessage m)) w =
     (if m \<noteq> [] then js_signal (p_exit_ptr q) 2 w else w)"

text \<open>The worker's script on its first message: it takes over what the message says (\<open>||\<close> keeps the old
  value where the new one is empty), loads the module, and calls the entry point with the work.\<close>

definition or_else :: "string \<Rightarrow> string \<Rightarrow> string" where
  "or_else x y = (if x \<noteq> [] then x else y)"

definition bind_meta :: "worker_meta \<Rightarrow> 'h js_realm \<Rightarrow> 'h js_realm" where
  "bind_meta m r = r\<lparr>script_id := or_else (m_id m) (script_id r), script_name := or_else (m_name m) (script_name r),
     script_exit_ptr := (if m_exit_ptr m \<noteq> 0 then m_exit_ptr m else script_exit_ptr r),
     may_relay := may_relay r \<or> m_parent_managed m, waiting_for_work := None\<rparr>"

definition script_onmessage :: "js_error option \<Rightarrow> nat \<Rightarrow> 'h first_message \<Rightarrow> 'h js_world \<Rightarrow> 'h js_world" where
  "script_onmessage loading k msg w = (let r = bind_meta (f_meta msg) (js_realms w ! k) in
     case loading of
       Some err \<Rightarrow> update_realm k (\<lambda>_. r\<lparr>script_over := True,
         outbox := outbox r @ [ScriptEnd (ErrorMessage (error_text err))]\<rparr>) w
     | None \<Rightarrow> (update_realm k (\<lambda>_. r\<lparr>started := True\<rparr>) w)
         \<lparr>entered := entered w @ [(msg, script_id r, script_name r, script_exit_ptr r)]\<rparr>)"

text \<open>After the entry point has returned and no task is pending the script says so and closes the
  worker; when it has thrown the error is reported, and the worker stays.\<close>

definition script_end :: "js_error option \<Rightarrow> nat \<Rightarrow> 'h js_world \<Rightarrow> 'h js_world" where
  "script_end thrown k w = update_realm k (\<lambda>r. case thrown of
       None \<Rightarrow> r\<lparr>script_over := True, closed := True, outbox := outbox r @ [ScriptEnd ExitMessage]\<rparr>
     | Some err \<Rightarrow> r\<lparr>script_over := True, outbox := outbox r @ [ScriptEnd (ErrorMessage (error_text err))]\<rparr>) w"

text \<open>
  The steps: code that runs in a realm spawns a thread; a message reaches the realm that created
  its sender; a worker handles its first message; a worker's script ends. An error is an object
  whose message and string are not both empty.
\<close>

definition proper :: "js_error option \<Rightarrow> bool" where
  "proper x \<longleftrightarrow> (\<forall>e. x = Some e \<longrightarrow> error_text e \<noteq> [])"

definition can_deliver :: "nat \<Rightarrow> 'h js_world \<Rightarrow> bool" where
  "can_deliver k w \<longleftrightarrow> k < length (js_realms w) \<and> outbox (js_realms w ! k) \<noteq> [] \<and>
     \<not> closed (js_realms w ! creator (js_realms w ! k))"

definition deliver :: "bool \<Rightarrow> nat \<Rightarrow> 'h js_world \<Rightarrow> 'h js_world" where
  "deliver posted k w = (let r = js_realms w ! k in
     case made_for r of
       None \<Rightarrow> w
     | Some q \<Rightarrow> worker_onmessage posted (creator r) q (hd (outbox r))
         (update_realm k (\<lambda>r. r\<lparr>outbox := tl (outbox r)\<rparr>) w))"

inductive js_step :: "'h js_world \<Rightarrow> 'h js_world \<Rightarrow> bool" where
  spawn: "i < length (js_realms w) \<Longrightarrow> started (js_realms w ! i) \<Longrightarrow> \<not> closed (js_realms w ! i) \<Longrightarrow>
    worker_order_for self_url False resources name shim ptr = Inr ord \<Longrightarrow>
    js_step w (request_spawn posted i (spawn_payload work module memory ord) w)"
| delivered: "can_deliver k w \<Longrightarrow> js_step w (deliver posted k w)"
| begin_work: "k < length (js_realms w) \<Longrightarrow> waiting_for_work (js_realms w ! k) = Some msg \<Longrightarrow> proper loading \<Longrightarrow>
    js_step w (script_onmessage loading k msg w)"
| finish: "k < length (js_realms w) \<Longrightarrow> started (js_realms w ! k) \<Longrightarrow> \<not> script_over (js_realms w ! k) \<Longrightarrow>
    proper thrown \<Longrightarrow> js_step w (script_end thrown k w)"

inductive js_reach :: "bool \<Rightarrow> 'h js_world \<Rightarrow> bool" for in_worker where
  js_initial: "js_reach in_worker (js_start in_worker)"
| js_next: "js_reach in_worker w \<Longrightarrow> js_step w w' \<Longrightarrow> js_reach in_worker w'"

text \<open>No message is on its way and no worker has its first message still to handle.\<close>

definition settled :: "'h js_world \<Rightarrow> bool" where
  "settled w \<longleftrightarrow> (\<forall>k. \<not> can_deliver k w) \<and> (\<forall>r\<in>set (js_realms w). waiting_for_work r = None)"

subsection \<open>Where the requests are\<close>

fun relayed :: "'h js_message \<Rightarrow> 'h payload list" where
  "relayed (RelaySpawn (Some p)) = [p]"
| "relayed _ = []"

definition in_transit :: "'h js_realm \<Rightarrow> 'h payload multiset" where
  "in_transit r = mset (concat (map relayed (outbox r)))"

definition made :: "'h js_realm \<Rightarrow> 'h payload multiset" where
  "made r = (case made_for r of None \<Rightarrow> {#} | Some q \<Rightarrow> {#q#})"

definition begun :: "'h js_realm \<Rightarrow> 'h payload multiset" where
  "begun r = (if started r then made r else {#})"

definition failed :: "'h js_realm \<Rightarrow> 'h payload multiset" where
  "failed r = (if \<not> started r \<and> waiting_for_work r = None then made r else {#})"

definition over_realms :: "('h js_realm \<Rightarrow> 'x multiset) \<Rightarrow> 'h js_realm list \<Rightarrow> 'x multiset" where
  "over_realms f rss = (\<Sum>r\<leftarrow>rss. f r)"

text \<open>What a worker knows when its work begins.\<close>

definition run_of :: "'h payload \<Rightarrow> 'h first_message \<times> string \<times> string \<times> u32" where
  "run_of p = (first_message_of p, p_worker_id p, p_name p, p_exit_ptr p)"

definition payload_ok :: "'h payload \<Rightarrow> bool" where
  "payload_ok p \<longleftrightarrow> p_entry p = entry_name \<and> p_worker_id p \<noteq> []"

fun message_ok :: "'h js_message \<Rightarrow> bool" where
  "message_ok (RelaySpawn p) = (\<exists>q. p = Some q \<and> payload_ok q)"
| "message_ok (ScriptEnd (ErrorMessage m)) = (m \<noteq> [])"
| "message_ok (ScriptEnd ExitMessage) = True"

fun failure :: "'h js_message \<Rightarrow> bool" where
  "failure (ScriptEnd (ErrorMessage m)) = True"
| "failure _ = False"

definition root_ok :: "'h js_realm \<Rightarrow> bool" where
  "root_ok r \<longleftrightarrow> \<not> may_relay r \<and> \<not> closed r \<and> started r \<and> script_over r \<and> outbox r = [] \<and> made_for r = None \<and>
     waiting_for_work r = None"

definition worker_ok :: "(u32 \<times> u32) list \<Rightarrow> 'h js_realm \<Rightarrow> bool" where
  "worker_ok sigs r \<longleftrightarrow> creator r = 0 \<and> js_worker r \<and> (\<forall>msg\<in>set (outbox r). message_ok msg) \<and>
     (\<exists>q. made_for r = Some q \<and> payload_ok q \<and>
       (case waiting_for_work r of
          Some msg \<Rightarrow> msg = first_message_of q \<and> \<not> started r \<and> \<not> may_relay r \<and> \<not> closed r \<and> outbox r = [] \<and>
            script_id r = ''unbound'' \<and> script_name r = [] \<and> script_exit_ptr r = 0
        | None \<Rightarrow> may_relay r \<and>
            (\<not> started r \<longrightarrow> Bex (set (outbox r)) failure \<or> (p_exit_ptr q, 2) \<in> set sigs)))"

definition realms_ok :: "(u32 \<times> u32) list \<Rightarrow> 'h js_realm list \<Rightarrow> bool" where
  "realms_ok sigs rss \<longleftrightarrow>
     (\<exists>root rs. rss = root # rs \<and> root_ok root \<and> (\<forall>r\<in>set rs. worker_ok sigs r))"

definition js_inv :: "'h js_world \<Rightarrow> bool" where
  "js_inv w \<longleftrightarrow> realms_ok (signals w) (js_realms w) \<and>
     mset (spawned w) = over_realms in_transit (js_realms w) + over_realms made (js_realms w) + mset (refused w) \<and>
     mset (entered w) = image_mset run_of (over_realms begun (js_realms w)) \<and>
     (\<forall>p\<in>set (refused w). (p_exit_ptr p, 2) \<in> set (signals w))"

subsection \<open>Every step keeps them\<close>

lemma update_realm_simps [simp]:
  "spawned (update_realm k g w) = spawned w" "entered (update_realm k g w) = entered w"
  "signals (update_realm k g w) = signals w" "refused (update_realm k g w) = refused w"
  "js_realms (update_realm k g w) = (js_realms w)[k := g (js_realms w ! k)]"
  by (simp_all add: update_realm_def)

lemma over_realms_add [simp]: "over_realms f (rss @ [r]) = over_realms f rss + f r"
  by (simp add: over_realms_def)

lemma over_realms_update:
  assumes "k < length rss" and "f r = f (rss ! k) + d"
  shows "over_realms f (rss[k := r]) = over_realms f rss + d"
proof -
  obtain xs x ys where rss: "rss = xs @ x # ys" "length xs = k"
    using assms(1) id_take_nth_drop [of k rss] by (metis length_take min.absorb4)
  with assms(2) show ?thesis by (auto simp: over_realms_def list_update_append nth_append)
qed

lemma over_realms_less:
  assumes "k < length rss" and "f (rss ! k) = f r + d"
  shows "over_realms f rss = over_realms f (rss[k := r]) + d"
  using over_realms_update [of k "rss[k := r]" f "rss ! k" d] assms by simp

lemma over_realms_keep:
  "k < length rss \<Longrightarrow> f r = f (rss ! k) \<Longrightarrow> over_realms f (rss[k := r]) = over_realms f rss"
  using over_realms_update [of k rss f r "{#}"] by simp

lemma worker_ok_mono: "worker_ok sigs r \<Longrightarrow> set sigs \<subseteq> set sigs' \<Longrightarrow> worker_ok sigs' r"
  by (auto simp: worker_ok_def split: option.splits)

lemma realms_ok_mono: "realms_ok sigs rs \<Longrightarrow> set sigs \<subseteq> set sigs' \<Longrightarrow> realms_ok sigs' rs"
  unfolding realms_ok_def using worker_ok_mono by blast

lemma realms_ok_add: "realms_ok sigs rs \<Longrightarrow> worker_ok sigs r \<Longrightarrow> realms_ok sigs (rs @ [r])"
  by (auto simp: realms_ok_def)

lemma realms_ok_cases:
  assumes "realms_ok sigs rs" and "k < length rs"
  obtains (root) "k = 0" "root_ok (rs ! 0)" | (worker) "k \<noteq> 0" "worker_ok sigs (rs ! k)" "root_ok (rs ! 0)"
  using assms by (cases k) (auto simp: realms_ok_def)

lemma realms_ok_update:
  assumes "realms_ok sigs rs" and "k \<noteq> 0" and "set sigs \<subseteq> set sigs'" and "worker_ok sigs' r"
  shows "realms_ok sigs' (rs[k := r])"
  using assms realms_ok_mono [OF assms(1,3)]
  by (cases k) (auto simp: realms_ok_def dest!: set_update_subset_insert [THEN subsetD])

lemma new_worker_ok:
  assumes "payload_ok p"
  shows "worker_ok sigs \<lparr>creator = 0, js_worker = True, may_relay = False, script_id = ''unbound'', script_name = [],
    script_exit_ptr = 0, waiting_for_work = Some (first_message_of p), started = False, script_over = False,
    closed = False, outbox = [], made_for = Some p\<rparr>"
  using assms by (simp add: worker_ok_def)

lemma js_inv_direct:
  assumes "js_inv w" and "payload_ok p"
  shows "js_inv (spawn_worker_direct 0 p (w\<lparr>spawned := spawned w @ [p]\<rparr>))"
  using assms realms_ok_add [OF _ new_worker_ok [OF assms(2)]]
  unfolding js_inv_def spawn_worker_direct_def
  by (simp add: in_transit_def made_def begun_def)

lemma js_inv_refused:
  assumes "js_inv w" and "payload_ok p"
  shows "js_inv (forward_spawn_to_parent False i p (w\<lparr>spawned := spawned w @ [p]\<rparr>))"
  using assms realms_ok_mono [of "signals w" "js_realms w" "signals w @ [(p_exit_ptr p, 2)]"]
  unfolding js_inv_def forward_spawn_to_parent_def js_signal_def by auto

lemma js_inv_post:
  assumes inv: "js_inv w" and "payload_ok p" and k: "k < length (js_realms w)" "k \<noteq> 0"
    and started: "started (js_realms w ! k)"
  shows "js_inv (forward_spawn_to_parent True k p (w\<lparr>spawned := spawned w @ [p]\<rparr>))"
proof -
  let ?r = "js_realms w ! k"
  let ?r' = "?r\<lparr>outbox := outbox ?r @ [RelaySpawn (Some p)]\<rparr>"
  from inv have ok: "realms_ok (signals w) (js_realms w)" by (simp add: js_inv_def)
  from realms_ok_cases [OF this k(1)] k(2) have "worker_ok (signals w) ?r" by auto
  then have "worker_ok (signals w) ?r'"
    using assms(2) started by (auto simp: worker_ok_def split: option.splits)
  from realms_ok_update [OF ok k(2) subset_refl this]
  have "realms_ok (signals w) ((js_realms w)[k := ?r'])" .
  moreover have "over_realms in_transit ((js_realms w)[k := ?r']) = over_realms in_transit (js_realms w) + {#p#}"
    by (rule over_realms_update [OF k(1)]) (simp add: in_transit_def)
  moreover have "over_realms made ((js_realms w)[k := ?r']) = over_realms made (js_realms w)"
    "over_realms begun ((js_realms w)[k := ?r']) = over_realms begun (js_realms w)"
    by (rule over_realms_keep [OF k(1)], simp add: made_def begun_def)+
  ultimately show ?thesis
    using inv unfolding js_inv_def forward_spawn_to_parent_def post_to_creator_def by simp
qed

text \<open>A request from a realm whose code runs.\<close>

lemma js_inv_request:
  assumes inv: "js_inv w" and p: "payload_ok p" and k: "k < length (js_realms w)"
    and started: "started (js_realms w ! k)"
  shows "js_inv (request_spawn posted k p w)"
proof -
  let ?w = "w\<lparr>spawned := spawned w @ [p]\<rparr>"
  from inv have "realms_ok (signals w) (js_realms w)" by (simp add: js_inv_def)
  then show ?thesis using k
  proof (cases rule: realms_ok_cases)
    case root
    then have "request_spawn posted k p w = spawn_worker_direct 0 p ?w"
      by (simp add: request_spawn_def route_spawn_def root_ok_def)
    with js_inv_direct [OF inv p] show ?thesis by simp
  next
    case worker
    then have "request_spawn posted k p w = forward_spawn_to_parent posted k p ?w"
      using started by (auto simp: request_spawn_def route_spawn_def worker_ok_def split: option.splits)
    then show ?thesis
      using js_inv_refused [OF inv p] js_inv_post [OF inv p k worker(1) started] by (cases posted) simp_all
  qed
qed

text \<open>A message that arrives.\<close>

lemma js_inv_deliver:
  assumes inv: "js_inv w" and can: "can_deliver k w"
  shows "js_inv (deliver posted k w)"
proof -
  let ?r = "js_realms w ! k"
  let ?r' = "?r\<lparr>outbox := tl (outbox ?r)\<rparr>"
  let ?rss = "(js_realms w)[k := ?r']"
  let ?w = "w\<lparr>js_realms := ?rss\<rparr>"
  from can have k: "k < length (js_realms w)" and "outbox ?r \<noteq> []" by (simp_all add: can_deliver_def)
  then obtain msg msgs where box: "outbox ?r = msg # msgs" by (cases "outbox ?r") auto
  from inv have ok: "realms_ok (signals w) (js_realms w)" by (simp add: js_inv_def)
  then have "k \<noteq> 0 \<and> worker_ok (signals w) ?r \<and> root_ok (js_realms w ! 0)"
    using k
  proof (cases rule: realms_ok_cases)
    case root
    with box show ?thesis by (simp add: root_ok_def)
  qed simp
  then have k0: "k \<noteq> 0" and r: "worker_ok (signals w) ?r" and root: "root_ok (js_realms w ! 0)" by auto
  from r obtain q where q: "made_for ?r = Some q" "payload_ok q" and waiting: "waiting_for_work ?r = None"
    and cr: "creator ?r = 0" and msg: "message_ok msg"
    using box by (auto simp: worker_ok_def split: option.splits)
  have step: "deliver posted k w = worker_onmessage posted 0 q msg ?w"
    by (simp add: deliver_def q cr box update_realm_def)
  have kept: "over_realms made ?rss = over_realms made (js_realms w)"
    "over_realms begun ?rss = over_realms begun (js_realms w)"
    by (rule over_realms_keep [OF k], simp add: made_def begun_def)+
  have transit: "over_realms in_transit (js_realms w) = over_realms in_transit ?rss + mset (relayed msg)"
    by (rule over_realms_less [OF k]) (simp add: in_transit_def box)
  have realms: "realms_ok sigs ?rss"
    if "set (signals w) \<subseteq> set sigs" "failure msg \<Longrightarrow> (p_exit_ptr q, 2) \<in> set sigs" for sigs
  proof -
    have "worker_ok sigs ?r'"
      using r waiting box q that by (auto simp: worker_ok_def)
    with ok k0 that(1) show ?thesis by (blast intro: realms_ok_update)
  qed
  show ?thesis
  proof (cases msg)
    case (RelaySpawn po)
    with msg obtain p where p: "po = Some p" "payload_ok p" by auto
    then have "rebuilt q p = p" using q(2) by (simp add: rebuilt_def payload_ok_def)
    moreover have "\<not> may_relay (?rss ! 0)" using root k0 by (simp add: root_ok_def)
    ultimately have "deliver posted k w = spawn_worker_direct 0 p ?w"
      by (simp add: step RelaySpawn p(1))
    moreover have "realms_ok (signals w) ?rss" using RelaySpawn by (intro realms) auto
    ultimately show ?thesis
      using inv transit kept realms_ok_add [OF _ new_worker_ok [OF p(2)], of "signals w" ?rss]
      unfolding js_inv_def spawn_worker_direct_def by (simp add: RelaySpawn p in_transit_def made_def begun_def)
  next
    case (ScriptEnd e)
    then have "\<exists>code. deliver posted k w = js_signal (p_exit_ptr q) code ?w \<and> (failure msg \<longrightarrow> code = 2)"
      using msg by (cases e) (auto simp: step)
    then obtain code where "deliver posted k w = js_signal (p_exit_ptr q) code ?w" "failure msg \<longrightarrow> code = 2" by blast
    moreover from this(2) have "realms_ok (signals w @ [(p_exit_ptr q, code)]) ?rss" by (intro realms) auto
    ultimately show ?thesis
      using inv transit kept unfolding js_inv_def js_signal_def by (auto simp: ScriptEnd)
  qed
qed

text \<open>A worker's script, at its first message and at its end.\<close>

lemma bound_run:
  assumes "payload_ok q" and "script_id r = ''unbound''" and "script_name r = []" and "script_exit_ptr r = 0"
  shows "(first_message_of q, script_id (bind_meta (f_meta (first_message_of q)) r),
    script_name (bind_meta (f_meta (first_message_of q)) r),
    script_exit_ptr (bind_meta (f_meta (first_message_of q)) r)) = run_of q"
  using assms by (auto simp: bind_meta_def first_message_of_def run_of_def or_else_def payload_ok_def)

lemma bind_meta_same [simp]:
  "creator (bind_meta m r) = creator r" "js_worker (bind_meta m r) = js_worker r"
  "outbox (bind_meta m r) = outbox r" "made_for (bind_meta m r) = made_for r"
  "started (bind_meta m r) = started r" "waiting_for_work (bind_meta m r) = None"
  "may_relay (bind_meta m r) = (may_relay r \<or> m_parent_managed m)"
  by (simp_all add: bind_meta_def)

lemma js_inv_begin:
  assumes inv: "js_inv w" and k: "k < length (js_realms w)"
    and msg: "waiting_for_work (js_realms w ! k) = Some msg" and proper: "proper loading"
  shows "js_inv (script_onmessage loading k msg w)"
proof -
  let ?r = "js_realms w ! k"
  from inv have ok: "realms_ok (signals w) (js_realms w)" by (simp add: js_inv_def)
  then have "k \<noteq> 0 \<and> worker_ok (signals w) ?r"
    using k
  proof (cases rule: realms_ok_cases)
    case root
    with msg show ?thesis by (simp add: root_ok_def)
  qed simp
  then have k0: "k \<noteq> 0" and r: "worker_ok (signals w) ?r" by auto
  from r msg obtain q where q: "made_for ?r = Some q" "payload_ok q" "msg = first_message_of q"
    and fresh: "\<not> started ?r" "outbox ?r = []" "script_id ?r = ''unbound''" "script_name ?r = []"
      "script_exit_ptr ?r = 0" "creator ?r = 0" "js_worker ?r"
    by (auto simp: worker_ok_def)
  have managed: "m_parent_managed (f_meta msg)" by (simp add: q(3) first_message_of_def)
  let ?b = "bind_meta (f_meta msg) ?r"
  show ?thesis
  proof (cases loading)
    case None
    let ?r' = "?b\<lparr>started := True\<rparr>"
    have "worker_ok (signals w) ?r'" using q fresh managed by (simp add: worker_ok_def)
    from realms_ok_update [OF ok k0 subset_refl this]
    have "realms_ok (signals w) ((js_realms w)[k := ?r'])" .
    moreover have "over_realms begun ((js_realms w)[k := ?r']) = over_realms begun (js_realms w) + {#q#}"
      by (rule over_realms_update [OF k]) (simp add: begun_def made_def q fresh)
    moreover have "over_realms made ((js_realms w)[k := ?r']) = over_realms made (js_realms w)"
      "over_realms in_transit ((js_realms w)[k := ?r']) = over_realms in_transit (js_realms w)"
      by (rule over_realms_keep [OF k], simp add: made_def in_transit_def)+
    moreover have "(msg, script_id ?b, script_name ?b, script_exit_ptr ?b) = run_of q"
      unfolding q(3) by (rule bound_run) (use q fresh in simp_all)
    ultimately show ?thesis
      using inv unfolding js_inv_def script_onmessage_def None by (simp add: Let_def)
  next
    case (Some err)
    let ?r' = "?b\<lparr>script_over := True, outbox := outbox ?b @ [ScriptEnd (ErrorMessage (error_text err))]\<rparr>"
    have "error_text err \<noteq> []" using proper Some by (simp add: proper_def)
    then have "worker_ok (signals w) ?r'" using q fresh managed by (simp add: worker_ok_def)
    from realms_ok_update [OF ok k0 subset_refl this]
    have "realms_ok (signals w) ((js_realms w)[k := ?r'])" .
    moreover have "over_realms made ((js_realms w)[k := ?r']) = over_realms made (js_realms w)"
      "over_realms in_transit ((js_realms w)[k := ?r']) = over_realms in_transit (js_realms w)"
      "over_realms begun ((js_realms w)[k := ?r']) = over_realms begun (js_realms w)"
      by (rule over_realms_keep [OF k], simp add: made_def in_transit_def begun_def)+
    ultimately show ?thesis
      using inv unfolding js_inv_def script_onmessage_def Some by (simp add: Let_def)
  qed
qed

lemma js_inv_end:
  assumes inv: "js_inv w" and k: "k < length (js_realms w)"
    and running: "started (js_realms w ! k)" "\<not> script_over (js_realms w ! k)" and proper: "proper thrown"
  shows "js_inv (script_end thrown k w)"
proof -
  let ?r = "js_realms w ! k"
  define r' where "r' = (case thrown of
       None \<Rightarrow> ?r\<lparr>script_over := True, closed := True, outbox := outbox ?r @ [ScriptEnd ExitMessage]\<rparr>
     | Some err \<Rightarrow> ?r\<lparr>script_over := True, outbox := outbox ?r @ [ScriptEnd (ErrorMessage (error_text err))]\<rparr>)"
  from inv have ok: "realms_ok (signals w) (js_realms w)" by (simp add: js_inv_def)
  then have "k \<noteq> 0 \<and> worker_ok (signals w) ?r"
    using k
  proof (cases rule: realms_ok_cases)
    case root
    with running show ?thesis by (simp add: root_ok_def)
  qed simp
  then have k0: "k \<noteq> 0" and r: "worker_ok (signals w) ?r" by auto
  have "worker_ok (signals w) r'"
    using r running proper by (auto simp: worker_ok_def r'_def proper_def split: option.splits)
  from realms_ok_update [OF ok k0 subset_refl this]
  have "realms_ok (signals w) ((js_realms w)[k := r'])" .
  moreover have "over_realms made ((js_realms w)[k := r']) = over_realms made (js_realms w)"
    "over_realms in_transit ((js_realms w)[k := r']) = over_realms in_transit (js_realms w)"
    "over_realms begun ((js_realms w)[k := r']) = over_realms begun (js_realms w)"
    by (rule over_realms_keep [OF k], simp add: made_def in_transit_def begun_def r'_def split: option.split)+
  moreover have "script_end thrown k w = update_realm k (\<lambda>_. r') w"
    by (simp add: script_end_def update_realm_def r'_def)
  ultimately show ?thesis
    using inv unfolding js_inv_def by simp
qed

lemma order_has_id: "worker_order_for self_url node resources name shim ptr = Inr ord \<Longrightarrow> order_worker_id ord \<noteq> []"
  by (auto simp: worker_order_for_def split: sum.splits)

lemma js_inv_reach: "js_reach in_worker w \<Longrightarrow> js_inv w"
proof (induction rule: js_reach.induct)
  case js_initial
  show ?case
    by (simp add: js_inv_def js_start_def realms_ok_def js_root_def root_ok_def over_realms_def in_transit_def
        made_def begun_def)
next
  case (js_next w w')
  from js_next.hyps(2) js_next.IH show ?case
  proof cases
    case (spawn i self_url resources name shim ptr ord posted work module memory)
    then show ?thesis
      using js_next.IH by (auto intro!: js_inv_request dest: order_has_id simp: payload_ok_def spawn_payload_def)
  qed (use js_next.IH in \<open>auto intro: js_inv_deliver js_inv_begin js_inv_end\<close>)
qed

lemma settled_boxes:
  assumes "js_inv w" and "settled w"
  shows "\<forall>r\<in>set (js_realms w). outbox r = []"
proof -
  from assms(1) have ok: "realms_ok (signals w) (js_realms w)" by (simp add: js_inv_def)
  have "outbox (js_realms w ! k) = []" if "k < length (js_realms w)" for k
    using ok that
  proof (cases rule: realms_ok_cases)
    case worker
    with assms(2) that show ?thesis
      by (auto simp: settled_def can_deliver_def worker_ok_def root_ok_def dest!: spec [of _ k])
  qed (simp add: root_ok_def)
  then show ?thesis by (auto simp: in_set_conv_nth)
qed

lemma over_realms_cong: "(\<And>r. r \<in> set rss \<Longrightarrow> f r = g r) \<Longrightarrow> over_realms f rss = over_realms g rss"
  by (induction rss) (simp_all add: over_realms_def)

lemma over_realms_plus: "over_realms (\<lambda>r. f r + g r) rss = over_realms f rss + over_realms g rss"
  by (induction rss) (simp_all add: over_realms_def)

lemma in_over_realms: "x \<in># over_realms f rss \<longleftrightarrow> (\<exists>r\<in>set rss. x \<in># f r)"
  by (induction rss) (simp_all add: over_realms_def)

text \<open>C40: every request to start a thread is honoured exactly once. However the realms of a page and
  their messages interleave, when no message is on its way and every worker has handled its first
  one, the requests made are those whose work was begun, each in a worker of its own that knows the
  module, the memory, its id, its name and its exit state, and those that could not be posted or
  whose worker could not load the module; and the exit state of each of the latter was signalled
  an error.\<close>

theorem spawns_begin_once:
  assumes "js_reach in_worker w" and "settled w"
  shows "\<exists>ran lost. mset (spawned w) = ran + lost \<and> mset (entered w) = image_mset run_of ran \<and>
    (\<forall>p. p \<in># lost \<longrightarrow> (p_exit_ptr p, 2) \<in> set (signals w))"
proof -
  let ?rss = "js_realms w"
  have inv: "js_inv w" using assms(1) by (rule js_inv_reach)
  note boxes = settled_boxes [OF inv assms(2)]
  have "over_realms in_transit ?rss = over_realms (\<lambda>_. {#}) ?rss"
    using boxes by (intro over_realms_cong) (simp add: in_transit_def)
  then have transit: "over_realms in_transit ?rss = {#}" by (simp add: over_realms_def)
  have "over_realms made ?rss = over_realms (\<lambda>r. begun r + failed r) ?rss"
    using assms(2) by (intro over_realms_cong) (simp add: begun_def failed_def settled_def)
  then have "mset (spawned w) = over_realms begun ?rss + (over_realms failed ?rss + mset (refused w))"
    using inv by (simp add: js_inv_def transit over_realms_plus)
  moreover have "mset (entered w) = image_mset run_of (over_realms begun ?rss)" using inv by (simp add: js_inv_def)
  moreover have "(p_exit_ptr p, 2) \<in> set (signals w)" if "p \<in># over_realms failed ?rss + mset (refused w)" for p
  proof (cases "p \<in> set (refused w)")
    case True
    with inv show ?thesis by (simp add: js_inv_def)
  next
    case False
    with that obtain r where r: "r \<in> set ?rss" "p \<in># failed r" by (auto simp: in_over_realms)
    then have "made_for r = Some p" "\<not> started r" "waiting_for_work r = None"
      by (auto simp: failed_def made_def split: if_splits option.splits)
    moreover from this inv r(1) have "worker_ok (signals w) r"
      by (auto simp: js_inv_def realms_ok_def root_ok_def)
    ultimately show ?thesis using boxes r(1) by (auto simp: worker_ok_def)
  qed
  ultimately show ?thesis by blast
qed

text \<open>A page starts a worker, which starts another; the second request is relayed.\<close>

definition demo_order :: "string \<Rightarrow> u32 \<Rightarrow> worker_order" where
  "demo_order name ptr = \<lparr>order_name = name, order_shim_url = ''/app/demo.js'', order_exit_state_ptr = ptr,
     order_worker_id = name @ ''#'' @ decimal (unat ptr)\<rparr>"

definition demo_payload :: "nat \<Rightarrow> string \<Rightarrow> u32 \<Rightarrow> nat payload" where
  "demo_payload work name ptr = spawn_payload work 1 2 (demo_order name ptr)"

lemma demo_order: "worker_order_for ''/app/snippets/x.js'' False [] name ''demo'' ptr = Inr (demo_order name ptr)"
proof -
  have "shim_url ''/app/snippets/x.js'' False [] ''demo'' = Inr ''/app/demo.js''" by code_simp
  then show ?thesis by (simp add: worker_order_for_def demo_order_def)
qed

lemma demo_spawn:
  "i < length (js_realms w) \<Longrightarrow> started (js_realms w ! i) \<Longrightarrow> \<not> closed (js_realms w ! i) \<Longrightarrow>
    js_step w (request_spawn posted i (demo_payload work name ptr) w)"
  unfolding demo_payload_def by (rule spawn [OF _ _ _ demo_order])

definition demo_nested :: "nat js_world" where
  "demo_nested = request_spawn True 1 (demo_payload 8 ''b'' 24)
     (script_onmessage None 1 (first_message_of (demo_payload 7 ''a'' 16))
       (request_spawn True 0 (demo_payload 7 ''a'' 16) (js_start False)))"

definition demo_world :: "nat js_world" where
  "demo_world = script_onmessage None 2 (first_message_of (demo_payload 8 ''b'' 24)) (deliver True 1 demo_nested)"

lemmas demo_defs = js_start_def js_root_def request_spawn_def route_spawn_def spawn_worker_direct_def
  script_onmessage_def bind_meta_def update_realm_def first_message_of_def forward_spawn_to_parent_def
  post_to_creator_def deliver_def rebuilt_def or_else_def

lemma demo_reached: "js_reach False demo_world"
proof -
  let ?w1 = "request_spawn True 0 (demo_payload 7 ''a'' 16) (js_start False)"
  let ?w2 = "script_onmessage None 1 (first_message_of (demo_payload 7 ''a'' 16)) ?w1"
  have "js_step (js_start False) ?w1"
    by (rule demo_spawn) (simp_all add: demo_defs)
  with js_initial have "js_reach False ?w1" by (rule js_next)
  moreover have "js_step ?w1 ?w2"
    by (rule begin_work) (simp_all add: demo_defs proper_def)
  ultimately have w2: "js_reach False ?w2" by (rule js_next)
  have "js_step ?w2 demo_nested"
    unfolding demo_nested_def by (rule demo_spawn) (simp_all add: demo_defs Let_def)
  with w2 have w3: "js_reach False demo_nested" by (rule js_next)
  have "js_step demo_nested (deliver True 1 demo_nested)"
    by (rule delivered) (simp add: can_deliver_def demo_nested_def demo_defs Let_def)
  with w3 have w4: "js_reach False (deliver True 1 demo_nested)" by (rule js_next)
  have "js_step (deliver True 1 demo_nested) demo_world"
    unfolding demo_world_def
    by (rule begin_work) (simp_all add: demo_nested_def demo_defs Let_def proper_def demo_payload_def spawn_payload_def)
  with w4 show ?thesis by (rule js_next)
qed

lemma demo_settled:
  "settled demo_world" "spawned demo_world = [demo_payload 7 ''a'' 16, demo_payload 8 ''b'' 24]"
  "signals demo_world = []"
  unfolding demo_world_def demo_nested_def
  by (simp_all add: demo_defs Let_def demo_payload_def spawn_payload_def settled_def can_deliver_def nth_Cons'
      split: if_splits)

lemma spawns_begin_once_witness:
  "mset (entered demo_world) = {#run_of (demo_payload 7 ''a'' 16), run_of (demo_payload 8 ''b'' 24)#}"
proof -
  from spawns_begin_once [OF demo_reached demo_settled(1)] obtain ran lost where
    "mset (spawned demo_world) = ran + lost" "mset (entered demo_world) = image_mset run_of ran"
    "\<forall>p. p \<in># lost \<longrightarrow> (p_exit_ptr p, 2) \<in> set (signals demo_world)" by blast
  moreover from this(3) have "lost = {#}" by (auto simp: demo_settled(3) multiset_eq_iff not_in_iff)
  ultimately show ?thesis by (auto simp: demo_settled(2))
qed

end
