(* ===== verification/Executor.thy ===== *)
theory Executor
  imports Wasm_Spawn
begin

section \<open>Running futures to completion (\<open>src/test_executor.rs\<close>, \<open>src/stdlib.rs\<close>)\<close>

text \<open>
  The crate's executor polls one future until it is ready. An \<open>async\<close> block is, pinned, the rest
  of its program: a poll runs it until it returns, panics or meets an \<open>await\<close> that is not
  ready. The main theorem says that polling such a future is the same as running its
  program as one that blocks, which is how the asynchronous calls are modelled elsewhere.
\<close>

datatype 'a poll = Ready 'a | Pending

subsection \<open>The polling loop\<close>

text \<open>\<open>test_executor::spawn\<close> on native targets; the waker does nothing.\<close>

definition executor_spawn :: "('t, 'a poll) prog \<Rightarrow> ('t, unit) prog \<Rightarrow> ('t, 'a) prog" where
  "executor_spawn poll yield_now = loop (bind poll (\<lambda>r. case r of
       Pending \<Rightarrow> seq yield_now continue
     | Ready r \<Rightarrow> break r))"

text \<open>A poll of a pinned \<open>async\<close> block, access by access.\<close>

definition poll_access :: "('s \<times> ('s, 'a) prog, 'a poll option) prog" where
  "poll_access = Act (\<lambda>(s, p). case p of
       Return v \<Rightarrow> Some ((s, p), break (Ready v))
     | Panic m \<Rightarrow> Some ((s, p), Panic m)
     | Act f \<Rightarrow> (case f s of
           None \<Rightarrow> Some ((s, p), break Pending)
         | Some (s', p') \<Rightarrow> Some ((s', p'), continue)))"

definition poll_pinned :: "('s \<times> ('s, 'a) prog, 'a poll) prog" where
  "poll_pinned = loop poll_access"

text \<open>What other threads do to the state leaves the pinned future alone.\<close>

fun beside :: "('s \<Rightarrow> 's \<Rightarrow> bool) \<Rightarrow> 's \<times> 'p \<Rightarrow> 's \<times> 'p \<Rightarrow> bool" where
  "beside env (s, p) (s', p') \<longleftrightarrow> env s s' \<and> p' = p"

subsection \<open>The executor's control points\<close>

datatype 'a epoint = Polling | Repoll | Yielding | Again | Done 'a | Failed string

definition after_poll :: "('t, unit) prog \<Rightarrow> 'a poll \<Rightarrow> ('t, 'a option) prog" where
  "after_poll yield_now r = (case r of Pending \<Rightarrow> seq yield_now continue | Ready v \<Rightarrow> break v)"

abbreviation executor_body :: "('s \<times> ('s, 'a) prog, 'a option) prog" where
  "executor_body \<equiv> bind poll_pinned (after_poll skip)"

fun ecode :: "'a epoint \<Rightarrow> ('s \<times> ('s, 'a) prog, 'a) prog" where
  "ecode Polling = loop executor_body"
| "ecode Repoll = loop_from executor_body (bind (loop_from poll_access continue) (after_poll skip))"
| "ecode Yielding = loop_from executor_body (seq skip continue)"
| "ecode Again = loop_from executor_body continue"
| "ecode (Done v) = Return v"
| "ecode (Failed m) = Panic m"

fun estep :: "'a epoint \<Rightarrow> 's \<times> ('s, 'a) prog \<Rightarrow> (('s \<times> ('s, 'a) prog) \<times> 'a epoint) option" where
  "estep Polling (s, Return v) = Some ((s, Return v), Done v)"
| "estep Polling (s, Panic m) = Some ((s, Panic m), Failed m)"
| "estep Polling (s, Act f) = Some (case f s of
       None \<Rightarrow> ((s, Act f), Yielding)
     | Some (s', p') \<Rightarrow> ((s', p'), Repoll))"
| "estep Repoll sp = Some (sp, Polling)"
| "estep Yielding sp = Some (sp, Again)"
| "estep Again sp = Some (sp, Polling)"
| "estep (Done v) sp = None"
| "estep (Failed m) sp = None"

lemma executor_spawn_after: "executor_spawn poll y = loop (bind poll (after_poll y))"
  by (simp add: executor_spawn_def after_poll_def [abs_def])

lemma executor_is_ecode: "executor_spawn poll_pinned skip = ecode Polling"
  by (simp add: executor_spawn_after)

lemma poll_simps [simp]:
  "running poll_access" "running poll_pinned"
  "after_poll y (Ready v) = break v" "after_poll y Pending = seq y continue"
  "resume poll_pinned sp = map_option (map_prod id (loop_from poll_access)) (resume poll_access sp)"
  by (simp_all add: poll_access_def poll_pinned_def after_poll_def)

lemma ecode_step: "resume (ecode x) sp = map_option (map_prod id ecode) (estep x sp)"
proof (cases x)
  case Polling
  obtain s p where sp: "sp = (s, p)" by (cases sp)
  show ?thesis
    by (cases p) (auto simp: Polling sp poll_access_def split: option.split)
next
  case Repoll
  then show ?thesis by (simp add: poll_pinned_def [symmetric])
qed simp_all

interpretation executor: pc_program "\<lambda>_. ecode" "\<lambda>_. estep"
  by unfold_locales (rule ecode_step)


subsection \<open>Polling is awaiting\<close>

fun agrees :: "'a epoint \<Rightarrow> ('s, 'a) prog \<Rightarrow> bool" where
  "agrees (Done v) p \<longleftrightarrow> p = Return v"
| "agrees (Failed m) p \<longleftrightarrow> p = Panic m"
| "agrees x p \<longleftrightarrow> True"

lemma estep_agrees:
  assumes "estep x (s, p) = Some ((s', p'), x')"
  shows "agrees x' p' \<and> solo env p s p' s'"
proof (cases "(x, p)" rule: prod.exhaust)
  case (Pair a b)
  with assms show ?thesis
    by (cases x; cases p) (auto simp: solo_here intro: solo_step [OF _ solo_here] split: option.splits)
qed

lemma ecode_ends:
  "ecode x = Return v \<longleftrightarrow> x = Done v" "ecode x = Panic m \<longleftrightarrow> x = Failed m"
  "running (ecode x) \<Longrightarrow> estep x sp \<noteq> None"
proof -
  have run: "running (ecode x)" if "\<nexists>v. x = Done v" "\<nexists>m. x = Failed m"
    using that by (cases x) simp_all
  show "ecode x = Return v \<longleftrightarrow> x = Done v"
    by (metis run running_simps(2) ecode.simps(5,6) prog.distinct(1) prog.inject(1))
  show "ecode x = Panic m \<longleftrightarrow> x = Failed m"
    by (metis run running_simps(3) ecode.simps(5,6) prog.distinct(1) prog.inject(2))
  show "running (ecode x) \<Longrightarrow> estep x sp \<noteq> None"
    by (cases x; cases sp; cases "snd sp") auto
qed

lemma executor_follows:
  assumes "solo (beside env) (ecode x) (s, p) q (s', p')" and "agrees x p"
  shows "\<exists>x'. q = ecode x' \<and> agrees x' p' \<and> solo env p s p' s'"
proof -
  have "\<exists>x'. q = ecode x' \<and> agrees x' (snd d) \<and> solo env (snd c) (fst c) (snd d) (fst d)"
    if "solo (beside env) e c q d" and "e = ecode x" and "agrees x (snd c)" for e c d x
    using that
  proof (induction arbitrary: x rule: solo.induct)
    case (solo_here e c)
    then show ?case by (blast intro: solo.solo_here)
  next
    case (solo_step e c c' e' q d)
    then obtain x' where x': "estep x c = Some (c', x')" "e' = ecode x'" by (auto simp: ecode_step)
    then have one: "agrees x' (snd c')" "solo env (snd c) (fst c) (snd c') (fst c')"
      using estep_agrees [of x "fst c" "snd c" "fst c'" "snd c'" x'] by simp_all
    from solo_step.IH [OF x'(2) one(1)] one(2) show ?case by (blast intro: solo_trans)
  next
    case (solo_env c c' e q d)
    then have c: "env (fst c) (fst c')" "snd c' = snd c" by (cases c; cases c'; simp)+
    with solo_env.IH [of x] solo_env.prems show ?case by (auto intro: solo.solo_env)
  qed
  from this [OF assms(1) refl] assms(2) show ?thesis by simp
qed

lemma executor_finishes:
  assumes "solo env p s q s'" and "\<not> running q"
  shows "solo (beside env) (ecode Polling) (s, p) (case q of Return v \<Rightarrow> Return v | Panic m \<Rightarrow> Panic m) (s', q)"
  using assms
proof (induction rule: solo.induct)
  case (solo_here p s)
  have "solo (beside env) (ecode Polling) (s, Return v) (Return v) (s, Return v)" for v
    by (rule solo_step [OF _ solo.solo_here]) (simp add: ecode_step del: ecode.simps(1-4))
  moreover have "solo (beside env) (ecode Polling) (s, Panic m) (Panic m) (s, Panic m)" for m
    by (rule solo_step [OF _ solo.solo_here]) (simp add: ecode_step del: ecode.simps(1-4))
  ultimately show ?case using solo_here
    by (cases p rule: running_cases) (simp_all del: ecode.simps(1))
next
  case (solo_step p s s1 p1 q s2)
  obtain f where p: "p = Act f" using resume_running [OF solo_step.hyps(1)] by (cases p) auto
  have "resume (ecode Polling) (s, p) = Some ((s1, p1), ecode Repoll)"
    using solo_step.hyps(1) by (simp add: ecode_step p del: ecode.simps)
  moreover have "resume (ecode Repoll) (s1, p1) = Some ((s1, p1), ecode Polling)"
    by (simp add: ecode_step del: ecode.simps)
  ultimately show ?case using solo_step.IH [OF solo_step.prems] by (blast intro: solo.solo_step)
next
  case (solo_env s s1 p q s2)
  have "beside env (s, p) (s1, p)" using solo_env.hyps(1) by simp
  then show ?case using solo_env.IH [OF solo_env.prems] by (rule solo.solo_env)
qed

text \<open>C35: running a future on the crate's executor is awaiting it. Whatever other threads do in the
  meantime, the executor can return a value (or panic) in a state exactly when the future's
  program can; and it never blocks: while it has not finished it always has a next step.\<close>

theorem executor_awaits:
  fixes p :: "('s, 'a) prog"
  shows "((\<exists>p'. solo (beside env) (executor_spawn poll_pinned skip) (s, p) (Return v) (s', p')) \<longleftrightarrow>
      solo env p s (Return v) s') \<and>
    ((\<exists>p'. solo (beside env) (executor_spawn poll_pinned skip) (s, p) (Panic m) (s', p')) \<longleftrightarrow>
      solo env p s (Panic m) s') \<and>
    (\<nexists>q c. solo (beside env) (executor_spawn poll_pinned skip) (s, p) q c \<and> running q \<and> resume q c = None)"
proof -
  have follows: "\<exists>x'. q = ecode x' \<and> agrees x' p' \<and> solo env p s p' s''"
    if "solo (beside env) (executor_spawn poll_pinned skip) (s, p) q (s'', p')" for q s'' p'
    using that by (intro executor_follows [of env Polling]) (simp_all add: executor_is_ecode)
  have to_return: "solo env p s (Return v) s'" if "solo (beside env) (executor_spawn poll_pinned skip) (s, p) (Return v) (s', p')" for p'
    using follows [OF that] by (metis agrees.simps(1) ecode_ends(1))
  have to_panic: "solo env p s (Panic m) s'" if "solo (beside env) (executor_spawn poll_pinned skip) (s, p) (Panic m) (s', p')" for p'
    using follows [OF that] by (metis agrees.simps(2) ecode_ends(2))
  have never: "\<not> (solo (beside env) (executor_spawn poll_pinned skip) (s, p) q c \<and> running q \<and> resume q c = None)" for q c
  proof
    assume *: "solo (beside env) (executor_spawn poll_pinned skip) (s, p) q c \<and> running q \<and> resume q c = None"
    then obtain x where "q = ecode x" using follows [of q "fst c" "snd c"] by auto
    with * show False using ecode_ends(3) [of x c] executor.code_stuck_iff [of x c] by metis
  qed
  have forth: "solo (beside env) (executor_spawn poll_pinned skip) (s, p) (Return v) (s', Return v)"
    if "solo env p s (Return v) s'"
    using executor_finishes [OF that] by (simp add: executor_is_ecode)
  have forth_panic: "solo (beside env) (executor_spawn poll_pinned skip) (s, p) (Panic m) (s', Panic m)"
    if "solo env p s (Panic m) s'"
    using executor_finishes [OF that] by (simp add: executor_is_ecode)
  show ?thesis using to_return to_panic never forth forth_panic by blast
qed


subsection \<open>Yielding to the event loop on native targets\<close>

text \<open>\<open>YieldOnce::poll\<close>: the flag, and how often the task's waker was called.\<close>

definition yield_once_poll :: "bool \<times> nat \<Rightarrow> (bool \<times> nat) \<times> unit poll" where
  "yield_once_poll s = (if fst s then (s, Ready ()) else ((True, Suc (snd s)), Pending))"

definition yield_to_event_loop :: "(bool \<times> nat, unit poll) prog" where
  "yield_to_event_loop = atomic yield_once_poll"

text \<open>On the executor it is polled exactly twice and asks exactly once to be polled again.\<close>

lemma yield_once_completes:
  "ends (executor_spawn yield_to_event_loop skip) (False, n) (Return ()) (True, Suc n)"
proof -
  have first: "ends (bind yield_to_event_loop (after_poll skip)) (False, n) (Return None) (True, Suc n)"
    by (rule run_alone_ends [of 2])
      (simp_all add: yield_to_event_loop_def yield_once_poll_def eval_nat_numeral)
  have second: "ends (bind yield_to_event_loop (after_poll skip)) (True, Suc n) (Return (Some ())) (True, Suc n)"
    by (rule run_alone_ends [of 1]) (simp_all add: yield_to_event_loop_def yield_once_poll_def)
  show ?thesis
    using ends_loop_continue [OF first ends_loop_break [OF second]]
    by (simp only: executor_spawn_after)
qed

subsection \<open>The executor on WebAssembly\<close>

text \<open>
  The future runs on a worker of its own, whose closure only queues it and calls neither
  \<open>task_begin\<close> nor \<open>task_finished\<close>; the caller waits for its result on a channel. The queued block
  owns the sender.
\<close>

definition queued_future ::
  "'k cont_ops \<Rightarrow> platform \<Rightarrow> tid \<Rightarrow> (('a, 'k, 'w::len, 'z) channel_scheme, 'a) prog \<Rightarrow>
   (('a, 'k, 'w, 'z) channel_scheme, unit) prog" where
  "queued_future K P me future =
     bind future (\<lambda>result. seq (ignore (send_sync K P me result)) (sender_drop K))"

definition executor_closure_tasks :: "task_op list" where
  "executor_closure_tasks = []"

definition no_worker_msg :: string where
  "no_worker_msg = ''worker thread panicked or was terminated: Disconnected''"

definition executor_wait ::
  "'k cont_ops \<Rightarrow> platform \<Rightarrow> tid \<Rightarrow> (('a, 'k, 'w::len, 'z) channel_scheme, 'a) prog" where
  "executor_wait K P me =
     bind (bind (recv_sync K P me) (\<lambda>r. case r of Inr v \<Rightarrow> Return v | Inl e \<Rightarrow> Panic no_worker_msg))
       (\<lambda>v. seq (receiver_drop K) (Return v))"

text \<open>When the queued future gets to run to its end, the caller gets its value.\<close>

lemma executor_result:
  assumes "ends future s (Return v) s1" and "channel_ready 1 s1" and "inner s1 = []"
  shows "\<exists>s2. ends (queued_future K P me future) s (Return ()) s2 \<and>
    (\<exists>s3. ends (executor_wait K P' you) s2 (Return v) s3 \<and> inner s3 = [])"
proof -
  obtain s2 where s2: "ends (send_by K (Syncing P me) v) s1 (Return (Inr ())) s2" "channel_ready 1 s2"
    "inner s2 = [v]" using channel_sends [OF assms(2), of K "Syncing P me" v] assms(3) by auto
  obtain s3 where s3: "ends (sender_drop K) s2 (Return ()) s3" "channel_ready 0 s3" "inner s3 = [v]"
    using last_sender_drop_ready [OF s2(2), of K] s2(3) by auto
  have "ends (queued_future K P me future) s (Return ()) s3" unfolding queued_future_def
    by (rule ends_bind [OF assms(1)], rule ends_bind, use ends_ignore [OF s2(1)] in simp) (rule s3(1))
  moreover obtain s4 where s4: "ends (recv_by K (Syncing P' you)) s3 (Return (Inr v)) s4" "channel_ready 0 s4"
    "inner s4 = []" using channel_receives [OF s3(2,3)] by blast
  have "ends (executor_wait K P' you) s3 (Return v) (notified_all K (s4\<lparr>receiver_active := False\<rparr>))"
    unfolding executor_wait_def
    by (rule ends_bind [OF ends_bind [OF s4(1) [simplified]]], simp only: sum.case, rule ends_Return,
      rule ends_bind [OF ends_receiver_drop_ready [OF s4(2)]], rule ends_Return)
  ultimately show ?thesis using s4(3) by force
qed



text \<open>With the calls the documentation of \<open>task_begin\<close> asks for, it would wait.\<close>

lemma tracked_future_is_waited_for:
  "await_tasks debug (fold (run_task_op debug) [TaskBegin] 0) [[], [TaskFinished]] = Some 2"
  by (simp add: task_begin_def task_finished_def)

end
