(* ===== verification/Local_Keys.thy ===== *)
theory Local_Keys
  imports Prelude
begin

section \<open>Thread-local storage (\<open>thread_local!\<close> in \<open>src/lib.rs\<close>, \<open>LocalKey\<close> in both back ends)\<close>

text \<open>
  The macro declares a key of the standard library and wraps it. A key has a slot in every thread:
  not initialised yet, alive, or destroyed when its thread ended. An access runs user code on the
  value; the code may change it (through a \<open>Cell\<close>) and may panic, \<open>Inl\<close>.
\<close>

datatype 'v slot = Lazy | Alive 'v | Destroyed

type_synonym ('v, 'r) accessor = "'v \<Rightarrow> 'v \<times> (string + 'r)"

subsection \<open>The standard library's key\<close>

text \<open>An access initialises a lazy slot; where the initialiser panics it stays lazy. A destroyed slot is
  an access error, which \<open>with\<close> turns into a panic.\<close>

datatype std_access_error = StdAccessError

definition std_try_with ::
  "string + 'v \<Rightarrow> ('v, 'r) accessor \<Rightarrow> 'v slot \<Rightarrow> 'v slot \<times> (string + std_access_error + 'r)" where
  "std_try_with init f slot = (case slot of
       Destroyed \<Rightarrow> (Destroyed, Inr (Inl StdAccessError))
     | Alive v \<Rightarrow> (Alive (fst (f v)), map_sum id Inr (snd (f v)))
     | Lazy \<Rightarrow> (case init of
         Inl m \<Rightarrow> (Lazy, Inl m)
       | Inr v \<Rightarrow> (Alive (fst (f v)), map_sum id Inr (snd (f v)))))"

definition destroyed_msg :: string where
  "destroyed_msg = ''cannot access a Thread Local Storage value during or after destruction: AccessError''"

definition std_with :: "string + 'v \<Rightarrow> ('v, 'r) accessor \<Rightarrow> 'v slot \<Rightarrow> 'v slot \<times> (string + 'r)" where
  "std_with init f slot = (case std_try_with init f slot of
       (slot', Inl m) \<Rightarrow> (slot', Inl m)
     | (slot', Inr (Inl _)) \<Rightarrow> (slot', Inl destroyed_msg)
     | (slot', Inr (Inr r)) \<Rightarrow> (slot', Inr r))"

subsection \<open>The crate's key on native targets\<close>

record 'v local_key =
  key_inner :: "string + 'v"

datatype access_error = AccessError

definition access_error_fmt :: "access_error \<Rightarrow> string" where
  "access_error_fmt e = ''already destroyed or being destroyed''"

definition local_key_new :: "string + 'v \<Rightarrow> 'v local_key" where
  "local_key_new inner = \<lparr>key_inner = inner\<rparr>"

definition local_with :: "'v local_key \<Rightarrow> ('v, 'r) accessor \<Rightarrow> 'v slot \<Rightarrow> 'v slot \<times> (string + 'r)" where
  "local_with key f slot = std_with (key_inner key) f slot"

definition local_try_with ::
  "'v local_key \<Rightarrow> ('v, 'r) accessor \<Rightarrow> 'v slot \<Rightarrow> 'v slot \<times> (string + access_error + 'r)" where
  "local_try_with key f slot = apsnd (map_sum id (map_sum (\<lambda>_. AccessError) id)) (std_try_with (key_inner key) f slot)"

definition local_key_fmt :: "'v local_key \<Rightarrow> string" where
  "local_key_fmt key = ''LocalKey { .. }''"

subsection \<open>The crate's key on WebAssembly\<close>

record 'v wasm_local_key =
  wasm_key_inner :: "string + 'v"

definition wasm_local_key_new :: "string + 'v \<Rightarrow> 'v wasm_local_key" where
  "wasm_local_key_new inner = \<lparr>wasm_key_inner = inner\<rparr>"

definition wasm_local_with :: "'v wasm_local_key \<Rightarrow> ('v, 'r) accessor \<Rightarrow> 'v slot \<Rightarrow> 'v slot \<times> (string + 'r)" where
  "wasm_local_with key f slot = std_with (wasm_key_inner key) f slot"

definition wasm_local_try_with ::
  "'v wasm_local_key \<Rightarrow> ('v, 'r) accessor \<Rightarrow> 'v slot \<Rightarrow> 'v slot \<times> (string + access_error + 'r)" where
  "wasm_local_try_with key f slot =
     apsnd (map_sum id (map_sum (\<lambda>_. AccessError) id)) (std_try_with (wasm_key_inner key) f slot)"

text \<open>The arms of \<open>thread_local!\<close>: each declaration makes a standard key from its initialiser and the
  crate's key over it.\<close>

definition thread_local :: "(string + 'v) list \<Rightarrow> 'v local_key list" where
  "thread_local inits = map local_key_new inits"

definition wasm_thread_local :: "(string + 'v) list \<Rightarrow> 'v wasm_local_key list" where
  "wasm_thread_local inits = map wasm_local_key_new inits"

subsection \<open>Threads and their slots\<close>

datatype ('v, 'r) local_op = With "('v, 'r) accessor" | TryWith "('v, 'r) accessor" | ThreadEnds

datatype 'r seen = Value 'r | Panicked string | Refused | Ended

fun run_local :: "'v local_key \<Rightarrow> ('v, 'r) local_op \<Rightarrow> 'v slot \<Rightarrow> 'v slot \<times> 'r seen" where
  "run_local key (With f) slot = apsnd (case_sum Panicked Value) (local_with key f slot)"
| "run_local key (TryWith f) slot =
     apsnd (case_sum Panicked (case_sum (\<lambda>_. Refused) Value)) (local_try_with key f slot)"
| "run_local key ThreadEnds slot = (Destroyed, Ended)"

text \<open>Accesses by any threads in any order: what each saw, and the slots in the end.\<close>

fun run_locals ::
  "'v local_key \<Rightarrow> (tid \<times> ('v, 'r) local_op) list \<Rightarrow> (tid \<Rightarrow> 'v slot) \<Rightarrow> (tid \<Rightarrow> 'v slot) \<times> (tid \<times> 'r seen) list"
  where
  "run_locals key [] slots = (slots, [])"
| "run_locals key ((t, op) # ops) slots = (let (slot, r) = run_local key op (slots t) in
     apsnd (\<lambda>rs. (t, r) # rs) (run_locals key ops (slots(t := slot))))"

text \<open>One thread on its own.\<close>

fun run_alone_locals :: "'v local_key \<Rightarrow> ('v, 'r) local_op list \<Rightarrow> 'v slot \<Rightarrow> 'v slot \<times> 'r seen list" where
  "run_alone_locals key [] slot = (slot, [])"
| "run_alone_locals key (op # ops) slot = (let (slot', r) = run_local key op slot in
     apsnd (\<lambda>rs. r # rs) (run_alone_locals key ops slot'))"

definition of_thread :: "tid \<Rightarrow> (tid \<times> 'x) list \<Rightarrow> 'x list" where
  "of_thread t xs = map snd (filter (\<lambda>x. fst x = t) xs)"

lemma of_thread_simps [simp]:
  "of_thread t [] = []"
  "of_thread t ((u, x) # xs) = (if u = t then x # of_thread t xs else of_thread t xs)"
  by (simp_all add: of_thread_def)

lemma run_locals_of_thread:
  "run_alone_locals key (of_thread t ops) (slots t) =
     (fst (run_locals key ops slots) t, of_thread t (snd (run_locals key ops slots)))"
proof (induction ops arbitrary: slots)
  case (Cons x ops)
  obtain u op where x: "x = (u, op)" by (cases x)
  define slots' where s: "slots' = slots(u := fst (run_local key op (slots u)))"
  then have "slots' t = (if u = t then fst (run_local key op (slots t)) else slots t)" by simp
  moreover have "run_locals key (x # ops) slots =
      apsnd (\<lambda>rs. (u, snd (run_local key op (slots u))) # rs) (run_locals key ops slots')"
    by (simp add: x s case_prod_beta)
  ultimately show ?case using Cons.IH [of slots'] by (cases "u = t") (simp_all add: x case_prod_beta)
qed simp

text \<open>What a user expects of a thread: a variable of its own, until the thread ends.\<close>

fun private_variable :: "'v option \<Rightarrow> ('v, 'r) local_op list \<Rightarrow> 'r seen list" where
  "private_variable var [] = []"
| "private_variable (Some v) (With f # ops) = case_sum Panicked Value (snd (f v)) # private_variable (Some (fst (f v))) ops"
| "private_variable (Some v) (TryWith f # ops) = case_sum Panicked Value (snd (f v)) # private_variable (Some (fst (f v))) ops"
| "private_variable None (With f # ops) = Panicked destroyed_msg # private_variable None ops"
| "private_variable None (TryWith f # ops) = Refused # private_variable None ops"
| "private_variable var (ThreadEnds # ops) = Ended # private_variable None ops"

fun variable :: "'v \<Rightarrow> 'v slot \<Rightarrow> 'v option" where
  "variable v Lazy = Some v"
| "variable v (Alive w) = Some w"
| "variable v Destroyed = None"

lemma accesses:
  "std_try_with (Inr v) f slot = (case variable v slot of
     None \<Rightarrow> (Destroyed, Inr (Inl StdAccessError))
   | Some w \<Rightarrow> (Alive (fst (f w)), map_sum id Inr (snd (f w))))"
  by (cases slot) (simp_all add: std_try_with_def)

lemma local_access:
  "run_local (local_key_new (Inr v)) (With f) slot = (case variable v slot of
     None \<Rightarrow> (Destroyed, Panicked destroyed_msg)
   | Some w \<Rightarrow> (Alive (fst (f w)), case_sum Panicked Value (snd (f w))))"
  "run_local (local_key_new (Inr v)) (TryWith f) slot = (case variable v slot of
     None \<Rightarrow> (Destroyed, Refused)
   | Some w \<Rightarrow> (Alive (fst (f w)), case_sum Panicked Value (snd (f w))))"
  by (auto simp: local_key_new_def local_with_def local_try_with_def std_with_def accesses
      split: option.split sum.splits)

lemma alone_is_private: "snd (run_alone_locals (local_key_new (Inr v)) ops slot) = private_variable (variable v slot) ops"
proof (induction ops arbitrary: slot)
  case (Cons op ops)
  then show ?case
    by (cases op; cases "variable v slot") (simp_all add: local_access del: run_local.simps(1,2))
qed simp


subsection \<open>Results\<close>

text \<open>An access is refused exactly when the slot was destroyed, then leaves it so, and \<open>with\<close>
  panics exactly where \<open>try_with\<close> is refused or the user's code panics; otherwise they agree.\<close>

lemma local_with_results:
  "(snd (local_try_with key f slot) = Inr (Inl AccessError) \<longleftrightarrow> slot = Destroyed) \<and>
   (case snd (local_try_with key f slot) of
      Inl m \<Rightarrow> local_with key f slot = (fst (local_try_with key f slot), Inl m)
    | Inr (Inl e) \<Rightarrow> local_with key f slot = (Destroyed, Inl destroyed_msg)
    | Inr (Inr r) \<Rightarrow> local_with key f slot = (fst (local_try_with key f slot), Inr r))"
proof -
  have accessed: "?thesis" if "std_try_with (key_inner key) f slot = (slot', map_sum id Inr r)" "slot \<noteq> Destroyed"
    for slot' r
    using that by (cases r) (simp_all add: local_try_with_def local_with_def std_with_def)
  show ?thesis
  proof (cases slot)
    case Lazy
    then show ?thesis
      using accessed
      by (cases "key_inner key") (simp_all add: std_try_with_def local_try_with_def local_with_def std_with_def)
  next
    case (Alive v)
    then show ?thesis using accessed by (simp add: std_try_with_def)
  next
    case Destroyed
    then show ?thesis by (simp add: std_try_with_def local_try_with_def local_with_def std_with_def)
  qed
qed

text \<open>The two back ends declare keys that behave the same.\<close>

lemma back_ends_agree:
  "wasm_local_with (wasm_local_key_new init) = local_with (local_key_new init)"
  "wasm_local_try_with (wasm_local_key_new init) = local_try_with (local_key_new init)"
  by (simp_all add: fun_eq_iff wasm_local_with_def wasm_local_try_with_def local_with_def local_try_with_def
      wasm_local_key_new_def local_key_new_def)


text \<open>The \<open>Cell\<close> counter of the crate's documentation in two threads: each counts for itself, and an
  access after the thread's end is refused.\<close>

definition bump :: "(nat, nat) accessor" where
  "bump n = (n + 1, Inr (n + 1))"

lemma counters_are_private:
  "snd (run_locals (local_key_new (Inr 0))
     [(0, With bump), (1, With bump), (0, With bump), (1, ThreadEnds), (1, TryWith bump)] (\<lambda>_. Lazy)) =
   [(0, Value 1), (1, Value 1), (0, Value 2), (1, Ended), (1, Refused)]"
  by (simp add: local_key_new_def local_with_def local_try_with_def std_with_def std_try_with_def bump_def)

end
