(* ===== verification/Facade.thy ===== *)
theory Facade
  imports Hooks Thread_Api Executor Local_Keys
begin

section \<open>The crate's top level (\<open>src/lib.rs\<close>)\<close>

text \<open>
  The functions of the crate's root choose the back end by target; the platform stands for it here.
  \<open>spawn_named\<close> and the console hook combine several components.
\<close>

subsection \<open>Forwarding to the back end\<close>

definition lib_sleep :: "platform \<Rightarrow> nat \<Rightarrow> (('k, 'z) runtime_scheme, unit) prog" where
  "lib_sleep P dur = (case P of Native \<Rightarrow> native_sleep dur | Wasm32 can_wait \<Rightarrow> wasm_sleep can_wait dur)"

definition lib_yield_now :: "platform \<Rightarrow> (('k, 'z) runtime_scheme, unit) prog" where
  "lib_yield_now P = (case P of Native \<Rightarrow> native_yield_now | Wasm32 can_wait \<Rightarrow> wasm_yield_now can_wait)"

definition lib_park :: "platform \<Rightarrow> tid \<Rightarrow> (('k, 'z) runtime_scheme, unit) prog" where
  "lib_park P t = park P t"

definition lib_park_timeout :: "platform \<Rightarrow> tid \<Rightarrow> nat \<Rightarrow> (('k, 'z) runtime_scheme, unit) prog" where
  "lib_park_timeout P t dur = park_timeout P t dur"

definition lib_available_parallelism :: "platform \<Rightarrow> string + 32 word \<Rightarrow> js_env \<Rightarrow> string + 32 word" where
  "lib_available_parallelism P std env = (case P of Native \<Rightarrow> native_available_parallelism std | Wasm32 _ \<Rightarrow> available_parallelism env)"

text \<open>\<open>task_begin\<close> and \<open>task_finished\<close> do nothing on native targets.\<close>

definition lib_task_begin :: "platform \<Rightarrow> bool \<Rightarrow> u32 \<Rightarrow> string + u32" where
  "lib_task_begin P debug c = (case P of Native \<Rightarrow> Inr (native_task_begin c) | Wasm32 _ \<Rightarrow> task_begin debug c)"

definition lib_task_finished :: "platform \<Rightarrow> bool \<Rightarrow> u32 \<Rightarrow> string + u32" where
  "lib_task_finished P debug c = (case P of Native \<Rightarrow> Inr (native_task_finished c) | Wasm32 _ \<Rightarrow> task_finished debug c)"

text \<open>\<open>spawn_named\<close>: the settings it gives a fresh builder.\<close>

definition spawn_named :: "string \<Rightarrow> builder" where
  "spawn_named name = builder_name name builder_new"

definition native_spawn_named :: "string \<Rightarrow> native_builder" where
  "native_spawn_named name = native_builder_name name native_builder_new"

subsection \<open>The console hook\<close>

text \<open>The registry together with every thread's console. A hook is the console redirection or the
  user's.\<close>

datatype 'h lib_hook = RedirectConsole | UserHook 'h

record ('h, 'k) hooked = "((string \<times> 'h lib_hook) list, 'k) mutex" +
  consoles :: "tid \<Rightarrow> console"

definition console_hook_name :: string where
  "console_hook_name = ''wasm_safe_thread::println_eprintln_console_redirect''"

text \<open>Only the WebAssembly back end redirects, and only if built by a nightly compiler.\<close>

fun redirects :: "platform \<Rightarrow> bool \<Rightarrow> bool" where
  "redirects Native nightly = False"
| "redirects (Wasm32 _) nightly = nightly"

definition redirect_current_thread :: "platform \<Rightarrow> bool \<Rightarrow> tid \<Rightarrow> (('h, 'k, 'z) hooked_scheme, unit) prog" where
  "redirect_current_thread P nightly me =
     atomic (\<lambda>s. (s\<lparr>consoles := (consoles s)(me := redirect_prints (redirects P nightly) (consoles s me))\<rparr>, ()))"

definition install_console_hook :: "'k cont_ops \<Rightarrow> platform \<Rightarrow> tid \<Rightarrow> (('h, 'k, 'z) hooked_scheme, unit) prog" where
  "install_console_hook K P t = register_spawn_hook K P t console_hook_name RedirectConsole"

fun hook_body ::
  "platform \<Rightarrow> bool \<Rightarrow> tid \<Rightarrow> ('h \<Rightarrow> (('h, 'k, 'z) hooked_scheme, unit) prog) \<Rightarrow> 'h lib_hook \<Rightarrow> (('h, 'k, 'z) hooked_scheme, unit) prog"
  where
  "hook_body P nightly me user RedirectConsole = redirect_current_thread P nightly me"
| "hook_body P nightly me user (UserHook h) = user h"

fun hook_effect ::
  "bool \<Rightarrow> tid \<Rightarrow> ('h \<Rightarrow> ('h, 'k, 'z) hooked_scheme \<Rightarrow> ('h, 'k, 'z) hooked_scheme) \<Rightarrow> 'h lib_hook \<Rightarrow>
   ('h, 'k, 'z) hooked_scheme \<Rightarrow> ('h, 'k, 'z) hooked_scheme" where
  "hook_effect nightly me effect RedirectConsole s =
     s\<lparr>consoles := (consoles s)(me := redirect_prints nightly (consoles s me))\<rparr>"
| "hook_effect nightly me effect (UserHook h) s = effect h s"

lemma redirect_twice [simp]: "redirect_prints n (redirect_prints n c) = redirect_prints n c"
  by (auto simp: redirect_prints_def split: option.splits)

lemma consoles_after_hooks:
  assumes "\<And>h s. consoles (effect h s) = consoles s"
  shows "consoles (fold (hook_effect nightly me effect) hs s) =
    (if RedirectConsole \<in> set hs then (consoles s)(me := redirect_prints nightly (consoles s me)) else consoles s)"
proof (induction hs arbitrary: s)
  case (Cons h hs)
  then show ?case by (cases h) (auto simp: assms)
qed simp

lemma ends_hooks:
  assumes "\<And>h s. ends (user h) s (Return ()) (effect h s)"
  shows "ends (for_each hs (hook_body P nightly me user)) s (Return ()) (fold (hook_effect (redirects P nightly) me effect) hs s)"
proof (rule ends_for_each)
  show "ends (hook_body P nightly me user h) s (Return ()) (hook_effect (redirects P nightly) me effect h s)" for h s
    by (cases h) (auto simp: redirect_current_thread_def assms intro: ends_one)
qed

lemma consoles_updated [simp]: "consoles (updated K v s) = consoles s"
  by (simp add: updated_def woken_def)

lemma put_hook_member: "h \<in> set (map snd (put_hook n h xs))"
  by (induction xs) (auto simp del: set_map)

lemma prints_without_capture:
  "capture c = None \<Longrightarrow> fold (run_print decode) ops c = c"
proof (induction ops)
  case (Cons p ops)
  then show ?case by (cases p) (simp_all add: print_bytes_def flush_captured_prints_def)
qed simp




end
